(* ===== verification/JsPrelude.thy ===== *)
theory JsPrelude
  imports Main "HOL-Library.Sublist" "HOL-Library.Code_Target_Nat"
begin

text \<open>
  The part of the JavaScript runtime that the modelled scripts use, and the lemmas every other
  theory shares.

  A JavaScript string is a list of UTF-16 code units (\<open>jstr\<close>); \<open>js ''abc''\<close> is the literal
  \<open>"abc"\<close>, and a unit that no Isabelle literal can hold is written as a number (\<open>0x2192\<close> is the
  arrow). White space is the complete ECMAScript set. Case conversion is exact on the units below
  256 (ASCII and Latin-1); a unit above 255 is left as it is, so texts whose cased letters lie
  outside Latin-1 are outside the model.
\<close>

subsection \<open>Collections of simplification rules\<close>

named_theorems js_simps \<open>unfolding rules that let \<open>simp\<close> evaluate the runtime on literals\<close>
named_theorems js_mem \<open>where the units and elements of a result come from\<close>

subsection \<open>Strings\<close>

type_synonym cunit = nat
type_synonym jstr = "cunit list"

definition js :: "string \<Rightarrow> jstr" where
  "js s = map of_char s"

lemma js_Nil [simp]: "js [] = []"
  by (simp add: js_def)

lemma js_Cons [js_simps]: "js (c # cs) = of_char c # js cs"
  by (simp add: js_def)

lemma js_append: "js (s @ t) = js s @ js t"
  by (simp add: js_def)

lemma length_js [simp]: "length (js s) = length s"
  by (simp add: js_def)

lemma js_eq_Nil_iff [simp]: "js s = [] \<longleftrightarrow> s = []"
  by (simp add: js_def)

lemma js_inject [simp]: "js s = js t \<longleftrightarrow> s = t"
  unfolding js_def by (rule inj_map_eq_map) (auto intro!: injI)

text \<open>\<open>String.prototype.trim\<close> and the class \<open>\s\<close> of regular expressions share one set.\<close>

definition is_space :: "cunit \<Rightarrow> bool" where
  "is_space c \<longleftrightarrow> (9 \<le> c \<and> c \<le> 13) \<or> c = 32 \<or> c = 160 \<or> c = 0x1680 \<or> (0x2000 \<le> c \<and> c \<le> 0x200A)
     \<or> c = 0x2028 \<or> c = 0x2029 \<or> c = 0x202F \<or> c = 0x205F \<or> c = 0x3000 \<or> c = 0xFEFF"

definition js_trim :: "jstr \<Rightarrow> jstr" where
  "js_trim s = rev (dropWhile is_space (rev (dropWhile is_space s)))"

definition trimmed :: "jstr \<Rightarrow> bool" where
  "trimmed s \<longleftrightarrow> (s \<noteq> [] \<longrightarrow> \<not> is_space (hd s) \<and> \<not> is_space (last s))"

lemma trimmed_Nil [simp]: "trimmed []"
  by (simp add: trimmed_def)

lemma js_trim_Nil [simp]: "js_trim [] = []"
  by (simp add: js_trim_def)

lemma js_trim_id: "trimmed s \<Longrightarrow> js_trim s = s"
proof (cases "s = []")
  case False
  assume "trimmed s"
  with False have "dropWhile is_space s = s" "dropWhile is_space (rev s) = rev s"
    by (simp_all add: trimmed_def hd_rev dropWhile_eq_self_iff)
  then show ?thesis by (simp add: js_trim_def)
qed simp

lemma dropWhile_trimmed: "xs \<noteq> [] \<Longrightarrow> \<not> P (last xs) \<Longrightarrow> dropWhile P xs \<noteq> [] \<and> last (dropWhile P xs) = last xs"
  by (induction xs) auto

lemma dropWhile_all_space: "list_all P xs \<Longrightarrow> dropWhile P xs = []"
  by (induction xs) auto

lemma trimmed_js_trim [simp]: "trimmed (js_trim s)"
proof -
  let ?a = "dropWhile is_space s"
  let ?b = "dropWhile is_space (rev ?a)"
  show ?thesis
  proof (cases "?b = []")
    case True
    then have "js_trim s = []" by (simp only: js_trim_def rev.simps)
    then show ?thesis by simp
  next
    case False
    then have a: "?a \<noteq> []" by (metis dropWhile.simps(1) rev.simps(1))
    then have "\<not> is_space (hd ?a)" by (rule hd_dropWhile)
    with a have "last ?b = hd ?a"
      using dropWhile_trimmed [of "rev ?a" is_space] by (simp add: last_rev)
    moreover from False have "\<not> is_space (hd ?b)" by (rule hd_dropWhile)
    ultimately show ?thesis
      using False \<open>\<not> is_space (hd ?a)\<close> by (simp add: js_trim_def trimmed_def hd_rev last_rev)
  qed
qed

lemma js_trim_idem [simp]: "js_trim (js_trim s) = js_trim s"
  by (simp add: js_trim_id)

lemma js_trim_pad:
  assumes "list_all is_space u" "list_all is_space v" "trimmed s"
  shows "js_trim (u @ s @ v) = s"
proof (cases "s = []")
  case True
  with assms have "list_all is_space (u @ s @ v)" by simp
  then have "dropWhile is_space (u @ s @ v) = []" by (rule dropWhile_all_space)
  with True show ?thesis by (simp only: js_trim_def rev.simps dropWhile.simps)
next
  case False
  with assms(3) have "\<not> is_space (hd (s @ v))" "\<not> is_space (hd (rev s))"
    by (simp_all add: trimmed_def hd_rev)
  then have s: "dropWhile is_space (s @ v) = s @ v" "dropWhile is_space (rev s) = rev s"
    by (simp_all add: dropWhile_eq_self_iff)
  have "dropWhile is_space (u @ s @ v) = s @ v"
    using assms(1) s(1) by (simp add: dropWhile_append2 list_all_iff)
  moreover have "dropWhile is_space (rev v @ rev s) = rev s"
    using assms(2) s(2) dropWhile_append2 [of "rev v" is_space "rev s"] by (simp add: list_all_iff)
  ultimately show ?thesis by (simp add: js_trim_def)
qed

lemma set_js_trim [js_mem]: "c \<in> set (js_trim s) \<Longrightarrow> c \<in> set s"
  by (auto simp: js_trim_def dest!: set_dropWhileD)

text \<open>\<open>toLowerCase\<close> and \<open>toUpperCase\<close>, exact below 256 (sharp s expands, as in ECMAScript).\<close>

definition lower_cu :: "cunit \<Rightarrow> cunit" where
  "lower_cu c = (if (65 \<le> c \<and> c \<le> 90) \<or> (192 \<le> c \<and> c \<le> 222 \<and> c \<noteq> 215) then c + 32 else c)"

definition upper_cu :: "cunit \<Rightarrow> jstr" where
  "upper_cu c =
     (if (97 \<le> c \<and> c \<le> 122) \<or> (224 \<le> c \<and> c \<le> 254 \<and> c \<noteq> 247) then [c - 32]
      else if c = 0xDF then [83, 83]
      else if c = 0xB5 then [0x39C]
      else if c = 0xFF then [0x178]
      else [c])"

definition js_lower :: "jstr \<Rightarrow> jstr" where
  "js_lower s = map lower_cu s"

definition js_upper :: "jstr \<Rightarrow> jstr" where
  "js_upper s = concat (map upper_cu s)"

lemma lower_cu_idem [simp]: "lower_cu (lower_cu c) = lower_cu c"
  by (auto simp: lower_cu_def)

lemma js_lower_idem [simp]: "js_lower (js_lower s) = js_lower s"
  by (simp add: js_lower_def)

lemma length_js_lower [simp]: "length (js_lower s) = length s"
  by (simp add: js_lower_def)

lemma js_lower_append: "js_lower (s @ t) = js_lower s @ js_lower t"
  by (simp add: js_lower_def)

lemma js_lower_eq_Nil_iff [simp]: "js_lower s = [] \<longleftrightarrow> s = []"
  by (simp add: js_lower_def)

subsection \<open>Searching and cutting strings\<close>

fun js_starts_with :: "jstr \<Rightarrow> jstr \<Rightarrow> bool" where
  "js_starts_with _ [] = True"
| "js_starts_with [] (_ # _) = False"
| "js_starts_with (c # cs) (d # ds) = (c = d \<and> js_starts_with cs ds)"

text \<open>\<open>haystack.includes(needle)\<close>, arguments in that order.\<close>

fun js_includes :: "jstr \<Rightarrow> jstr \<Rightarrow> bool" where
  "js_includes [] t = (t = [])"
| "js_includes (c # cs) t = (js_starts_with (c # cs) t \<or> js_includes cs t)"

lemma js_starts_with_iff: "js_starts_with s t \<longleftrightarrow> prefix t s"
  by (induction s t rule: js_starts_with.induct) auto

lemma js_includes_iff: "js_includes s t \<longleftrightarrow> sublist t s"
  by (induction s) (auto simp: js_starts_with_iff sublist_Cons_right)

lemma js_includes_empty [simp]: "js_includes s []"
  by (simp add: js_includes_iff)

lemma js_includes_refl [simp]: "js_includes s s"
  by (simp add: js_includes_iff)

lemma js_includes_trans: "js_includes s t \<Longrightarrow> js_includes t u \<Longrightarrow> js_includes s u"
  unfolding js_includes_iff by (rule sublist_order.order_trans)

lemma js_includes_append: "js_includes s t \<Longrightarrow> js_includes (u @ s @ v) t"
  by (simp add: js_includes_iff) (meson sublist_append_leftI sublist_append_rightI sublist_order.order_trans)

text \<open>\<open>s.split(d)\<close> for a one-unit separator, and \<open>xs.join(sep)\<close>.\<close>

fun js_split :: "cunit \<Rightarrow> jstr \<Rightarrow> jstr list" where
  "js_split d [] = [[]]"
| "js_split d (c # cs) =
     (if c = d then [] # js_split d cs
      else (case js_split d cs of [] \<Rightarrow> [[c]] | x # xs \<Rightarrow> (c # x) # xs))"

fun js_join :: "jstr \<Rightarrow> jstr list \<Rightarrow> jstr" where
  "js_join sep [] = []"
| "js_join sep [x] = x"
| "js_join sep (x # y # xs) = x @ sep @ js_join sep (y # xs)"

lemma js_split_not_Nil [simp]: "js_split d s \<noteq> []"
  by (cases s) (auto split: list.splits)

lemma js_join_split: "js_join [d] (js_split d s) = s"
proof (induction s)
  case (Cons c cs)
  show ?case
  proof (cases "c = d")
    case True
    with Cons.IH show ?thesis
      by (cases "js_split d cs") auto
  next
    case False
    obtain x xs where x: "js_split d cs = x # xs"
      by (cases "js_split d cs") auto
    with Cons.IH False show ?thesis
      by (cases xs) auto
  qed
qed simp

lemma js_split_no_sep: "d \<notin> set s \<Longrightarrow> js_split d s = [s]"
  by (induction s) auto

lemma js_split_append_sep: "d \<notin> set s \<Longrightarrow> js_split d (s @ d # t) = s # js_split d t"
  by (induction s) auto

lemma js_split_join: "xs \<noteq> [] \<Longrightarrow> \<forall>x\<in>set xs. d \<notin> set x \<Longrightarrow> js_split d (js_join [d] xs) = xs"
  by (induction "[d]" xs rule: js_join.induct) (auto simp: js_split_no_sep js_split_append_sep)

lemma js_split_parts [js_mem]: "x \<in> set (js_split d s) \<Longrightarrow> d \<notin> set x"
  by (induction s arbitrary: x) (auto split: if_splits list.splits)

lemma js_split_sub [js_mem]: "x \<in> set (js_split d s) \<Longrightarrow> set x \<subseteq> set s"
proof (induction s arbitrary: x)
  case (Cons c cs)
  obtain y ys where y: "js_split d cs = y # ys"
    by (cases "js_split d cs") auto
  have "set y \<subseteq> set cs" using Cons.IH [of y] y by simp
  with y Cons.prems Cons.IH [of x] show ?case
    by (cases "c = d") auto
qed simp

lemma js_split_append:
  "\<exists>p q. js_split d s = p @ [q] \<and> js_split d (s @ t) = p @ (q @ hd (js_split d t)) # tl (js_split d t)"
proof (induction s)
  case Nil
  then show ?case by (cases "js_split d t") auto
next
  case (Cons c cs)
  then obtain p q where pq: "js_split d cs = p @ [q]"
    "js_split d (cs @ t) = p @ (q @ hd (js_split d t)) # tl (js_split d t)" by blast
  show ?case
  proof (cases "c = d")
    case True
    with pq show ?thesis by (intro exI [of _ "[] # p"] exI [of _ q]) simp
  next
    case False
    show ?thesis
    proof (cases p)
      case Nil
      with pq False show ?thesis by (intro exI [of _ "[]"] exI [of _ "c # q"]) simp
    next
      case (Cons a p')
      with pq False show ?thesis by (intro exI [of _ "(c # a) # p'"] exI [of _ q]) simp
    qed
  qed
qed

subsection \<open>Numbers as text\<close>

fun js_nat :: "nat \<Rightarrow> jstr" where
  "js_nat n = (if n < 10 then [48 + n] else js_nat (n div 10) @ [48 + n mod 10])"

declare js_nat.simps [simp del]

fun dec_value :: "jstr \<Rightarrow> nat" where
  "dec_value s = foldl (\<lambda>v c. 10 * v + (c - 48)) 0 s"

lemma dec_value_js_nat: "dec_value (js_nat n) = n"
proof (induction n rule: js_nat.induct)
  case (1 n)
  then show ?case
    by (cases "n < 10") (simp_all add: js_nat.simps [of n])
qed

lemma js_nat_digits: "c \<in> set (js_nat n) \<Longrightarrow> 48 \<le> c \<and> c \<le> 57"
proof (induction n rule: js_nat.induct)
  case (1 n)
  then show ?case
    by (cases "n < 10") (auto simp: js_nat.simps [of n])
qed

lemma js_nat_not_Nil [simp]: "js_nat n \<noteq> []"
  by (simp add: js_nat.simps [of n])

subsection \<open>Arrays\<close>

text \<open>\<open>xs.findIndex(p)\<close>: the index of the first match, \<open>-1\<close> without one.\<close>

fun js_find_index :: "('a \<Rightarrow> bool) \<Rightarrow> 'a list \<Rightarrow> int" where
  "js_find_index p [] = - 1"
| "js_find_index p (x # xs) =
     (if p x then 0 else (let i = js_find_index p xs in if i < 0 then - 1 else i + 1))"

lemma js_find_index_ge: "- 1 \<le> js_find_index p xs"
  by (induction xs) (auto simp: Let_def)

lemma js_find_index_found:
  "0 \<le> js_find_index p xs \<Longrightarrow>
     nat (js_find_index p xs) < length xs \<and> p (xs ! nat (js_find_index p xs))
     \<and> (\<forall>j < nat (js_find_index p xs). \<not> p (xs ! j))"
proof (induction xs)
  case (Cons x xs)
  show ?case
  proof (cases "p x")
    case False
    let ?i = "js_find_index p xs"
    from False Cons.prems have i: "0 \<le> ?i" "js_find_index p (x # xs) = ?i + 1"
      by (auto simp: Let_def split: if_splits)
    then have n: "nat (?i + 1) = Suc (nat ?i)" by simp
    from Cons.IH [OF i(1)] False show ?thesis
      unfolding i(2) n by (auto simp: less_Suc_eq_0_disj nth_Cons split: nat.splits)
  qed simp
qed simp

lemma js_find_index_none: "js_find_index p xs < 0 \<longleftrightarrow> (\<forall>x\<in>set xs. \<not> p x)"
  by (induction xs) (auto simp: Let_def)

lemma js_find_index_some: "0 \<le> js_find_index p xs \<longleftrightarrow> (\<exists>x\<in>set xs. p x)"
  using js_find_index_none [of p xs] by auto

text \<open>\<open>xs[i]\<close> reads \<open>undefined\<close> (here \<open>None\<close>) outside the array.\<close>

definition js_at :: "'a list \<Rightarrow> int \<Rightarrow> 'a option" where
  "js_at xs i = (if 0 \<le> i \<and> i < int (length xs) then Some (xs ! nat i) else None)"

text \<open>\<open>xs.find(p)\<close> is the library's \<open>List.find\<close>.\<close>

lemma find_Some_set: "List.find p xs = Some x \<Longrightarrow> x \<in> set xs \<and> p x"
  by (induction xs) (auto split: if_splits)

lemma find_None: "List.find p xs = None \<longleftrightarrow> (\<forall>x\<in>set xs. \<not> p x)"
  by (induction xs) auto

lemma find_first: "List.find p xs = Some x \<Longrightarrow> \<exists>u v. xs = u @ x # v \<and> (\<forall>y\<in>set u. \<not> p y) \<and> p x"
proof (induction xs)
  case (Cons y ys)
  show ?case
  proof (cases "p y")
    case True
    with Cons.prems have "y # ys = [] @ x # ys" "p x" by auto
    then show ?thesis by fastforce
  next
    case False
    with Cons obtain u v where "ys = u @ x # v" "\<forall>y\<in>set u. \<not> p y" "p x" by auto
    with False show ?thesis by (intro exI [of _ "y # u"] exI [of _ v]) simp
  qed
qed simp

end
