(* ===== verification/JsRegex.thy ===== *)
theory JsRegex
  imports JsPrelude
begin

text \<open>
  ECMAScript regular expressions (no \<open>u\<close>, \<open>m\<close>, \<open>s\<close> or \<open>y\<close> flag, no back reference), as the
  scripts use them. The specification's backtracking matcher is written as a list of successes:
  \<open>re_match ic p st\<close> lists every way in which \<open>p\<close> can match at \<open>st\<close>, in the order in which the
  backtracking matcher tries them, so the first element is the match that \<open>exec\<close> reports.
  \<open>ic\<close> is the flag \<open>i\<close>. A state is the text before the position (reversed), the text after it,
  and the captures.
\<close>

subsection \<open>Syntax\<close>

datatype citem = Range cunit cunit | Digit | NotDigit | Word | NotWord | Space | NotSpace

datatype re =
    Eps
  | Cls bool "citem list"
  | AnyChar
  | Seq re re
  | Alt re re
  | Rep bool nat "nat option" re
  | Group nat re
  | Bol
  | Eol
  | WordB
  | NotWordB
  | Look bool re

text \<open>
  \<open>Cls False items\<close> is \<open>[items]\<close> and \<open>Cls True items\<close> is \<open>[^items]\<close>;
  \<open>Rep greedy lo hi p\<close> is \<open>p{lo,hi}\<close>, with \<open>?\<close> when not \<open>greedy\<close>; \<open>Look neg p\<close> is a lookahead.
\<close>

abbreviation ch :: "cunit \<Rightarrow> re" where "ch c \<equiv> Cls False [Range c c]"
abbreviation star :: "re \<Rightarrow> re" where "star p \<equiv> Rep True 0 None p"
abbreviation plus1 :: "re \<Rightarrow> re" where "plus1 p \<equiv> Rep True (Suc 0) None p"
abbreviation opt :: "re \<Rightarrow> re" where "opt p \<equiv> Rep True 0 (Some (Suc 0)) p"
abbreviation times :: "nat \<Rightarrow> re \<Rightarrow> re" where "times n p \<equiv> Rep True n (Some n) p"

text \<open>Classes and single units written with the characters of the source.\<close>

definition units :: "string \<Rightarrow> citem list" where
  "units s = map (\<lambda>c. Range (of_char c) (of_char c)) s"

abbreviation chc :: "char \<Rightarrow> re" where "chc c \<equiv> ch (of_char c)"
abbreviation none_of :: "string \<Rightarrow> re" where "none_of s \<equiv> Cls True (units s)"
abbreviation one_of :: "string \<Rightarrow> re" where "one_of s \<equiv> Cls False (units s)"

fun lit :: "jstr \<Rightarrow> re" where
  "lit [] = Eps"
| "lit (c # cs) = Seq (ch c) (lit cs)"

fun seqs :: "re list \<Rightarrow> re" where
  "seqs [] = Eps"
| "seqs (p # ps) = Seq p (seqs ps)"

fun alts :: "re list \<Rightarrow> re" where
  "alts [] = Cls False []"
| "alts [p] = p"
| "alts (p # q # ps) = Alt p (alts (q # ps))"

primrec groups :: "re \<Rightarrow> nat list" where
  "groups Eps = []"
| "groups (Cls _ _) = []"
| "groups AnyChar = []"
| "groups (Seq p q) = groups p @ groups q"
| "groups (Alt p q) = groups p @ groups q"
| "groups (Rep _ _ _ p) = groups p"
| "groups (Group n p) = n # groups p"
| "groups Bol = []"
| "groups Eol = []"
| "groups WordB = []"
| "groups NotWordB = []"
| "groups (Look _ p) = groups p"

subsection \<open>Characters\<close>

definition is_digit :: "cunit \<Rightarrow> bool" where
  "is_digit c \<longleftrightarrow> 48 \<le> c \<and> c \<le> 57"

definition is_word :: "cunit \<Rightarrow> bool" where
  "is_word c \<longleftrightarrow> is_digit c \<or> (65 \<le> c \<and> c \<le> 90) \<or> (97 \<le> c \<and> c \<le> 122) \<or> c = 95"

definition is_line_end :: "cunit \<Rightarrow> bool" where
  "is_line_end c \<longleftrightarrow> c = 10 \<or> c = 13 \<or> c = 0x2028 \<or> c = 0x2029"

fun in_item :: "citem \<Rightarrow> cunit \<Rightarrow> bool" where
  "in_item (Range a b) c = (a \<le> c \<and> c \<le> b)"
| "in_item Digit c = is_digit c"
| "in_item NotDigit c = (\<not> is_digit c)"
| "in_item Word c = is_word c"
| "in_item NotWord c = (\<not> is_word c)"
| "in_item Space c = is_space c"
| "in_item NotSpace c = (\<not> is_space c)"

text \<open>The units that the flag \<open>i\<close> identifies with a unit (exact below 255, see the prelude).\<close>

definition case_variants :: "cunit \<Rightarrow> cunit list" where
  "case_variants c =
     (if (65 \<le> c \<and> c \<le> 90) \<or> (192 \<le> c \<and> c \<le> 222 \<and> c \<noteq> 215) then [c, c + 32]
      else if (97 \<le> c \<and> c \<le> 122) \<or> (224 \<le> c \<and> c \<le> 254 \<and> c \<noteq> 247) then [c, c - 32]
      else [c])"

definition in_cls :: "bool \<Rightarrow> bool \<Rightarrow> citem list \<Rightarrow> cunit \<Rightarrow> bool" where
  "in_cls ic neg items c =
     (neg \<noteq> list_ex (\<lambda>it. list_ex (in_item it) (if ic then case_variants c else [c])) items)"

subsection \<open>The matcher\<close>

type_synonym caps = "(nat \<times> jstr) list"
type_synonym mst = "jstr \<times> jstr \<times> caps"

definition clear_caps :: "nat list \<Rightarrow> mst \<Rightarrow> mst" where
  "clear_caps ns st = (case st of (b, r, cs) \<Rightarrow> (b, r, filter (\<lambda>(n, _). n \<notin> set ns) cs))"

definition cap :: "caps \<Rightarrow> nat \<Rightarrow> jstr option" where
  "cap cs n = map_of cs n"

definition word_at :: "jstr \<Rightarrow> bool" where
  "word_at s = (case s of [] \<Rightarrow> False | c # _ \<Rightarrow> is_word c)"

text \<open>
  The specification's RepeatMatcher: an iteration that consumes nothing once the minimum is met
  fails. Each iteration lowers the minimum or the rest of the text, so the fuel
  \<open>lo + length rest + 1\<close> given below is enough (\<open>re_match_Rep\<close>).
\<close>

fun rep :: "(mst \<Rightarrow> mst list) \<Rightarrow> bool \<Rightarrow> nat \<Rightarrow> nat \<Rightarrow> nat option \<Rightarrow> mst \<Rightarrow> mst list" where
  "rep f g 0 lo hi st = []"
| "rep f g (Suc n) lo hi st =
     (if hi = Some 0 then [st]
      else
        (let more = concat (map (\<lambda>st'.
               if lo = 0 \<and> length (fst (snd st')) = length (fst (snd st)) then []
               else rep f g n (lo - 1) (map_option (\<lambda>h. h - 1) hi) st') (f st))
         in if 0 < lo then more else if g then more @ [st] else st # more))"

primrec re_match :: "bool \<Rightarrow> re \<Rightarrow> mst \<Rightarrow> mst list" where
  "re_match ic Eps st = [st]"
| "re_match ic (Cls neg items) st =
     (case st of (b, r, cs) \<Rightarrow>
        (case r of [] \<Rightarrow> [] | c # r' \<Rightarrow> if in_cls ic neg items c then [(c # b, r', cs)] else []))"
| "re_match ic AnyChar st =
     (case st of (b, r, cs) \<Rightarrow>
        (case r of [] \<Rightarrow> [] | c # r' \<Rightarrow> if is_line_end c then [] else [(c # b, r', cs)]))"
| "re_match ic (Seq p q) st = concat (map (re_match ic q) (re_match ic p st))"
| "re_match ic (Alt p q) st = re_match ic p st @ re_match ic q st"
| "re_match ic (Rep g lo hi p) st =
     rep (\<lambda>s. re_match ic p (clear_caps (groups p) s)) g (Suc (lo + length (fst (snd st)))) lo hi st"
| "re_match ic (Group n p) st =
     (case st of (b, r, cs) \<Rightarrow>
        map (\<lambda>(b', r', cs'). (b', r', (n, take (length r - length r') r) # cs')) (re_match ic p st))"
| "re_match ic Bol st = (case st of (b, r, cs) \<Rightarrow> if b = [] then [st] else [])"
| "re_match ic Eol st = (case st of (b, r, cs) \<Rightarrow> if r = [] then [st] else [])"
| "re_match ic WordB st = (case st of (b, r, cs) \<Rightarrow> if word_at b \<noteq> word_at r then [st] else [])"
| "re_match ic NotWordB st = (case st of (b, r, cs) \<Rightarrow> if word_at b = word_at r then [st] else [])"
| "re_match ic (Look neg p) st =
     (case st of (b, r, cs) \<Rightarrow>
        (case re_match ic p st of
           [] \<Rightarrow> if neg then [st] else []
         | (_, _, cs') # _ \<Rightarrow> if neg then [] else [(b, r, cs')]))"

subsection \<open>The methods built on it\<close>

text \<open>\<open>exec\<close> from a position: where the match starts and the state in which it ends.\<close>

fun re_search :: "bool \<Rightarrow> re \<Rightarrow> jstr \<Rightarrow> jstr \<Rightarrow> (jstr \<times> jstr \<times> mst) option" where
  "re_search ic p b [] =
     (case re_match ic p (b, [], []) of [] \<Rightarrow> None | m # _ \<Rightarrow> Some (b, [], m))"
| "re_search ic p b (c # cs) =
     (case re_match ic p (b, c # cs, []) of
        [] \<Rightarrow> re_search ic p (c # b) cs
      | m # _ \<Rightarrow> Some (b, c # cs, m))"

definition re_exec :: "bool \<Rightarrow> re \<Rightarrow> jstr \<Rightarrow> caps option" where
  "re_exec ic p s = map_option (\<lambda>(_, _, _, _, cs). cs) (re_search ic p [] s)"

definition re_test :: "bool \<Rightarrow> re \<Rightarrow> jstr \<Rightarrow> bool" where
  "re_test ic p s = (re_search ic p [] s \<noteq> None)"

text \<open>\<open>s.replace(p, f)\<close> without and with the flag \<open>g\<close>; \<open>f\<close> sees the match and the captures.\<close>

definition re_replace :: "bool \<Rightarrow> re \<Rightarrow> (jstr \<Rightarrow> caps \<Rightarrow> jstr) \<Rightarrow> jstr \<Rightarrow> jstr" where
  "re_replace ic p f s =
     (case re_search ic p [] s of
        None \<Rightarrow> s
      | Some (b, r, (b', r', cs)) \<Rightarrow> rev b @ f (take (length r - length r') r) cs @ r')"

function re_replace_from :: "bool \<Rightarrow> re \<Rightarrow> (jstr \<Rightarrow> caps \<Rightarrow> jstr) \<Rightarrow> jstr \<Rightarrow> jstr \<Rightarrow> jstr" where
  "re_replace_from ic p f b [] =
     (case re_match ic p (b, [], []) of [] \<Rightarrow> [] | (_, _, cs) # _ \<Rightarrow> f [] cs)"
| "re_replace_from ic p f b (c # r) =
     (case re_match ic p (b, c # r, []) of
        [] \<Rightarrow> c # re_replace_from ic p f (c # b) r
      | (b', r', cs) # _ \<Rightarrow>
          f (take (length (c # r) - length r') (c # r)) cs @
          (if length r' < length (c # r) then re_replace_from ic p f b' r'
           else c # re_replace_from ic p f (c # b) r))"
  by pat_completeness auto
termination
  by (relation "measure (\<lambda>(ic, p, f, b, r). length r)") auto

definition re_replace_all :: "bool \<Rightarrow> re \<Rightarrow> (jstr \<Rightarrow> caps \<Rightarrow> jstr) \<Rightarrow> jstr \<Rightarrow> jstr" where
  "re_replace_all ic p f s = re_replace_from ic p f [] s"

text \<open>Replacement texts: a constant, and \<open>$1\<close> (an unset group is empty).\<close>

definition by_text :: "jstr \<Rightarrow> jstr \<Rightarrow> caps \<Rightarrow> jstr" where
  "by_text t m cs = t"

definition by_group :: "nat \<Rightarrow> jstr \<Rightarrow> caps \<Rightarrow> jstr" where
  "by_group n m cs = (case cap cs n of None \<Rightarrow> [] | Some t \<Rightarrow> t)"

lemma in_cls_units [simp]:
  "in_cls False neg (units s) c \<longleftrightarrow> (neg \<noteq> (c \<in> set (js s)))"
  by (auto simp: in_cls_def units_def js_def list_ex_iff)

subsection \<open>Matching only moves forward\<close>

definition advances :: "mst \<Rightarrow> mst \<Rightarrow> bool" where
  "advances st st' \<longleftrightarrow> (\<exists>u. fst (snd st) = u @ fst (snd st') \<and> fst st' = rev u @ fst st)"

lemma advances_refl [simp]: "advances st st"
  by (simp add: advances_def)

lemma advances_same_text: "fst st = fst st' \<Longrightarrow> fst (snd st) = fst (snd st') \<Longrightarrow> advances st st'"
  by (simp add: advances_def)

lemma advances_trans: "advances s t \<Longrightarrow> advances t u \<Longrightarrow> advances s u"
  by (auto simp: advances_def)

lemma advances_length: "advances st st' \<Longrightarrow> length (fst (snd st')) \<le> length (fst (snd st))"
  by (auto simp: advances_def)

lemma advances_consumed:
  "advances (b, r, cs) (b', r', cs') \<Longrightarrow> r = take (length r - length r') r @ r' \<and> b' = rev (take (length r - length r') r) @ b"
  by (auto simp: advances_def)

lemma clear_caps_text [simp]:
  "fst (clear_caps ns st) = fst st" "fst (snd (clear_caps ns st)) = fst (snd st)"
  by (cases st; simp add: clear_caps_def)+

lemma clear_caps_Nil [simp]: "clear_caps [] st = st"
  by (cases st) (simp add: clear_caps_def)

lemma rep_advances:
  assumes "\<And>s s'. s' \<in> set (f s) \<Longrightarrow> advances s s'"
  shows "st' \<in> set (rep f g n lo hi st) \<Longrightarrow> advances st st'"
proof (induction n arbitrary: lo hi st)
  case (Suc n)
  show ?case
  proof (cases "st' = st")
    case False
    with Suc.prems obtain s where "s \<in> set (f st)" "st' \<in> set (rep f g n (lo - 1) (map_option (\<lambda>h. h - 1) hi) s)"
      by (auto simp: Let_def split: if_splits)
    with assms Suc.IH show ?thesis by (meson advances_trans)
  qed simp
qed simp

lemma re_match_advances: "st' \<in> set (re_match ic p st) \<Longrightarrow> advances st st'"
proof (induction p arbitrary: st st')
  case (Seq p q)
  then obtain s where "s \<in> set (re_match ic p st)" "st' \<in> set (re_match ic q s)"
    by (auto simp del: split_paired_Ex)
  with Seq.IH show ?case by (blast intro: advances_trans)
next
  case (Rep g lo hi p)
  show ?case
  proof (rule rep_advances)
    show "st' \<in> set (rep (\<lambda>s. re_match ic p (clear_caps (groups p) s)) g
            (Suc (lo + length (fst (snd st)))) lo hi st)"
      using Rep.prems by simp
    fix s s'
    assume "s' \<in> set (re_match ic p (clear_caps (groups p) s))"
    from Rep.IH [OF this] show "advances s s'" by (simp add: advances_def)
  qed
next
  case (Group n p)
  then obtain s where "s \<in> set (re_match ic p st)" "fst st' = fst s" "fst (snd st') = fst (snd s)"
    by (auto split: prod.splits)
  with Group.IH [of s st] show ?case by (auto simp: advances_def)
next
  case (Look neg p)
  then show ?case
    by (cases "re_match ic p st") (auto simp: advances_def split: prod.splits if_splits)
qed (auto simp: advances_def split: prod.splits list.splits if_splits)

lemma rep_fuel:
  assumes shrink: "\<And>s s'. s' \<in> set (f s) \<Longrightarrow> length (fst (snd s')) \<le> length (fst (snd s))"
  shows "lo + length (fst (snd st)) < n \<Longrightarrow> lo + length (fst (snd st)) < k \<Longrightarrow>
    rep f g n lo hi st = rep f g k lo hi st"
proof (induction n arbitrary: k lo hi st)
  case (Suc n)
  then obtain k' where k: "k = Suc k'" by (cases k) auto
  have "(if lo = 0 \<and> length (fst (snd s)) = length (fst (snd st)) then []
         else rep f g n (lo - 1) (map_option (\<lambda>h. h - 1) hi) s) =
        (if lo = 0 \<and> length (fst (snd s)) = length (fst (snd st)) then []
         else rep f g k' (lo - 1) (map_option (\<lambda>h. h - 1) hi) s)"
    if s: "s \<in> set (f st)" for s
  proof (cases "lo = 0 \<and> length (fst (snd s)) = length (fst (snd st))")
    case False
    with shrink [OF s] Suc.prems k
    have "lo - 1 + length (fst (snd s)) < n" "lo - 1 + length (fst (snd s)) < k'" by auto
    from Suc.IH [OF this] show ?thesis by simp
  qed auto
  then show ?case
    unfolding k rep.simps by (simp cong: map_cong)
qed simp

text \<open>The specification's equation for a quantifier, without fuel.\<close>

lemma re_match_Rep:
  "re_match ic (Rep g lo hi p) st =
     (if hi = Some 0 then [st]
      else
        (let more = concat (map (\<lambda>st'.
               if lo = 0 \<and> length (fst (snd st')) = length (fst (snd st)) then []
               else re_match ic (Rep g (lo - 1) (map_option (\<lambda>h. h - 1) hi) p) st')
               (re_match ic p (clear_caps (groups p) st)))
         in if 0 < lo then more else if g then more @ [st] else st # more))"
proof -
  let ?f = "\<lambda>s. re_match ic p (clear_caps (groups p) s)"
  have shrink: "length (fst (snd s')) \<le> length (fst (snd s))" if "s' \<in> set (?f s)" for s s'
    using advances_length [OF re_match_advances [OF that]] by simp
  let ?go = "\<lambda>s. if lo = 0 \<and> length (fst (snd s)) = length (fst (snd st)) then []
         else rep ?f g (lo + length (fst (snd st))) (lo - 1) (map_option (\<lambda>h. h - 1) hi) s"
  let ?spec = "\<lambda>s. if lo = 0 \<and> length (fst (snd s)) = length (fst (snd st)) then []
         else re_match ic (Rep g (lo - 1) (map_option (\<lambda>h. h - 1) hi) p) s"
  have "?go s = ?spec s" if s: "s \<in> set (?f st)" for s
  proof (cases "lo = 0 \<and> length (fst (snd s)) = length (fst (snd st))")
    case False
    with shrink [OF s] have "lo - 1 + length (fst (snd s)) < lo + length (fst (snd st))" by auto
    then show ?thesis
      by (simp only: False if_False re_match.simps) (rule rep_fuel, auto intro: shrink)
  qed auto
  then have "map ?go (?f st) = map ?spec (?f st)" by (intro map_cong) auto
  then show ?thesis
    by (simp only: re_match.simps(6) [of ic g lo hi p st] rep.simps)
qed

declare re_match.simps(6) [simp del]

subsection \<open>The shapes that occur in the scripts\<close>

lemma re_match_Cls [simp]:
  "re_match ic (Cls neg items) (b, [], cs) = []"
  "re_match ic (Cls neg items) (b, c # r, cs) = (if in_cls ic neg items c then [(c # b, r, cs)] else [])"
  by simp_all

declare re_match.simps(2) [simp del]

lemma re_match_star_cls:
  "re_match ic (star (Cls neg items)) (b, r, cs) =
     map (\<lambda>k. (rev (take k r) @ b, drop k r, cs))
       (rev [0..<Suc (length (takeWhile (in_cls ic neg items) r))])"
proof (induction r arbitrary: b)
  case Nil
  then show ?case by (simp add: re_match_Rep [where lo = 0])
next
  case (Cons c r)
  show ?case
  proof (cases "in_cls ic neg items c")
    case True
    let ?n = "length (takeWhile (in_cls ic neg items) r)"
    have "rev [0..<Suc (Suc ?n)] = map Suc (rev [0..<Suc ?n]) @ [0]"
      by (simp only: upt_conv_Cons map_Suc_upt [symmetric] rev_map rev.simps zero_less_Suc)
    with True Cons.IH [of "c # b"] show ?thesis
      by (subst re_match_Rep) (simp add: comp_def del: upt_Suc)
  next
    case False
    then show ?thesis by (simp add: re_match_Rep [where lo = 0])
  qed
qed

lemma re_match_plus_cls:
  "re_match ic (plus1 (Cls neg items)) (b, r, cs) =
     (case r of [] \<Rightarrow> []
      | c # r' \<Rightarrow> if in_cls ic neg items c then re_match ic (star (Cls neg items)) (c # b, r', cs) else [])"
  by (cases r) (simp_all add: re_match_Rep [where lo = "Suc 0"])

lemma re_match_times_cls:
  "re_match ic (times n (Cls neg items)) (b, r, cs) =
     (if n \<le> length r \<and> list_all (in_cls ic neg items) (take n r)
      then [(rev (take n r) @ b, drop n r, cs)] else [])"
proof (induction n arbitrary: b r)
  case 0
  then show ?case by (simp add: re_match_Rep [where lo = 0])
next
  case (Suc n)
  show ?case
  proof (cases r)
    case Nil
    then show ?thesis by (simp add: re_match_Rep [where lo = "Suc n"])
  next
    case (Cons c r')
    then show ?thesis
      by (subst re_match_Rep) (simp add: Suc.IH)
  qed
qed

lemma re_match_Seq_Eol:
  "re_match ic (Seq p Eol) st = filter (\<lambda>s. fst (snd s) = []) (re_match ic p st)"
proof -
  have "concat (map (re_match ic Eol) xs) = filter (\<lambda>s. fst (snd s) = []) xs" for xs
    by (induction xs) auto
  then show ?thesis by simp
qed

text \<open>A lazy run of \<open>.\<close> tries the shortest text first.\<close>

lemma re_match_lazy_dot:
  "re_match ic (Rep False 0 None AnyChar) (b, r, cs) =
     map (\<lambda>k. (rev (take k r) @ b, drop k r, cs)) [0..<Suc (length (takeWhile (\<lambda>c. \<not> is_line_end c) r))]"
proof (induction r arbitrary: b)
  case Nil
  then show ?case by (simp add: re_match_Rep [where lo = 0])
next
  case (Cons c r)
  show ?case
  proof (cases "is_line_end c")
    case False
    let ?n = "length (takeWhile (\<lambda>c. \<not> is_line_end c) r)"
    have "[0..<Suc (Suc ?n)] = 0 # map Suc [0..<Suc ?n]"
      by (metis map_Suc_upt upt_conv_Cons zero_less_Suc)
    with False Cons.IH [of "c # b"] show ?thesis
      by (subst re_match_Rep) (simp add: comp_def del: upt_Suc)
  next
    case True
    then show ?thesis by (simp add: re_match_Rep [where lo = 0])
  qed
qed

lemma re_match_lazy_dot1:
  "re_match ic (Rep False (Suc 0) None AnyChar) (b, r, cs) =
     map (\<lambda>k. (rev (take k r) @ b, drop k r, cs)) [Suc 0..<Suc (length (takeWhile (\<lambda>c. \<not> is_line_end c) r))]"
proof (cases r)
  case (Cons c r')
  have "re_match ic (Rep False (Suc 0) None AnyChar) (b, r, cs) =
      (if is_line_end c then [] else re_match ic (Rep False 0 None AnyChar) (c # b, r', cs))"
    using Cons by (subst re_match_Rep) simp
  moreover have "[Suc 0..<Suc (Suc n)] = map Suc [0..<Suc n]" for n
    by (simp only: map_Suc_upt)
  ultimately show ?thesis
    using Cons by (simp add: re_match_lazy_dot comp_def del: upt_Suc)
qed (simp add: re_match_Rep [where lo = "Suc 0"])

lemma re_match_group_lazy_dot1:
  "re_match ic (Group n (Rep False (Suc 0) None AnyChar)) (b, r, cs) =
     map (\<lambda>k. (rev (take k r) @ b, drop k r, (n, take k r) # cs))
       [Suc 0..<Suc (length (takeWhile (\<lambda>c. \<not> is_line_end c) r))]"
proof -
  have "take (length r - length (drop k r)) r = take k r" for k
    by (cases "k \<le> length r") simp_all
  then show ?thesis by (simp add: re_match_lazy_dot1 comp_def del: upt_Suc length_drop)
qed

lemma concat_map_hit:
  assumes "\<forall>k. lo \<le> k \<and> k < m \<longrightarrow> h k = []" "lo \<le> m" "m < n"
  shows "concat (map h [lo..<n]) = h m @ concat (map h [Suc m..<n])"
proof -
  have "[lo..<n] = [lo..<m] @ [m..<n]"
    using assms upt_add_eq_append [of lo m "n - m"] by simp
  moreover have "[m..<n] = m # [Suc m..<n]" using assms(3) by (simp add: upt_conv_Cons)
  moreover have "concat (map h [lo..<m]) = []" using assms(1) by auto
  ultimately show ?thesis by simp
qed

lemma concat_map_last:
  assumes "\<forall>k<n. h k = []"
  shows "concat (map h (rev [0..<Suc n])) = h n"
proof -
  have "concat (map h (rev [0..<n])) = []" using assms by auto
  then show ?thesis by simp
qed

text \<open>A pattern that starts with \<open>^\<close> is tried at the first position only.\<close>

lemma re_search_Bol: "b \<noteq> [] \<Longrightarrow> re_search ic (Seq Bol p) b r = None"
  by (induction r arbitrary: b) auto

lemma re_test_Bol: "re_test ic (Seq Bol p) s = (re_match ic p ([], s, []) \<noteq> [])"
  by (cases s) (auto simp: re_test_def re_search_Bol split: list.splits)

lemma re_exec_Bol:
  "re_exec ic (Seq Bol p) s =
     (case re_match ic p ([], s, []) of [] \<Rightarrow> None | m # _ \<Rightarrow> Some (snd (snd m)))"
  by (cases s) (auto simp: re_exec_def re_search_Bol split: list.splits)

text \<open>Literal text, case sensitive and under the flag \<open>i\<close>.\<close>

lemma in_cls_ch [simp]: "in_cls False False [Range d d] c \<longleftrightarrow> c = d"
  by (auto simp: in_cls_def)

fun same_text :: "jstr \<Rightarrow> jstr \<Rightarrow> bool" where
  "same_text [] s = True"
| "same_text (d # ds) [] = False"
| "same_text (d # ds) (c # cs) = (d \<in> set (case_variants c) \<and> same_text ds cs)"

lemma re_match_lit:
  "re_match False (lit t) (b, r, cs) =
     (if prefix t r then [(rev t @ b, drop (length t) r, cs)] else [])"
proof (induction t arbitrary: b r)
  case (Cons d ds)
  then show ?case by (cases r) auto
qed simp

lemma re_match_lit_i:
  "re_match True (lit t) (b, r, cs) =
     (if same_text t r then [(rev (take (length t) r) @ b, drop (length t) r, cs)] else [])"
proof (induction t arbitrary: b r)
  case (Cons d ds)
  show ?case
  proof (cases r)
    case (Cons c cs')
    have "in_cls True False [Range d d] c \<longleftrightarrow> d \<in> set (case_variants c)"
      by (auto simp: in_cls_def list_ex_iff)
    with Cons Cons.IH show ?thesis by simp
  qed simp
qed simp

text \<open>A greedy run of a class up to the first unit outside it: shorter runs lead nowhere.\<close>

lemma re_match_cut_run:
  assumes "list_all (in_cls False neg items) u" "\<not> in_cls False neg items c" "k < length u"
  shows "re_match False (Seq (ch c) q) (b, drop k (u @ c # r), cs) = []"
proof -
  have "drop k (u @ c # r) = u ! k # drop (Suc k) (u @ c # r)"
    using assms(3) by (metis Cons_nth_drop_Suc length_append nth_append trans_less_add1)
  moreover have "u ! k \<noteq> c" using assms by (auto simp: list_all_length)
  ultimately show ?thesis by simp
qed

lemma re_match_run_group:
  assumes "list_all (in_cls False neg items) u" "u \<noteq> []" "\<not> in_cls False neg items c"
  shows "re_match False (Seq (plus1 (Cls neg items)) (Seq (ch c) q)) (b, u @ c # r, cs)
      = re_match False q (c # rev u @ b, r, cs)"
    "re_match False (Seq (Group n (plus1 (Cls neg items))) (Seq (ch c) q)) (b, u @ c # r, cs)
      = re_match False q (c # rev u @ b, r, (n, u) # cs)"
proof -
  obtain d u' where u: "u = d # u'" using assms(2) by (cases u) auto
  have run: "takeWhile (in_cls False neg items) (u' @ c # r) = u'"
    using assms u by (simp add: takeWhile_tail list_all_iff)
  let ?caps = "\<lambda>k. (n, take (length (u @ c # r) - length (drop k (u' @ c # r))) (u @ c # r)) # cs"
  have cut: "\<forall>k<length u'. re_match False (Seq (ch c) q) (f k, drop k (u' @ c # r), g k) = []" for f g
    using assms u re_match_cut_run [of neg items u' c] by simp
  have hit: "concat (map (\<lambda>k. re_match False (Seq (ch c) q) (rev (take k (u' @ c # r)) @ d # b, drop k (u' @ c # r), g k))
      (rev [0..<Suc (length u')])) = re_match False q (c # rev u @ b, r, g (length u'))" for g
    using u by (subst concat_map_last) (use cut in simp_all)
  show "re_match False (Seq (plus1 (Cls neg items)) (Seq (ch c) q)) (b, u @ c # r, cs)
      = re_match False q (c # rev u @ b, r, cs)"
    using hit [of "\<lambda>_. cs"] assms(1) u run by (simp add: re_match_plus_cls re_match_star_cls comp_def del: upt_Suc)
  show "re_match False (Seq (Group n (plus1 (Cls neg items))) (Seq (ch c) q)) (b, u @ c # r, cs)
      = re_match False q (c # rev u @ b, r, (n, u) # cs)"
    using hit [of ?caps] assms(1) u run
    by (simp add: re_match_plus_cls re_match_star_cls comp_def del: upt_Suc length_append length_drop) simp
qed

lemma re_match_lit_seq:
  "re_match False (Seq (lit t) q) (b, t @ r, cs) = re_match False q (rev t @ b, r, cs)"
  by (simp add: re_match_lit)

lemma re_match_git_end:
  "re_match False (Seq (opt (lit t)) (Seq Eol Eps)) (b, r, cs) =
     (if r = t \<and> t \<noteq> [] then [(rev t @ b, [], cs)] else if r = [] then [(b, [], cs)] else [])"
proof -
  have "re_match False (Rep True 0 (Some 0) (lit t)) st = [st]" for st
    by (simp add: re_match_Rep [where hi = "Some 0"])
  then have "re_match False (opt (lit t)) (b, r, cs) =
     (if prefix t r \<and> t \<noteq> [] then [(rev t @ b, drop (length t) r, filter (\<lambda>(n, _). n \<notin> set (groups (lit t))) cs)] else []) @ [(b, r, cs)]"
    by (subst re_match_Rep) (auto simp: re_match_lit clear_caps_def prefix_def)
  moreover have "groups (lit t) = []" by (induction t) simp_all
  ultimately show ?thesis by (auto simp: prefix_def)
qed

subsection \<open>Global replacement\<close>

declare re_replace_from.simps [simp del]

text \<open>A pattern that is one class acts unit by unit.\<close>

lemma re_replace_from_cls:
  "re_replace_from ic (Cls neg items) f b s =
     concat (map (\<lambda>c. if in_cls ic neg items c then f [c] [] else [c]) s)"
proof (induction s arbitrary: b)
  case Nil
  then show ?case by (simp add: re_replace_from.simps)
next
  case (Cons c s)
  then show ?case by (simp add: re_replace_from.simps)
qed

lemma re_replace_all_cls:
  "re_replace_all ic (Cls neg items) f s =
     concat (map (\<lambda>c. if in_cls ic neg items c then f [c] [] else [c]) s)"
  by (simp add: re_replace_all_def re_replace_from_cls)

text \<open>A class under \<open>+\<close> acts on maximal runs.\<close>

function map_runs :: "(cunit \<Rightarrow> bool) \<Rightarrow> (jstr \<Rightarrow> jstr) \<Rightarrow> jstr \<Rightarrow> jstr" where
  "map_runs P f [] = []"
| "map_runs P f (c # s) =
     (if P c then f (c # takeWhile P s) @ map_runs P f (dropWhile P s) else c # map_runs P f s)"
  by pat_completeness auto
termination
  by (relation "measure (\<lambda>(P, f, s). length s)") (auto simp: le_imp_less_Suc length_dropWhile_le)

lemma re_replace_from_plus:
  "re_replace_from ic (plus1 (Cls neg items)) f b s =
     map_runs (in_cls ic neg items) (\<lambda>u. f u []) s"
proof (induction "in_cls ic neg items" "\<lambda>u. f u []" s arbitrary: b rule: map_runs.induct)
  case 1
  then show ?case by (simp add: re_replace_from.simps re_match_plus_cls)
next
  case (2 c s)
  let ?P = "in_cls ic neg items"
  show ?case
  proof (cases "?P c")
    case True
    have k: "length (takeWhile ?P s) + length (dropWhile ?P s) = length s"
      by (metis length_append takeWhile_dropWhile_id)
    have d: "drop (length (takeWhile ?P s)) s = dropWhile ?P s"
      "take (length (takeWhile ?P s)) s = takeWhile ?P s"
      by (simp_all add: dropWhile_eq_drop takeWhile_eq_take [symmetric])
    from True have m: "re_match ic (plus1 (Cls neg items)) (b, c # s, []) =
        (rev (takeWhile ?P s) @ c # b, dropWhile ?P s, []) #
        map (\<lambda>k. (rev (take k s) @ c # b, drop k s, [])) (rev [0..<length (takeWhile ?P s)])"
      by (simp add: re_match_plus_cls re_match_star_cls d del: append_assoc)
    from k have "length (c # s) - length (dropWhile ?P s) = Suc (length (takeWhile ?P s))" by simp
    with True m d k 2(1) [OF True, of "rev (takeWhile ?P s) @ c # b"] show ?thesis
      by (simp add: re_replace_from.simps)
  next
    case False
    with 2(2) [OF False, of "c # b"] show ?thesis
      by (simp add: re_replace_from.simps re_match_plus_cls)
  qed
qed

lemma re_replace_all_plus:
  "re_replace_all ic (plus1 (Cls neg items)) f s = map_runs (in_cls ic neg items) (\<lambda>u. f u []) s"
  by (simp add: re_replace_all_def re_replace_from_plus)

text \<open>Where the units of a result come from: rest and captures stay within a set of units.\<close>

definition within :: "cunit set \<Rightarrow> mst \<Rightarrow> bool" where
  "within A st \<longleftrightarrow> set (fst (snd st)) \<subseteq> A \<and> (\<forall>x\<in>set (snd (snd st)). set (snd x) \<subseteq> A)"

lemma within_clear_caps: "within A st \<Longrightarrow> within A (clear_caps ns st)"
  by (cases st) (auto simp: within_def clear_caps_def)

lemma within_rep:
  assumes "\<And>s s'. s' \<in> set (f s) \<Longrightarrow> within A s \<Longrightarrow> within A s'"
  shows "st' \<in> set (rep f g n lo hi st) \<Longrightarrow> within A st \<Longrightarrow> within A st'"
proof (induction n arbitrary: lo hi st)
  case (Suc n)
  show ?case
  proof (cases "st' = st")
    case False
    with Suc.prems obtain s where "s \<in> set (f st)"
      "st' \<in> set (rep f g n (lo - 1) (map_option (\<lambda>h. h - 1) hi) s)"
      by (auto simp: Let_def split: if_splits)
    with Suc.IH Suc.prems assms show ?thesis by blast
  qed (use Suc.prems in simp)
qed simp

lemma within_re_match: "st' \<in> set (re_match ic p st) \<Longrightarrow> within A st \<Longrightarrow> within A st'"
proof (induction p arbitrary: st st')
  case (Seq p q)
  then obtain s where "s \<in> set (re_match ic p st)" "st' \<in> set (re_match ic q s)"
    by (auto simp del: split_paired_Ex)
  with Seq show ?case by blast
next
  case (Rep g lo hi p)
  show ?case
  proof (rule within_rep [OF _ _ Rep.prems(2)])
    show "st' \<in> set (rep (\<lambda>s. re_match ic p (clear_caps (groups p) s)) g
            (Suc (lo + length (fst (snd st)))) lo hi st)"
      using Rep.prems by (simp only: re_match.simps)
  qed (use Rep.IH within_clear_caps in blast)
next
  case (Group n p)
  then obtain s where s: "s \<in> set (re_match ic p st)" "fst (snd st') = fst (snd s)"
    "snd (snd st') = (n, take (length (fst (snd st)) - length (fst (snd s))) (fst (snd st))) # snd (snd s)"
    by (auto split: prod.splits)
  have "within A s" using Group s(1) by blast
  with Group.prems(2) s(2,3) show ?case
    by (auto simp: within_def dest: in_set_takeD)
next
  case (Alt p q)
  then have "st' \<in> set (re_match ic p st) \<or> st' \<in> set (re_match ic q st)" by simp
  with Alt show ?case by blast
next
  case (Cls neg items)
  then show ?case
    by (auto simp: within_def re_match.simps(2) split: prod.splits list.splits if_splits)
next
  case (Look neg p)
  obtain b r cs where st: "st = (b, r, cs)" by (cases st)
  show ?case
  proof (cases "re_match ic p st")
    case (Cons s ss)
    then have "s \<in> set (re_match ic p st)" by simp
    from Look.IH [OF this Look.prems(2)] have "within A s" .
    with Look.prems Cons st show ?thesis
      by (auto simp: within_def split: prod.splits if_splits)
  qed (use Look.prems st in \<open>auto split: if_splits\<close>)
qed (auto simp: within_def split: prod.splits list.splits if_splits)

text \<open>A replacement by a part of the match brings in no new unit.\<close>

definition draws :: "(jstr \<Rightarrow> caps \<Rightarrow> jstr) \<Rightarrow> bool" where
  "draws f \<longleftrightarrow> (\<forall>m cs. set (f m cs) \<subseteq> set m \<union> (\<Union>x\<in>set cs. set (snd x)))"

lemma draws_by_group [simp]: "draws (by_group n)"
proof -
  have "set t \<subseteq> (\<Union>x\<in>set cs. set (snd x))" if "map_of cs n = Some t" for cs t
    using map_of_SomeD [OF that] by force
  then have "set (by_group n m cs) \<subseteq> (\<Union>x\<in>set cs. set (snd x))" for m cs
    by (cases "map_of cs n") (simp_all add: by_group_def cap_def)
  then show ?thesis
    by (auto simp: draws_def)
qed

lemma draws_within:
  "draws f \<Longrightarrow> m \<in> set (re_match ic p (b, s, [])) \<Longrightarrow> set s \<subseteq> A \<Longrightarrow>
     set (f (take n s) (snd (snd m))) \<subseteq> A \<and> set (fst (snd m)) \<subseteq> A"
  using within_re_match [of m ic p "(b, s, [])" A]
  by (auto simp: draws_def within_def dest!: set_mp dest: in_set_takeD)

lemma re_replace_from_draws:
  "draws f \<Longrightarrow> set s \<subseteq> A \<Longrightarrow> set (re_replace_from ic p f b s) \<subseteq> A"
proof (induction ic p f b s rule: re_replace_from.induct)
  case (1 ic p f b)
  show ?case
  proof (cases "re_match ic p (b, [], [])")
    case (Cons m ms)
    moreover obtain b' r' cs where "m = (b', r', cs)" by (cases m)
    ultimately show ?thesis
      using 1 draws_within [of f m ic p b "[]" A 0] by (simp add: re_replace_from.simps)
  qed (simp add: re_replace_from.simps)
next
  case (2 ic p f b c r)
  show ?case
  proof (cases "re_match ic p (b, c # r, [])")
    case Nil
    with 2 show ?thesis by (simp add: re_replace_from.simps)
  next
    case (Cons m ms)
    obtain b' r' cs where m: "m = (b', r', cs)" by (cases m)
    have d: "set (f (take n (c # r)) cs) \<subseteq> A \<and> set r' \<subseteq> A" for n
      using draws_within [of f m ic p b "c # r" A n] Cons m 2(4,5) by simp
    show ?thesis
    proof (cases "length r' < length (c # r)")
      case True
      with 2(2) [OF Cons m [symmetric] refl True] 2(4) d Cons m show ?thesis
        by (simp add: re_replace_from.simps)
    next
      case False
      with 2(3) [OF Cons m [symmetric] refl False] 2(4,5) d [of 0] Cons m show ?thesis
        by (simp add: re_replace_from.simps)
    qed
  qed
qed

text \<open>A pattern that matches nowhere leaves the text alone.\<close>

lemma re_replace_from_id:
  "(\<And>b r. suffix r s \<Longrightarrow> re_match ic p (b, r, []) = []) \<Longrightarrow> re_replace_from ic p f b s = s"
proof (induction s arbitrary: b)
  case Nil
  then show ?case by (simp add: re_replace_from.simps)
next
  case (Cons c s)
  have "re_match ic p (b, c # s, []) = []" by (rule Cons.prems) simp
  moreover have "re_replace_from ic p f (c # b) s = s"
    by (rule Cons.IH) (auto intro: Cons.prems suffix_ConsI)
  ultimately show ?case by (simp add: re_replace_from.simps)
qed

text \<open>A pattern that starts with a one-unit class can only match where that class does.\<close>

lemma re_replace_from_absent:
  assumes "\<And>c. c \<in> set s \<Longrightarrow> \<not> in_cls ic neg items c"
  shows "re_replace_from ic (Seq (Cls neg items) p) f b s = s"
proof (rule re_replace_from_id)
  fix b r
  assume "suffix r s"
  then show "re_match ic (Seq (Cls neg items) p) (b, r, []) = []"
    using assms by (cases r) (auto simp: suffix_def)
qed

lemmas re_shapes = re_match_star_cls re_match_plus_cls re_match_times_cls re_match_Seq_Eol
  re_test_Bol re_exec_Bol re_match_lit re_match_lit_i re_replace_all_cls re_replace_all_plus

end
