(* ===== verification/TriageText.thy ===== *)
theory TriageText
  imports JsRegex
begin

text \<open>
  The text helpers of \<open>.squad/templates/ralph-triage.js\<close>: line ends, table cells, keywords,
  owners, module paths and member names. Each definition is the chain of \<open>replace\<close>, \<open>trim\<close>,
  \<open>split\<close> and \<open>toLowerCase\<close> calls of the function of the same name, with its regular
  expressions.
\<close>

subsection \<open>The functions\<close>

definition normalizeEol :: "jstr \<Rightarrow> jstr" where
  "normalizeEol content =
     re_replace_all False (chc CHR 0x0D) (by_text (js [CHR 0x0A]))
       (re_replace_all False (lit (js [CHR 0x0D, CHR 0x0A])) (by_text (js [CHR 0x0A])) content)"

definition parseTableLine :: "jstr \<Rightarrow> jstr list" where
  "parseTableLine line =
     map js_trim
       (js_split (of_char CHR ''|'')
         (re_replace False (Seq (chc CHR ''|'') Eol) (by_text [])
           (re_replace False (Seq Bol (chc CHR ''|'')) (by_text []) line)))"

text \<open>The Markdown link pattern: bracketed text captured as group 1, then a parenthesised target.\<close>

definition link_re :: re where
  "link_re = seqs [chc CHR ''['', Group 1 (plus1 (none_of '']'')), chc CHR '']'',
     chc CHR ''('', plus1 (none_of '')''), chc CHR '')'']"

definition cleanCell :: "jstr \<Rightarrow> jstr" where
  "cleanCell value =
     js_trim (re_replace_all False link_re (by_group 1)
       (re_replace_all False (chc CHR 0x60) (by_text []) value))"

text \<open>An absent cell (\<open>undefined\<close>) or an empty one gives no keywords.\<close>

definition splitKeywords :: "jstr option \<Rightarrow> jstr list" where
  "splitKeywords examplesCell =
     (case examplesCell of
        None \<Rightarrow> []
      | Some cell \<Rightarrow>
          if cell = [] then []
          else filter (\<lambda>keyword. length keyword > 0) (map cleanCell (js_split (of_char CHR '','') cell)))"

text \<open>Hyphen, em dash (\<open>0x2014\<close>) and en dash (\<open>0x2013\<close>) stand for "nobody".\<close>

definition dashes_re :: re where
  "dashes_re = seqs [Bol, plus1 (Cls False [Range 45 45, Range 0x2014 0x2014, Range 0x2013 0x2013]), Eol]"

definition normalizeOptionalOwner :: "jstr \<Rightarrow> jstr option" where
  "normalizeOptionalOwner owner =
     (if owner = [] then None else if re_test False dashes_re owner then None else Some owner)"

definition normalizeModulePath :: "jstr \<Rightarrow> jstr" where
  "normalizeModulePath modulePath =
     js_lower (re_replace_all False (chc CHR 0x5C) (by_text (js ''/'')) (cleanCell modulePath))"

definition normalizeTextForPathMatch :: "jstr \<Rightarrow> jstr" where
  "normalizeTextForPathMatch text =
     re_replace_all False (chc CHR 0x60) (by_text [])
       (re_replace_all False (chc CHR 0x5C) (by_text (js ''/'')) text)"

definition normalizeName :: "jstr \<Rightarrow> jstr" where
  "normalizeName value =
     js_trim (re_replace_all False (plus1 (Cls False [Space])) (by_text (js '' ''))
       (re_replace_all False (Cls True [Word, Range 64 64, Space, Range 45 45]) (by_text [])
         (js_lower (cleanCell value))))"

subsection \<open>Line ends\<close>

text \<open>What the two replacements amount to: one pass that reads CRLF, CR and LF as one line end.\<close>

fun unify_eol :: "jstr \<Rightarrow> jstr" where
  "unify_eol [] = []"
| "unify_eol (c # s) =
     (if c = 13 then 10 # (case s of [] \<Rightarrow> [] | d # r \<Rightarrow> if d = 10 then unify_eol r else unify_eol s)
      else c # unify_eol s)"

lemma crlf_pass:
  "re_replace_from False (lit [13, 10]) (by_text [10]) b (c # s) =
     (if c = 13 \<and> s \<noteq> [] \<and> hd s = 10
      then 10 # re_replace_from False (lit [13, 10]) (by_text [10]) (10 # 13 # b) (tl s)
      else c # re_replace_from False (lit [13, 10]) (by_text [10]) (c # b) s)"
  by (cases s) (auto simp: re_replace_from.simps re_match_lit by_text_def simp del: lit.simps)

lemma crlf_pass_Nil [simp]:
  "re_replace_from False (lit [13, 10]) (by_text [10]) b [] = []"
  by (simp add: re_replace_from.simps re_match_lit del: lit.simps)

lemma normalizeEol_unify: "normalizeEol s = unify_eol s"
proof -
  have "concat (map (\<lambda>c. if c = 13 then [10] else [c])
          (re_replace_from False (lit [13, 10]) (by_text [10]) b s)) = unify_eol s" for b
  proof (induction s arbitrary: b rule: unify_eol.induct)
    case (2 c s)
    then show ?case
      by (cases s) (auto simp: crlf_pass simp del: lit.simps)
  qed (simp del: lit.simps)
  then show ?thesis
    by (simp add: normalizeEol_def re_replace_all_cls re_replace_all_def [of False "lit _"]
        by_text_def [of "[10]" "[_]"] js_simps del: lit.simps cong: if_cong)
qed

lemma unify_eol_no_cr: "13 \<notin> set (unify_eol s)"
  by (induction s rule: unify_eol.induct) (auto split: list.splits)

lemma unify_eol_plain: "13 \<notin> set s \<Longrightarrow> unify_eol (s @ t) = s @ unify_eol t"
  by (induction s) auto

text \<open>The three line ends that text files use, and lines that hold none of their units.\<close>

definition eol_seps :: "jstr set" where
  "eol_seps = {[10], [13], [13, 10]}"

definition one_line :: "jstr \<Rightarrow> bool" where
  "one_line s \<longleftrightarrow> 10 \<notin> set s \<and> 13 \<notin> set s"

lemma join_no_lf: "\<forall>l\<in>set ls. one_line l \<Longrightarrow> 10 \<notin> set (js_join [13] ls)"
  by (induction "[13::nat]" ls rule: js_join.induct) (auto simp: one_line_def)

lemma unify_eol_sep:
  assumes "sep \<in> eol_seps" "sep = [13] \<Longrightarrow> 10 \<notin> set t"
  shows "unify_eol (sep @ t) = 10 # unify_eol t"
  using assms by (cases t) (auto simp: eol_seps_def)

lemma normalizeEol_join:
  assumes "\<forall>l\<in>set ls. one_line l" "sep \<in> eol_seps"
  shows "normalizeEol (js_join sep ls) = js_join [10] ls"
proof -
  have "unify_eol (js_join sep ls) = js_join [10] ls"
    using assms
  proof (induction sep ls rule: js_join.induct)
    case (2 sep x)
    then show ?case using unify_eol_plain [of x "[]"] by (simp add: one_line_def)
  next
    case (3 sep x y xs)
    have "unify_eol (sep @ js_join sep (y # xs)) = 10 # unify_eol (js_join sep (y # xs))"
      by (rule unify_eol_sep) (use 3 join_no_lf [of "y # xs"] in auto)
    with 3 show ?case by (simp add: unify_eol_plain one_line_def)
  qed simp
  then show ?thesis by (simp add: normalizeEol_unify)
qed

lemma unify_eol_id: "13 \<notin> set s \<Longrightarrow> unify_eol s = s"
  by (induction s rule: unify_eol.induct) auto

subsection \<open>Table lines\<close>

text \<open>The two anchored replacements drop one bar at either end.\<close>

definition drop_first_bar :: "jstr \<Rightarrow> jstr" where
  "drop_first_bar s = (case s of [] \<Rightarrow> [] | c # r \<Rightarrow> if c = 124 then r else s)"

definition drop_last_bar :: "jstr \<Rightarrow> jstr" where
  "drop_last_bar s = (if s \<noteq> [] \<and> last s = 124 then butlast s else s)"

lemma replace_first_bar: "re_replace False (Seq Bol (ch 124)) (by_text []) s = drop_first_bar s"
  by (cases s) (auto simp: re_replace_def drop_first_bar_def by_text_def re_search_Bol)

lemma search_last_unit:
  "re_search False (Seq (ch d) Eol) b s =
     (if s \<noteq> [] \<and> last s = d then Some (rev (butlast s) @ b, [d], (d # rev (butlast s) @ b, [], [])) else None)"
proof (induction s arbitrary: b)
  case (Cons c s)
  then show ?case by (cases s) auto
qed simp

lemma replace_last_bar: "re_replace False (Seq (ch 124) Eol) (by_text []) s = drop_last_bar s"
  by (simp add: re_replace_def search_last_unit drop_last_bar_def by_text_def)

lemma parseTableLine_eq:
  "parseTableLine line = map js_trim (js_split 124 (drop_last_bar (drop_first_bar line)))"
  by (simp add: parseTableLine_def replace_first_bar replace_last_bar del: re_match.simps)

lemma parseTableLine_not_Nil [simp]: "parseTableLine line \<noteq> []"
  by (simp add: parseTableLine_eq)

lemma parseTableLine_trimmed [js_mem]: "cell \<in> set (parseTableLine line) \<Longrightarrow> trimmed cell"
  by (auto simp: parseTableLine_eq)

text \<open>The printed form of a row, as the team files write it, and the round trip.\<close>

definition print_row :: "jstr list \<Rightarrow> jstr" where
  "print_row cells = js ''| '' @ js_join (js '' | '') cells @ js '' |''"

definition plain_cell :: "jstr \<Rightarrow> bool" where
  "plain_cell c \<longleftrightarrow> trimmed c \<and> 124 \<notin> set c"

lemma join_padded:
  "cells \<noteq> [] \<Longrightarrow> js '' '' @ js_join (js '' | '') cells @ js '' '' = js_join [124] (map (\<lambda>c. 32 # c @ [32]) cells)"
proof (induction "js '' | ''" cells rule: js_join.induct)
  case (3 x y xs)
  then show ?case by (simp add: js_simps)
qed (simp_all add: js_simps)

lemma js_trim_spaced: "trimmed c \<Longrightarrow> js_trim (32 # c @ [32]) = c"
  using js_trim_pad [of "[32]" "[32]" c] by (simp add: is_space_def)

lemma parseTableLine_print_row:
  assumes "cells \<noteq> []" "\<forall>c\<in>set cells. plain_cell c"
  shows "parseTableLine (print_row cells) = cells"
proof -
  let ?pad = "\<lambda>c. 32 # c @ [32::nat]"
  let ?body = "js_join [124] (map ?pad cells)"
  have row: "print_row cells = 124 # ?body @ [124]"
    using join_padded [OF assms(1)] by (simp add: print_row_def js_simps)
  have "js_split 124 ?body = map ?pad cells"
    by (rule js_split_join) (use assms in \<open>auto simp: plain_cell_def\<close>)
  moreover have "map js_trim (map ?pad cells) = cells"
    using assms(2) by (simp add: js_trim_spaced plain_cell_def map_idI)
  ultimately show ?thesis
    by (simp add: parseTableLine_eq row drop_first_bar_def drop_last_bar_def)
qed

subsection \<open>Cells\<close>

lemma cleanCell_trimmed [simp]: "trimmed (cleanCell s)"
  by (simp add: cleanCell_def)

lemma strip_backticks: "re_replace_all False (ch 96) (by_text []) s = filter (\<lambda>c. c \<noteq> 96) s"
proof -
  have "concat (map (\<lambda>c. if c = 96 then [] else [c]) s) = filter (\<lambda>c. c \<noteq> 96) s"
    by (induction s) auto
  then show ?thesis
    by (simp add: re_replace_all_cls by_text_def cong: if_cong)
qed

lemma cleanCell_units [js_mem]: "c \<in> set (cleanCell s) \<Longrightarrow> c \<in> set s \<and> c \<noteq> 96"
proof -
  assume "c \<in> set (cleanCell s)"
  then have "c \<in> set (re_replace_all False link_re (by_group 1) (filter (\<lambda>c. c \<noteq> 96) s))"
    by (auto simp: cleanCell_def strip_backticks dest: set_js_trim)
  with re_replace_from_draws [of "by_group 1" "filter (\<lambda>c. c \<noteq> 96) s" "set (filter (\<lambda>c. c \<noteq> 96) s)"]
  show ?thesis by (auto simp: re_replace_all_def)
qed

text \<open>A cell without an opening bracket only loses its backticks and its outer white space.\<close>

lemma cleanCell_no_link: "91 \<notin> set s \<Longrightarrow> cleanCell s = js_trim (filter (\<lambda>c. c \<noteq> 96) s)"
proof -
  assume "91 \<notin> set s"
  then have "re_replace_from False link_re (by_group 1) [] (filter (\<lambda>c. c \<noteq> 96) s) = filter (\<lambda>c. c \<noteq> 96) s"
    unfolding link_re_def seqs.simps by (intro re_replace_from_absent) auto
  then show ?thesis
    by (simp add: cleanCell_def strip_backticks re_replace_all_def [of False link_re])
qed

lemma cleanCell_plain: "trimmed s \<Longrightarrow> 91 \<notin> set s \<Longrightarrow> 96 \<notin> set s \<Longrightarrow> cleanCell s = s"
proof -
  assume "trimmed s" "91 \<notin> set s" "96 \<notin> set s"
  moreover from this have "filter (\<lambda>c. c \<noteq> 96) s = s" by (auto simp: filter_id_conv)
  ultimately show ?thesis by (simp add: cleanCell_no_link js_trim_id)
qed

lemma cleanCell_Nil [simp]: "cleanCell [] = []"
  by (simp add: cleanCell_no_link)

lemma splitKeywords_not_Nil [js_mem]: "[] \<notin> set (splitKeywords x)"
  by (auto simp: splitKeywords_def split: option.splits)

subsection \<open>Names\<close>

text \<open>A normalised name: no white space at the ends, single blanks inside, and only lower-case
  word units, \<open>@\<close> and \<open>-\<close> besides. Normalising again changes nothing.\<close>

fun single_blanks :: "jstr \<Rightarrow> bool" where
  "single_blanks [] = True"
| "single_blanks [c] = (is_space c \<longrightarrow> c = 32)"
| "single_blanks (c # d # s) = ((is_space c \<longrightarrow> c = 32 \<and> \<not> is_space d) \<and> single_blanks (d # s))"

definition name_unit :: "cunit \<Rightarrow> bool" where
  "name_unit c \<longleftrightarrow> is_word c \<or> c = 64 \<or> is_space c \<or> c = 45"

definition normal_name :: "jstr \<Rightarrow> bool" where
  "normal_name s \<longleftrightarrow> trimmed s \<and> single_blanks s \<and> (\<forall>c\<in>set s. name_unit c \<and> lower_cu c = c)"

lemma normalizeName_eq:
  "normalizeName s = js_trim (map_runs is_space (\<lambda>_. [32]) (filter name_unit (js_lower (cleanCell s))))"
proof -
  have "in_cls False True [Word, Range 64 64, Space, Range 45 45] = (\<lambda>c. \<not> name_unit c)"
    by (auto simp: in_cls_def name_unit_def fun_eq_iff)
  moreover have "concat (map (\<lambda>c. if \<not> name_unit c then [] else [c]) t) = filter name_unit t" for t
    by (induction t) auto
  moreover have "in_cls False False [Space] = is_space"
    by (auto simp: in_cls_def fun_eq_iff)
  ultimately show ?thesis
    by (simp only: normalizeName_def re_replace_all_cls re_replace_all_plus by_text_def)
      (simp add: js_simps)
qed

lemma map_runs_single_blanks:
  "single_blanks (map_runs is_space (\<lambda>_. [32]) s) \<and>
   (s \<noteq> [] \<longrightarrow> \<not> is_space (hd s) \<longrightarrow> map_runs is_space (\<lambda>_. [32]) s \<noteq> [] \<and> hd (map_runs is_space (\<lambda>_. [32]) s) = hd s)"
proof (induction is_space "\<lambda>_::jstr. [32::nat]" s rule: map_runs.induct)
  case (2 c s)
  show ?case
  proof (cases "is_space c")
    case True
    define r where "r = dropWhile is_space s"
    have run: "map_runs is_space (\<lambda>_. [32]) (c # s) = 32 # map_runs is_space (\<lambda>_. [32]) r"
      using True by (simp add: r_def)
    have "r \<noteq> [] \<Longrightarrow> \<not> is_space (hd r)" unfolding r_def by (rule hd_dropWhile)
    with 2(1) [OF True] True show ?thesis
      unfolding run by (cases r; cases "map_runs is_space (\<lambda>_. [32]) r") (auto simp flip: r_def)
  next
    case False
    with 2(2) [OF False] show ?thesis
      by (cases "map_runs is_space (\<lambda>_. [32]) s") auto
  qed
qed simp

lemma single_blanks_sub: "single_blanks (u @ s @ v) \<Longrightarrow> single_blanks s"
proof (induction u)
  case Nil
  then show ?case
  proof (induction s rule: single_blanks.induct)
    case (2 c)
    then show ?case by (cases v) auto
  qed auto
next
  case (Cons c u)
  then show ?case by (cases "u @ s @ v") auto
qed

lemma js_trim_sub: "\<exists>u v. s = u @ js_trim s @ v"
proof -
  let ?d = "dropWhile is_space s"
  have "s = takeWhile is_space s @ ?d" by simp
  moreover have "rev ?d = takeWhile is_space (rev ?d) @ dropWhile is_space (rev ?d)" by simp
  then have "?d = rev (dropWhile is_space (rev ?d)) @ rev (takeWhile is_space (rev ?d))"
    by (metis rev_append rev_rev_ident)
  ultimately show ?thesis unfolding js_trim_def by (metis append.assoc)
qed

lemma single_blanks_trim: "single_blanks s \<Longrightarrow> single_blanks (js_trim s)"
  using js_trim_sub [of s] single_blanks_sub by metis

lemma map_runs_id: "single_blanks s \<Longrightarrow> map_runs is_space (\<lambda>_. [32]) s = s"
proof (induction s rule: single_blanks.induct)
  case (3 c d s)
  then show ?case by (cases "is_space c") auto
qed auto

lemma set_map_runs: "c \<in> set (map_runs P (\<lambda>_. [d]) s) \<Longrightarrow> c = d \<or> c \<in> set s"
  by (induction P "\<lambda>_::jstr. [d]" s rule: map_runs.induct)
    (auto split: if_splits dest: set_dropWhileD)

lemma normal_normalizeName: "normal_name (normalizeName s)"
proof -
  let ?t = "filter name_unit (js_lower (cleanCell s))"
  have "lower_cu c = c \<and> name_unit c" if "c \<in> set ?t" for c
    using that by (auto simp: js_lower_def)
  moreover have "name_unit 32 \<and> lower_cu 32 = 32"
    by (simp add: name_unit_def is_space_def lower_cu_def)
  moreover have "c = 32 \<or> c \<in> set ?t" if "c \<in> set (normalizeName s)" for c
    using set_map_runs [OF set_js_trim [OF that [unfolded normalizeName_eq]]] .
  ultimately have "name_unit c \<and> lower_cu c = c" if "c \<in> set (normalizeName s)" for c
    using that by metis
  moreover have "single_blanks (normalizeName s)"
    unfolding normalizeName_eq
    by (rule single_blanks_trim, rule conjunct1, rule map_runs_single_blanks)
  moreover have "trimmed (normalizeName s)"
    by (simp only: normalizeName_eq trimmed_js_trim)
  ultimately show ?thesis
    unfolding normal_name_def by blast
qed

lemma normalizeName_id: "normal_name s \<Longrightarrow> normalizeName s = s"
proof -
  assume n: "normal_name s"
  have "\<not> name_unit 91" "\<not> name_unit 96"
    by (simp_all add: name_unit_def is_word_def is_digit_def is_space_def)
  with n have "cleanCell s = s"
    by (intro cleanCell_plain) (auto simp: normal_name_def)
  moreover have "js_lower s = s"
    using n by (simp add: normal_name_def js_lower_def map_idI)
  moreover have "filter name_unit s = s"
    using n by (simp add: normal_name_def filter_id_conv)
  ultimately show ?thesis
    using n by (simp add: normalizeName_eq map_runs_id js_trim_id normal_name_def)
qed

text \<open>A text without a word unit, \<open>@\<close>, \<open>-\<close> or white space normalises to nothing.\<close>

lemma normalizeName_foreign:
  "91 \<notin> set s \<Longrightarrow> (\<And>c. c \<in> set s \<Longrightarrow> \<not> name_unit (lower_cu c)) \<Longrightarrow> normalizeName s = []"
proof -
  assume a: "91 \<notin> set s" "\<And>c. c \<in> set s \<Longrightarrow> \<not> name_unit (lower_cu c)"
  have "filter name_unit (js_lower (cleanCell s)) = []"
    using a(2) by (auto simp: filter_empty_conv js_lower_def dest!: cleanCell_units)
  then show ?thesis by (simp add: normalizeName_eq)
qed

lemma normalizeName_Nil [simp]: "normalizeName [] = []"
  by (rule normalizeName_foreign) simp_all

end
