(* ===== verification/TriageTable.thy ===== *)
theory TriageTable
  imports TriageText
begin

text \<open>
  The Markdown tables of \<open>.squad/team.md\<close> and \<open>.squad/routing.md\<close> as
  \<open>.squad/templates/ralph-triage.js\<close> reads them: the section scanner, the column lookup, and
  the three readers built on them (routing rules, module owners, roster).
\<close>

subsection \<open>Data\<close>

record table =
  headers :: "jstr list"
  rows :: "jstr list list"

record routing_rule =
  workType :: jstr
  agentName :: jstr
  ruleKeywords :: "jstr list"

record module_owner =
  modulePath :: jstr
  primary :: jstr
  secondary :: "jstr option"

record member =
  mname :: jstr
  mrole :: jstr
  mlabel :: jstr

subsection \<open>The section scanner\<close>

abbreviation ws :: re where "ws \<equiv> Cls False [Space]"

definition heading2_re :: re where
  "heading2_re = seqs [Bol, lit (js ''##''), plus1 ws]"

definition separator_re :: re where
  "separator_re = seqs [Bol, opt (chc CHR '':''), Rep True 2 None (chc CHR ''-''), opt (chc CHR '':''), Eol]"

text \<open>
  The first loop of \<open>parseTableSection\<close>; \<open>inSection\<close> is its flag, and leaving the loop by
  \<open>break\<close> is the empty rest. Every caller gives the header pattern the flag \<open>i\<close>.
\<close>

fun section_lines :: "re \<Rightarrow> bool \<Rightarrow> jstr list \<Rightarrow> jstr list" where
  "section_lines sectionHeader inSection [] = []"
| "section_lines sectionHeader inSection (line # lines) =
     (let trimmed = js_trim line in
      if \<not> inSection \<and> re_test True sectionHeader trimmed then section_lines sectionHeader True lines
      else if inSection \<and> re_test False heading2_re trimmed then []
      else if inSection \<and> js_starts_with trimmed (js ''|'')
           then trimmed # section_lines sectionHeader inSection lines
      else section_lines sectionHeader inSection lines)"

text \<open>The second loop: the header row is the first line that is no separator.\<close>

fun read_table :: "jstr list option \<Rightarrow> jstr list list \<Rightarrow> jstr list \<Rightarrow> jstr list option \<times> jstr list list" where
  "read_table hs rs [] = (hs, rs)"
| "read_table hs rs (line # lines) =
     (let cells = parseTableLine line in
      if length cells = 0 then read_table hs rs lines
      else if list_all (re_test False separator_re) cells then read_table hs rs lines
      else (case hs of
              None \<Rightarrow> read_table (Some cells) rs lines
            | Some _ \<Rightarrow> read_table hs (rs @ [cells]) lines))"

definition parseTableSection :: "jstr \<Rightarrow> re \<Rightarrow> table option" where
  "parseTableSection markdown sectionHeader =
     (let tableLines = section_lines sectionHeader False (js_split 10 (normalizeEol markdown)) in
      if length tableLines = 0 then None
      else (case read_table None [] tableLines of
              (None, _) \<Rightarrow> None
            | (Some hs, rs) \<Rightarrow> Some \<lparr>headers = hs, rows = rs\<rparr>))"

text \<open>The loop over the candidates returns the first hit, \<open>-1\<close> without one.\<close>

fun first_column :: "jstr list \<Rightarrow> jstr list \<Rightarrow> int" where
  "first_column normalizedHeaders [] = - 1"
| "first_column normalizedHeaders (candidate # candidates) =
     (let index = js_find_index (\<lambda>header. js_includes header candidate) normalizedHeaders in
      if 0 \<le> index then index else first_column normalizedHeaders candidates)"

definition findColumnIndex :: "jstr list \<Rightarrow> jstr list \<Rightarrow> int" where
  "findColumnIndex hs candidates = first_column (map (\<lambda>header. js_lower (cleanCell header)) hs) candidates"

text \<open>\<open>row[index] || ''\<close>\<close>

definition cell_or_empty :: "jstr list \<Rightarrow> int \<Rightarrow> jstr" where
  "cell_or_empty row index = (case js_at row index of None \<Rightarrow> [] | Some cell \<Rightarrow> cell)"

subsection \<open>The three readers\<close>

definition routing_header_re :: re where
  "routing_header_re = seqs [Bol, lit (js ''##''), star ws, lit (js ''work''), star ws, lit (js ''type''),
     star ws, Alt (ch 0x2192) (lit (js ''->'')), star ws, lit (js ''agent''), WordB]"

definition module_header_re :: re where
  "module_header_re = seqs [Bol, lit (js ''##''), star ws, lit (js ''module''), star ws, lit (js ''ownership''), WordB]"

definition members_header_re :: re where
  "members_header_re = seqs [Bol, lit (js ''##''), star ws, lit (js ''members''), WordB]"

definition roster_header_re :: re where
  "roster_header_re = seqs [Bol, lit (js ''##''), star ws, lit (js ''team''), star ws, lit (js ''roster''), WordB]"

definition parseRoutingRules :: "jstr \<Rightarrow> routing_rule list" where
  "parseRoutingRules routingMd =
     (case parseTableSection routingMd routing_header_re of
        None \<Rightarrow> []
      | Some t \<Rightarrow>
          (let workTypeIndex = findColumnIndex (headers t) [js ''work type'', js ''type''];
               agentIndex = findColumnIndex (headers t) [js ''agent'', js ''route to'', js ''route''];
               examplesIndex = findColumnIndex (headers t) [js ''examples'', js ''example'']
           in if workTypeIndex < 0 \<or> agentIndex < 0 then []
              else List.map_filter (\<lambda>row.
                (let workType = cleanCell (cell_or_empty row workTypeIndex);
                     agentName = cleanCell (cell_or_empty row agentIndex);
                     keywords = splitKeywords (if 0 \<le> examplesIndex then js_at row examplesIndex else Some [])
                 in if workType = [] \<or> agentName = [] then None
                    else Some \<lparr>workType = workType, agentName = agentName, ruleKeywords = keywords\<rparr>))
                (rows t)))"

definition parseModuleOwnership :: "jstr \<Rightarrow> module_owner list" where
  "parseModuleOwnership routingMd =
     (case parseTableSection routingMd module_header_re of
        None \<Rightarrow> []
      | Some t \<Rightarrow>
          (let moduleIndex = findColumnIndex (headers t) [js ''module'', js ''path''];
               primaryIndex = findColumnIndex (headers t) [js ''primary''];
               secondaryIndex = findColumnIndex (headers t) [js ''secondary'']
           in if moduleIndex < 0 \<or> primaryIndex < 0 then []
              else List.map_filter (\<lambda>row.
                (let modulePath = normalizeModulePath (cell_or_empty row moduleIndex);
                     primary = cleanCell (cell_or_empty row primaryIndex);
                     secondaryRaw = cleanCell (if 0 \<le> secondaryIndex then cell_or_empty row secondaryIndex else []);
                     secondary = normalizeOptionalOwner secondaryRaw
                 in if modulePath = [] \<or> primary = [] then None
                    else Some \<lparr>modulePath = modulePath, primary = primary, secondary = secondary\<rparr>))
                (rows t)))"

definition excluded_names :: "jstr list" where
  "excluded_names = [js ''scribe'', js ''ralph'']"

definition member_of :: "jstr \<Rightarrow> jstr \<Rightarrow> member" where
  "member_of name role = \<lparr>mname = name, mrole = role, mlabel = js ''squad:'' @ js_lower name\<rparr>"

definition parseRoster :: "jstr \<Rightarrow> member list" where
  "parseRoster teamMd =
     (case (case parseTableSection teamMd members_header_re of
              Some t \<Rightarrow> Some t
            | None \<Rightarrow> parseTableSection teamMd roster_header_re) of
        None \<Rightarrow> []
      | Some t \<Rightarrow>
          (let nameIndex = findColumnIndex (headers t) [js ''name''];
               roleIndex = findColumnIndex (headers t) [js ''role'']
           in if nameIndex < 0 \<or> roleIndex < 0 then []
              else List.map_filter (\<lambda>row.
                (let name = cleanCell (cell_or_empty row nameIndex);
                     role = cleanCell (cell_or_empty row roleIndex)
                 in if name = [] \<or> role = [] then None
                    else if js_lower name \<in> set excluded_names then None
                    else Some (member_of name role)))
                (rows t)))"

subsection \<open>Facts about the scanner\<close>

lemma parseTableSection_eol:
  assumes "\<forall>l\<in>set ls. one_line l" "sep \<in> eol_seps" "ls \<noteq> []"
  shows "parseTableSection (js_join sep ls) h =
    (let tableLines = section_lines h False ls in
      if tableLines = [] then None
      else (case read_table None [] tableLines of
              (None, _) \<Rightarrow> None
            | (Some hs, rs) \<Rightarrow> Some \<lparr>headers = hs, rows = rs\<rparr>))"
proof -
  have "js_split 10 (js_join [10] ls) = ls"
    by (rule js_split_join) (use assms in \<open>auto simp: one_line_def\<close>)
  with assms show ?thesis
    by (simp add: parseTableSection_def normalizeEol_join)
qed

text \<open>Lines before the heading are passed over; the section ends at the next level-2 heading.\<close>

lemma section_lines_before:
  "\<forall>l\<in>set pre. \<not> re_test True h (js_trim l) \<Longrightarrow>
     section_lines h False (pre @ ls) = section_lines h False ls"
  by (induction pre) (auto simp: Let_def)

lemma section_lines_none:
  "\<forall>l\<in>set ls. \<not> re_test True h (js_trim l) \<Longrightarrow> section_lines h False ls = []"
  using section_lines_before [of ls h "[]"] by simp

lemma section_lines_stop:
  "post = [] \<or> re_test False heading2_re (js_trim (hd post)) \<Longrightarrow> section_lines h True post = []"
  by (cases post) (auto simp: Let_def)

lemma heading2_not_bar: "\<not> re_test False heading2_re (124 # s)"
  by (simp add: heading2_re_def re_test_Bol js_simps)

lemma heading2_not_Nil [simp]: "\<not> re_test False heading2_re []"
  by (simp add: heading2_re_def re_test_Bol js_simps)

lemma section_lines_blank:
  "\<forall>l\<in>set gap. js_trim l = [] \<Longrightarrow> section_lines h True (gap @ ls) = section_lines h True ls"
  by (induction gap) (auto simp: Let_def js_simps)

lemma section_lines_bars:
  "\<forall>l\<in>set ls. trimmed l \<and> js_starts_with l [124] \<Longrightarrow>
     section_lines h True (ls @ post) = ls @ section_lines h True post"
proof (induction ls)
  case (Cons l ls)
  then obtain r where "l = 124 # r" by (cases l) auto
  with Cons show ?case
    by (simp add: js_trim_id heading2_not_bar js_simps)
qed simp

lemma print_row_shape:
  "trimmed (print_row cells)" "js_starts_with (print_row cells) [124]"
  by (simp_all add: print_row_def js_simps trimmed_def is_space_def)

subsection \<open>Facts about the row reader\<close>

definition is_separator :: "jstr \<Rightarrow> bool" where
  "is_separator = re_test False separator_re"

definition good_row :: "jstr list \<Rightarrow> bool" where
  "good_row cells \<longleftrightarrow> cells \<noteq> [] \<and> (\<forall>c\<in>set cells. plain_cell c) \<and> (\<exists>c\<in>set cells. \<not> is_separator c)"

lemma good_row_read:
  "good_row cells \<Longrightarrow> parseTableLine (print_row cells) = cells \<and> cells \<noteq> [] \<and> \<not> list_all (re_test False separator_re) cells"
  by (auto simp: good_row_def parseTableLine_print_row list_all_iff is_separator_def)

lemma read_table_rows:
  "\<forall>r\<in>set rs. good_row r \<Longrightarrow> read_table (Some hs) acc (map print_row rs) = (Some hs, acc @ rs)"
proof (induction rs arbitrary: acc)
  case (Cons r rs)
  then show ?case using good_row_read [of r] by (simp add: Let_def)
qed simp

definition dash_row :: "nat \<Rightarrow> jstr list" where
  "dash_row n = replicate n (js ''---'')"

lemma separator_dashes: "is_separator (js ''---'')"
  by (simp add: is_separator_def separator_re_def js_simps re_test_Bol re_match_Rep [where p = "Cls _ _"] numeral_2_eq_2)

lemma dash_row_read:
  "0 < n \<Longrightarrow> list_all (re_test False separator_re) (parseTableLine (print_row (dash_row n)))"
proof -
  assume n: "0 < n"
  have "plain_cell (js ''---'')"
    by (simp add: plain_cell_def trimmed_def js_simps is_space_def)
  with n have "parseTableLine (print_row (dash_row n)) = dash_row n"
    by (intro parseTableLine_print_row) (auto simp: dash_row_def)
  with n separator_dashes show ?thesis
    by (simp add: dash_row_def is_separator_def list_all_iff)
qed

text \<open>A section printed as the team files print it, read back.\<close>

definition print_table :: "jstr list \<Rightarrow> jstr list list \<Rightarrow> jstr list" where
  "print_table hs rs = print_row hs # print_row (dash_row (length hs)) # map print_row rs"

lemma parse_print_table:
  assumes lines: "\<forall>l\<in>set (pre @ title # gap @ print_table hs rs @ post). one_line l"
    and sep: "sep \<in> eol_seps"
    and pre: "\<forall>l\<in>set pre. \<not> re_test True h (js_trim l)"
    and title: "re_test True h (js_trim title)"
    and gap: "\<forall>l\<in>set gap. js_trim l = []"
    and post: "post = [] \<or> re_test False heading2_re (js_trim (hd post))"
    and good: "good_row hs" "\<forall>r\<in>set rs. good_row r"
  shows "parseTableSection (js_join sep (pre @ title # gap @ print_table hs rs @ post)) h =
    Some \<lparr>headers = hs, rows = rs\<rparr>"
proof -
  have bars: "\<forall>l\<in>set (print_table hs rs). trimmed l \<and> js_starts_with l [124]"
    by (auto simp: print_table_def print_row_shape)
  have "section_lines h False (pre @ title # gap @ print_table hs rs @ post) = print_table hs rs"
    using pre title gap section_lines_stop [OF post]
    by (simp add: section_lines_before section_lines_blank section_lines_bars [OF bars])
  moreover have "read_table None [] (print_table hs rs) = (Some hs, rs)"
  proof -
    have "0 < length hs" using good(1) by (simp add: good_row_def)
    with good good_row_read [OF good(1)] show ?thesis
      by (simp add: print_table_def Let_def dash_row_read read_table_rows)
  qed
  ultimately show ?thesis
    using lines sep by (simp add: parseTableSection_eol print_table_def)
qed

subsection \<open>Facts about the columns\<close>

lemma first_column_range: "- 1 \<le> first_column hs cs \<and> first_column hs cs < int (length hs)"
proof (induction cs)
  case (Cons c cs)
  let ?p = "\<lambda>h. js_includes h c"
  have "0 \<le> js_find_index ?p hs \<Longrightarrow> js_find_index ?p hs < int (length hs)"
    using js_find_index_found [of ?p hs] by linarith
  with Cons.IH show ?case by (auto simp: Let_def)
qed simp

lemma first_column_includes:
  "0 \<le> first_column hs cs \<Longrightarrow> \<exists>c\<in>set cs. js_includes (hs ! nat (first_column hs cs)) c"
proof (induction cs)
  case (Cons c cs)
  then show ?case
    using js_find_index_found [of "\<lambda>h. js_includes h c" hs] by (auto simp: Let_def split: if_splits)
qed simp

lemma first_column_none:
  "first_column hs cs < 0 \<longleftrightarrow> (\<forall>c\<in>set cs. \<forall>h\<in>set hs. \<not> js_includes h c)"
  by (induction cs) (auto simp: Let_def js_find_index_some js_find_index_none)

lemma cell_or_empty_cases: "cell_or_empty row i = [] \<or> cell_or_empty row i \<in> set row"
  by (auto simp: cell_or_empty_def js_at_def)

subsection \<open>What the readers promise of their results\<close>

lemma map_filter_set: "y \<in> set (List.map_filter f xs) \<longleftrightarrow> (\<exists>x\<in>set xs. f x = Some y)"
  by (induction xs) (auto simp: List.map_filter_def split: option.splits)

definition wf_member :: "member \<Rightarrow> bool" where
  "wf_member m \<longleftrightarrow> mname m \<noteq> [] \<and> mrole m \<noteq> [] \<and> trimmed (mname m) \<and> trimmed (mrole m)
     \<and> js_lower (mname m) \<noteq> js ''scribe'' \<and> js_lower (mname m) \<noteq> js ''ralph''
     \<and> mlabel m = js ''squad:'' @ js_lower (mname m)"

lemma parseRoster_wf: "m \<in> set (parseRoster md) \<Longrightarrow> wf_member m"
  by (auto simp: parseRoster_def Let_def map_filter_set member_of_def excluded_names_def wf_member_def
      split: option.splits if_splits)

lemma parseRoutingRules_wf:
  "r \<in> set (parseRoutingRules md) \<Longrightarrow> workType r \<noteq> [] \<and> agentName r \<noteq> [] \<and> [] \<notin> set (ruleKeywords r)"
  by (auto simp: parseRoutingRules_def Let_def map_filter_set splitKeywords_not_Nil
      split: option.splits if_splits)

lemma normalizeModulePath_lower [simp]: "js_lower (normalizeModulePath s) = normalizeModulePath s"
  by (simp add: normalizeModulePath_def)

lemma normalizeOptionalOwner_Some:
  "normalizeOptionalOwner s = Some t \<Longrightarrow> t \<noteq> [] \<and> \<not> re_test False dashes_re t"
  by (auto simp: normalizeOptionalOwner_def simp del: re_match.simps split: if_splits)

lemma parseModuleOwnership_row:
  assumes "r \<in> set (parseModuleOwnership md)"
  shows "\<exists>p q s. modulePath r = normalizeModulePath p \<and> primary r = cleanCell q
    \<and> secondary r = normalizeOptionalOwner s \<and> modulePath r \<noteq> [] \<and> primary r \<noteq> []"
  using assms by (fastforce simp: parseModuleOwnership_def Let_def map_filter_set
      split: option.splits if_splits)

lemma parseModuleOwnership_wf:
  assumes "r \<in> set (parseModuleOwnership md)"
  shows "modulePath r \<noteq> [] \<and> primary r \<noteq> [] \<and> js_lower (modulePath r) = modulePath r
     \<and> (\<forall>o2. secondary r = Some o2 \<longrightarrow> o2 \<noteq> [] \<and> \<not> re_test False dashes_re o2)"
proof -
  obtain p q s where "modulePath r = normalizeModulePath p" "secondary r = normalizeOptionalOwner s"
    "modulePath r \<noteq> []" "primary r \<noteq> []"
    using parseModuleOwnership_row [OF assms] by blast
  then show ?thesis using normalizeOptionalOwner_Some [of s] by simp
qed

subsection \<open>A printed roster\<close>

definition roster_columns :: "jstr list" where
  "roster_columns = [js ''Name'', js ''Role'']"

definition printable_member :: "member \<Rightarrow> bool" where
  "printable_member m \<longleftrightarrow> wf_member m \<and> good_row [mname m, mrole m]
     \<and> one_line (mname m) \<and> one_line (mrole m)
     \<and> 91 \<notin> set (mname m) \<union> set (mrole m) \<and> 96 \<notin> set (mname m) \<union> set (mrole m)"

text \<open>\<open>team.md\<close> as the team writes it: any text, the heading, a blank line, the table, the rest.\<close>

definition print_team :: "jstr \<Rightarrow> jstr list \<Rightarrow> member list \<Rightarrow> jstr list \<Rightarrow> jstr" where
  "print_team sep pre ms post =
     js_join sep (pre @ js ''## Members'' # [[]] @
       print_table roster_columns (map (\<lambda>m. [mname m, mrole m]) ms) @ post)"

lemma set_js_join: "set (js_join sep xs) \<subseteq> set sep \<union> (\<Union>x\<in>set xs. set x)"
  by (induction sep xs rule: js_join.induct) auto

lemma one_line_print_row: "\<forall>c\<in>set cells. one_line c \<Longrightarrow> one_line (print_row cells)"
  using set_js_join [of "js '' | ''" cells] by (auto simp: print_row_def one_line_def js_simps)

lemma one_line_print_table:
  assumes "\<forall>r\<in>insert hs (set rs). \<forall>c\<in>set r. one_line c"
  shows "\<forall>l\<in>set (print_table hs rs). one_line l"
proof -
  have "one_line (js ''---'')" by (simp add: one_line_def js_simps)
  then have "one_line (print_row (dash_row n))" for n
    by (intro one_line_print_row) (simp add: dash_row_def)
  with assms show ?thesis
    by (auto simp: print_table_def intro!: one_line_print_row)
qed

lemma roster_columns_good: "good_row roster_columns" "\<forall>c\<in>set roster_columns. one_line c"
  "findColumnIndex roster_columns [js ''name''] = 0" "findColumnIndex roster_columns [js ''role''] = 1"
  by code_simp+

lemma members_heading: "re_test True members_header_re (js_trim (js ''## Members''))"
  "one_line (js ''## Members'')"
  by code_simp+

lemma member_row_read:
  assumes "printable_member m"
  shows "cleanCell (cell_or_empty [mname m, mrole m] 0) = mname m"
    "cleanCell (cell_or_empty [mname m, mrole m] 1) = mrole m"
    "member_of (mname m) (mrole m) = m"
  using assms by (simp_all add: printable_member_def wf_member_def cell_or_empty_def js_at_def cleanCell_plain member_of_def)

lemma map_filter_inverse: "\<forall>x\<in>set xs. f (g x) = Some x \<Longrightarrow> List.map_filter f (map g xs) = xs"
  by (induction xs) (simp_all add: List.map_filter_def)

text \<open>
  C7: Round trip of the team table. A \<open>team.md\<close> that holds any lines before the \<open>## Members\<close>
  heading (none of them such a heading), the members printed as a Markdown table, and any lines from
  the next level-2 heading on, is read back by \<open>parseRoster\<close> as exactly those members in order,
  whichever of the three line ends (LF, CR, CRLF) the file is saved with.
\<close>

theorem parseRoster_print_team:
  assumes "sep \<in> eol_seps"
    and "\<forall>l\<in>set pre. one_line l \<and> \<not> re_test True members_header_re (js_trim l)"
    and "\<forall>l\<in>set post. one_line l"
    and "post = [] \<or> re_test False heading2_re (js_trim (hd post))"
    and "\<forall>m\<in>set ms. printable_member m"
  shows "parseRoster (print_team sep pre ms post) = ms"
proof -
  let ?rows = "map (\<lambda>m. [mname m, mrole m]) ms"
  have "\<forall>l\<in>set (print_table roster_columns ?rows). one_line l"
    using assms(5) roster_columns_good(2)
    by (intro one_line_print_table) (auto simp: printable_member_def)
  then have "parseTableSection (print_team sep pre ms post) members_header_re =
      Some \<lparr>headers = roster_columns, rows = ?rows\<rparr>"
    unfolding print_team_def using assms members_heading roster_columns_good(1)
    by (intro parse_print_table) (auto simp: printable_member_def one_line_def)
  moreover have "List.map_filter (\<lambda>row.
       (let name = cleanCell (cell_or_empty row 0); role = cleanCell (cell_or_empty row 1)
        in if name = [] \<or> role = [] then None
           else if js_lower name \<in> set excluded_names then None
           else Some (member_of name role))) ?rows = ms"
    by (rule map_filter_inverse)
      (use assms(5) in \<open>auto simp: Let_def member_row_read printable_member_def wf_member_def excluded_names_def\<close>)
  ultimately show ?thesis
    by (simp add: parseRoster_def roster_columns_good)
qed

subsection \<open>Concrete instances\<close>

definition theo :: member where
  "theo = \<lparr>mname = js ''Theo'', mrole = js ''Dev'', mlabel = js ''squad:theo''\<rparr>"

theorem parseRoster_print_team_witness:
  "parseRoster (print_team [13, 10] [js ''# Team''] [theo] [js ''## Notes'', js ''x'']) = [theo]"
proof (rule parseRoster_print_team)
  show "[13, 10] \<in> eol_seps" by code_simp
  show "\<forall>l\<in>set [js ''# Team'']. one_line l \<and> \<not> re_test True members_header_re (js_trim l)" by code_simp
  show "\<forall>l\<in>set [js ''## Notes'', js ''x'']. one_line l" by code_simp
  show "[js ''## Notes'', js ''x''] = [] \<or> re_test False heading2_re (js_trim (hd [js ''## Notes'', js ''x'']))" by code_simp
  show "\<forall>m\<in>set [theo]. printable_member m" by code_simp
qed

end
