(* ===== verification/TriageMatch.thy ===== *)
theory TriageMatch
  imports TriageTable
begin

text \<open>
  The routing decision of \<open>.squad/templates/ralph-triage.js\<close>: the member lookup, the two
  best-match loops, the role keywords, the lead fallback and \<open>triageIssue\<close>, which tries them in
  order. Two interfaces carry the proofs: \<open>best_scan\<close>, the contract of a loop that keeps the first
  candidate of the highest score, and \<open>roster_choice\<close>, the contract of a lookup that answers with
  a member of the roster it is given.
\<close>

subsection \<open>Looking a member up\<close>

definition findMember :: "jstr \<Rightarrow> member list \<Rightarrow> member option" where
  "findMember target roster =
     (let normalizedTarget = normalizeName target in
      if normalizedTarget = [] then None
      else
        (case List.find (\<lambda>m. normalizeName (mname m) = normalizedTarget) roster of
           Some m \<Rightarrow> Some m
         | None \<Rightarrow>
        (case List.find (\<lambda>m. normalizeName (mrole m) = normalizedTarget) roster of
           Some m \<Rightarrow> Some m
         | None \<Rightarrow>
        (case List.find (\<lambda>m. let memberName = normalizeName (mname m) in
                js_includes normalizedTarget memberName \<or> js_includes memberName normalizedTarget) roster of
           Some m \<Rightarrow> Some m
         | None \<Rightarrow>
           List.find (\<lambda>m. let memberRole = normalizeName (mrole m) in
                js_includes normalizedTarget memberRole \<or> js_includes memberRole normalizedTarget) roster))))"

subsection \<open>The best module\<close>

text \<open>The loop of \<open>findBestModuleMatch\<close>: \<open>best\<close> and \<open>bestLength\<close> are its variables.\<close>

fun module_loop :: "jstr \<Rightarrow> module_owner option \<Rightarrow> int \<Rightarrow> module_owner list \<Rightarrow> module_owner option" where
  "module_loop issueText best bestLength [] = best"
| "module_loop issueText best bestLength (m # ms) =
     (let path = normalizeModulePath (modulePath m) in
      if path = [] then module_loop issueText best bestLength ms
      else if \<not> js_includes issueText path then module_loop issueText best bestLength ms
      else if int (length path) > bestLength then module_loop issueText (Some m) (int (length path)) ms
      else module_loop issueText best bestLength ms)"

definition findBestModuleMatch :: "jstr \<Rightarrow> module_owner list \<Rightarrow> module_owner option" where
  "findBestModuleMatch issueText modules = module_loop issueText None (- 1) modules"

subsection \<open>The best rule\<close>

record rule_match =
  rm_rule :: routing_rule
  matchedKeywords :: "jstr list"

definition matched_keywords :: "jstr \<Rightarrow> routing_rule \<Rightarrow> jstr list" where
  "matched_keywords issueText r =
     filter (\<lambda>keyword. length keyword > 0 \<and> js_includes issueText keyword) (map js_lower (ruleKeywords r))"

definition keyword_score :: "jstr list \<Rightarrow> nat" where
  "keyword_score kws = length kws * 100 + foldl (\<lambda>sum keyword. sum + length keyword) 0 kws"

fun rule_loop :: "jstr \<Rightarrow> rule_match option \<Rightarrow> int \<Rightarrow> routing_rule list \<Rightarrow> rule_match option" where
  "rule_loop issueText best bestScore [] = best"
| "rule_loop issueText best bestScore (r # rs) =
     (let kws = matched_keywords issueText r in
      if length kws = 0 then rule_loop issueText best bestScore rs
      else
        (let score = int (keyword_score kws) in
         if score > bestScore
         then rule_loop issueText (Some \<lparr>rm_rule = r, matchedKeywords = kws\<rparr>) score rs
         else rule_loop issueText best bestScore rs))"

definition findBestRuleMatch :: "jstr \<Rightarrow> routing_rule list \<Rightarrow> rule_match option" where
  "findBestRuleMatch issueText rules = rule_loop issueText None 0 rules"

subsection \<open>Role keywords and the lead\<close>

definition includes_any :: "jstr \<Rightarrow> jstr list \<Rightarrow> bool" where
  "includes_any s ts = list_ex (js_includes s) ts"

fun findRoleKeywordMatch :: "jstr \<Rightarrow> member list \<Rightarrow> (member \<times> jstr) option" where
  "findRoleKeywordMatch issueText [] = None"
| "findRoleKeywordMatch issueText (m # ms) =
     (let role = js_lower (mrole m) in
      if includes_any role [js ''frontend'', js ''ui''] \<and>
         includes_any issueText [js ''ui'', js ''frontend'', js ''css'']
      then Some (m, js ''Matched frontend/UI role keywords'')
      else if includes_any role [js ''backend'', js ''api'', js ''server''] \<and>
         includes_any issueText [js ''api'', js ''backend'', js ''database'']
      then Some (m, js ''Matched backend/API role keywords'')
      else if includes_any role [js ''test'', js ''qa''] \<and>
         includes_any issueText [js ''test'', js ''bug'', js ''fix'']
      then Some (m, js ''Matched testing/QA role keywords'')
      else findRoleKeywordMatch issueText ms)"

definition findLeadFallback :: "member list \<Rightarrow> member option" where
  "findLeadFallback roster =
     List.find (\<lambda>m. let role = js_lower (mrole m) in
       js_includes role (js ''lead'') \<or> js_includes role (js ''architect'')) roster"

subsection \<open>The decision\<close>

datatype triage_source = ModuleOwnership | RoutingRule | RoleKeyword | LeadFallback

datatype confidence = High | Medium | Low

definition source_text :: "triage_source \<Rightarrow> jstr" where
  "source_text s = (case s of
       ModuleOwnership \<Rightarrow> js ''module-ownership''
     | RoutingRule \<Rightarrow> js ''routing-rule''
     | RoleKeyword \<Rightarrow> js ''role-keyword''
     | LeadFallback \<Rightarrow> js ''lead-fallback'')"

record decision =
  agent :: member
  reason :: jstr
  dsource :: triage_source
  dconfidence :: confidence

definition issue_text :: "jstr \<Rightarrow> jstr \<Rightarrow> jstr" where
  "issue_text title body = js_lower (title @ [10] @ body)"

definition owner_reason :: "module_owner \<Rightarrow> string \<Rightarrow> jstr \<Rightarrow> jstr" where
  "owner_reason m kind who =
     js ''Matched module path \"'' @ modulePath m @ js ''\" to '' @ js kind @ js '' owner \"'' @ who @ js ''\"''"

text \<open>The module step: the owner of the best module, if the roster knows one.\<close>

definition module_step :: "jstr \<Rightarrow> module_owner list \<Rightarrow> member list \<Rightarrow> decision option" where
  "module_step normalizedIssueText modules roster =
     (case findBestModuleMatch normalizedIssueText modules of
        None \<Rightarrow> None
      | Some bestModule \<Rightarrow>
          (case findMember (primary bestModule) roster of
             Some primaryMember \<Rightarrow>
               Some \<lparr>agent = primaryMember,
                     reason = owner_reason bestModule ''primary'' (primary bestModule),
                     dsource = ModuleOwnership, dconfidence = High\<rparr>
           | None \<Rightarrow>
               (case secondary bestModule of
                  None \<Rightarrow> None
                | Some second \<Rightarrow>
                    if second = [] then None
                    else (case findMember second roster of
                            Some secondaryMember \<Rightarrow>
                              Some \<lparr>agent = secondaryMember,
                                    reason = owner_reason bestModule ''secondary'' second,
                                    dsource = ModuleOwnership, dconfidence = Medium\<rparr>
                          | None \<Rightarrow> None))))"

definition rule_step :: "jstr \<Rightarrow> routing_rule list \<Rightarrow> member list \<Rightarrow> decision option" where
  "rule_step issueText rules roster =
     (case findBestRuleMatch issueText rules of
        None \<Rightarrow> None
      | Some bestRule \<Rightarrow>
          (case findMember (agentName (rm_rule bestRule)) roster of
             None \<Rightarrow> None
           | Some m \<Rightarrow>
               Some \<lparr>agent = m,
                     reason = js ''Matched routing keyword(s): '' @ js_join (js '', '') (matchedKeywords bestRule),
                     dsource = RoutingRule,
                     dconfidence = (if length (matchedKeywords bestRule) \<ge> 2 then High else Medium)\<rparr>))"

definition triageIssue ::
  "jstr \<Rightarrow> jstr \<Rightarrow> routing_rule list \<Rightarrow> module_owner list \<Rightarrow> member list \<Rightarrow> decision option" where
  "triageIssue title body rules modules roster =
     (let issueText = issue_text title body;
          normalizedIssueText = normalizeTextForPathMatch issueText in
      case module_step normalizedIssueText modules roster of
        Some d \<Rightarrow> Some d
      | None \<Rightarrow>
     (case rule_step issueText rules roster of
        Some d \<Rightarrow> Some d
      | None \<Rightarrow>
     (case findRoleKeywordMatch issueText roster of
        Some (m, why) \<Rightarrow>
          Some \<lparr>agent = m, reason = why, dsource = RoleKeyword, dconfidence = Medium\<rparr>
      | None \<Rightarrow>
     (case findLeadFallback roster of
        None \<Rightarrow> None
      | Some lead \<Rightarrow>
          Some \<lparr>agent = lead,
                reason = js ''No module, routing, or role keyword match '' @ [0x2014] @ js '' routed to Lead/Architect'',
                dsource = LeadFallback, dconfidence = Low\<rparr>))))"

subsection \<open>The contract of a best-match loop\<close>

text \<open>A loop that keeps its best candidate and replaces it only for a strictly higher score.\<close>

locale best_scan =
  fixes scan :: "'b option \<Rightarrow> int \<Rightarrow> 'a list \<Rightarrow> 'b option"
    and candidate :: "'a \<Rightarrow> ('b \<times> int) option"
  assumes scan_Nil: "scan best s [] = best"
    and scan_Cons: "scan best s (x # xs) =
      (case candidate x of
         None \<Rightarrow> scan best s xs
       | Some (b, k) \<Rightarrow> if s < k then scan (Some b) k xs else scan best s xs)"
begin

definition at_most :: "int \<Rightarrow> 'a list \<Rightarrow> bool" where
  "at_most k xs \<longleftrightarrow> (\<forall>x\<in>set xs. \<forall>b j. candidate x = Some (b, j) \<longrightarrow> j \<le> k)"

lemma at_most_simps [simp]:
  "at_most k []"
  "at_most k (x # xs) \<longleftrightarrow> (\<forall>b j. candidate x = Some (b, j) \<longrightarrow> j \<le> k) \<and> at_most k xs"
  by (auto simp: at_most_def)

lemma at_most_mono: "at_most j xs \<Longrightarrow> j \<le> k \<Longrightarrow> at_most k xs"
  by (fastforce simp: at_most_def)

text \<open>The result is the earliest element of the highest score above the bound, if there is one.\<close>

lemma scan_cases:
  "(scan best s xs = best \<and> at_most s xs) \<or>
   (\<exists>u x v b k. xs = u @ x # v \<and> candidate x = Some (b, k) \<and> scan best s xs = Some b \<and> s < k
      \<and> at_most (k - 1) u \<and> at_most k v)"
proof (induction xs arbitrary: best s)
  case Nil
  then show ?case by (simp add: scan_Nil)
next
  case (Cons x xs)
  show ?case
  proof (cases "\<exists>b k. candidate x = Some (b, k) \<and> s < k")
    case True
    then obtain b k where bk: "candidate x = Some (b, k)" "s < k" by blast
    then have step: "scan best s (x # xs) = scan (Some b) k xs" by (simp add: scan_Cons)
    from Cons.IH [of "Some b" k] show ?thesis
    proof (elim disjE exE conjE)
      assume "scan (Some b) k xs = Some b" "at_most k xs"
      with bk step have "x # xs = [] @ x # xs \<and> candidate x = Some (b, k)
          \<and> scan best s (x # xs) = Some b \<and> s < k \<and> at_most (k - 1) [] \<and> at_most k xs" by simp
      then show ?thesis by blast
    next
      fix u y v b' k'
      assume h: "xs = u @ y # v" "candidate y = Some (b', k')" "scan (Some b) k xs = Some b'" "k < k'"
        "at_most (k' - 1) u" "at_most k' v"
      with bk step have "x # xs = (x # u) @ y # v \<and> candidate y = Some (b', k')
          \<and> scan best s (x # xs) = Some b' \<and> s < k' \<and> at_most (k' - 1) (x # u) \<and> at_most k' v" by simp
      then show ?thesis by blast
    qed
  next
    case False
    then have step: "scan best s (x # xs) = scan best s xs"
      and low: "at_most s [x]"
      by (auto simp: scan_Cons split: option.splits)
    from Cons.IH [of best s] show ?thesis
    proof (elim disjE exE conjE)
      assume "scan best s xs = best" "at_most s xs"
      with step low show ?thesis by simp
    next
      fix u y v b' k'
      assume h: "xs = u @ y # v" "candidate y = Some (b', k')" "scan best s xs = Some b'" "s < k'"
        "at_most (k' - 1) u" "at_most k' v"
      moreover have "at_most (k' - 1) [x]" by (rule at_most_mono [OF low]) (use h(4) in simp)
      ultimately have "x # xs = (x # u) @ y # v \<and> candidate y = Some (b', k')
          \<and> scan best s (x # xs) = Some b' \<and> s < k' \<and> at_most (k' - 1) (x # u) \<and> at_most k' v"
        using step by simp
      then show ?thesis by blast
    qed
  qed
qed

lemma scan_None: "scan None s xs = None \<longleftrightarrow> at_most s xs"
proof
  assume "scan None s xs = None"
  with scan_cases [of None s xs] show "at_most s xs" by auto
next
  assume low: "at_most s xs"
  from scan_cases [of None s xs] show "scan None s xs = None"
  proof (elim disjE exE conjE)
    fix u x v b k
    assume "xs = u @ x # v" "candidate x = Some (b, k)" "s < k"
    with low show ?thesis by (fastforce simp: at_most_def)
  qed simp
qed

lemma scan_Some:
  "scan None s xs = Some b \<Longrightarrow>
    \<exists>u x v k. xs = u @ x # v \<and> candidate x = Some (b, k) \<and> s < k \<and> at_most (k - 1) u \<and> at_most k v"
  using scan_cases [of None s xs] by auto

end

definition module_candidate :: "jstr \<Rightarrow> module_owner \<Rightarrow> (module_owner \<times> int) option" where
  "module_candidate text m =
     (let path = normalizeModulePath (modulePath m) in
      if path \<noteq> [] \<and> js_includes text path then Some (m, int (length path)) else None)"

interpretation module_scan: best_scan "module_loop t" "module_candidate t" for t
  by unfold_locales (simp_all add: module_candidate_def Let_def)

definition rule_candidate :: "jstr \<Rightarrow> routing_rule \<Rightarrow> (rule_match \<times> int) option" where
  "rule_candidate text r =
     (let kws = matched_keywords text r in
      if kws = [] then None
      else Some (\<lparr>rm_rule = r, matchedKeywords = kws\<rparr>, int (keyword_score kws)))"

interpretation rule_scan: best_scan "rule_loop t" "rule_candidate t" for t
  by unfold_locales (simp_all add: rule_candidate_def Let_def)

subsection \<open>The contract of a lookup in the roster\<close>

text \<open>Answers are suitable members of the roster; some answer is given when one is there.\<close>

locale roster_choice =
  fixes pick :: "member list \<Rightarrow> member option"
    and suits :: "member \<Rightarrow> bool"
  assumes pick_sound: "pick roster = Some m \<Longrightarrow> m \<in> set roster \<and> suits m"
    and pick_complete: "m \<in> set roster \<Longrightarrow> suits m \<Longrightarrow> pick roster \<noteq> None"
begin

lemma pick_None_iff: "pick roster = None \<longleftrightarrow> (\<forall>m\<in>set roster. \<not> suits m)"
proof
  assume "pick roster = None"
  then show "\<forall>m\<in>set roster. \<not> suits m" using pick_complete by blast
next
  assume "\<forall>m\<in>set roster. \<not> suits m"
  then show "pick roster = None" using pick_sound by (cases "pick roster") auto
qed

lemma pick_Nil: "pick [] = None"
  by (simp add: pick_None_iff)

end

definition member_suits :: "jstr \<Rightarrow> member \<Rightarrow> bool" where
  "member_suits target m =
     (let t = normalizeName target; n = normalizeName (mname m); r = normalizeName (mrole m) in
      t \<noteq> [] \<and> (js_includes t n \<or> js_includes n t \<or> js_includes t r \<or> js_includes r t))"

interpretation member_lookup: roster_choice "findMember target" "member_suits target" for target
proof unfold_locales
  fix roster m
  assume "findMember target roster = Some m"
  then show "m \<in> set roster \<and> member_suits target m"
    by (auto simp: findMember_def member_suits_def Let_def dest!: find_Some_set split: if_splits option.splits)
next
  fix roster m
  assume m: "m \<in> set roster" "member_suits target m"
  show "findMember target roster \<noteq> None"
  proof
    assume "findMember target roster = None"
    with m show False
      by (auto simp: findMember_def member_suits_def Let_def find_None split: if_splits option.splits)
  qed
qed

definition role_keyword_suits :: "jstr \<Rightarrow> member \<Rightarrow> bool" where
  "role_keyword_suits issueText m \<longleftrightarrow> findRoleKeywordMatch issueText [m] \<noteq> None"

lemma role_keyword_Cons:
  "findRoleKeywordMatch issueText (m # ms) =
     (if role_keyword_suits issueText m then findRoleKeywordMatch issueText [m]
      else findRoleKeywordMatch issueText ms)"
  by (simp add: role_keyword_suits_def Let_def)

lemma role_keyword_single: "findRoleKeywordMatch issueText [m] = Some (m', why) \<Longrightarrow> m' = m"
  by (auto simp: Let_def split: if_splits)

declare findRoleKeywordMatch.simps(2) [simp del]

interpretation role_lookup: roster_choice
  "\<lambda>roster. map_option fst (findRoleKeywordMatch issueText roster)" "role_keyword_suits issueText"
  for issueText
proof unfold_locales
  fix roster m
  assume "map_option fst (findRoleKeywordMatch issueText roster) = Some m"
  then show "m \<in> set roster \<and> role_keyword_suits issueText m"
  proof (induction roster)
    case (Cons x xs)
    then show ?case
      by (cases "role_keyword_suits issueText x")
        (auto simp: role_keyword_Cons [of _ x xs] dest: role_keyword_single)
  qed simp
next
  fix roster m
  assume "m \<in> set roster" "role_keyword_suits issueText m"
  then show "map_option fst (findRoleKeywordMatch issueText roster) \<noteq> None"
  proof (induction roster)
    case (Cons x xs)
    then show ?case
      by (cases "role_keyword_suits issueText x")
        (auto simp: role_keyword_Cons [of _ x xs] role_keyword_suits_def)
  qed simp
qed

definition leads :: "member \<Rightarrow> bool" where
  "leads m \<longleftrightarrow> js_includes (js_lower (mrole m)) (js ''lead'') \<or> js_includes (js_lower (mrole m)) (js ''architect'')"

interpretation lead_lookup: roster_choice findLeadFallback leads
proof unfold_locales
  show "m \<in> set roster \<and> leads m" if "findLeadFallback roster = Some m" for roster m
    using find_Some_set [OF that [unfolded findLeadFallback_def]] by (simp add: leads_def Let_def)
  show "findLeadFallback roster \<noteq> None" if "m \<in> set roster" "leads m" for roster m
    using that by (auto simp: findLeadFallback_def leads_def Let_def find_None)
qed

subsection \<open>Properties of the lookups\<close>

text \<open>
  The member lookup prefers exact names. If some member's normalised name equals the
  normalised target, \<open>findMember\<close> returns the first such member of the roster; if none does but
  some member's normalised role equals it, it returns the first of those. Containment is only a
  fallback.
\<close>

theorem findMember_exact_first:
  assumes "normalizeName target \<noteq> []"
  shows "if \<exists>m\<in>set roster. normalizeName (mname m) = normalizeName target
    then findMember target roster \<noteq> None \<and>
      findMember target roster = List.find (\<lambda>m. normalizeName (mname m) = normalizeName target) roster
    else if \<exists>m\<in>set roster. normalizeName (mrole m) = normalizeName target
    then findMember target roster \<noteq> None \<and>
      findMember target roster = List.find (\<lambda>m. normalizeName (mrole m) = normalizeName target) roster
    else findMember target roster = None \<longleftrightarrow> (\<forall>m\<in>set roster. \<not> member_suits target m)"
proof (cases "\<exists>m\<in>set roster. normalizeName (mname m) = normalizeName target")
  case True
  then obtain m where "List.find (\<lambda>m. normalizeName (mname m) = normalizeName target) roster = Some m"
    using find_None by fastforce
  with True assms show ?thesis by (simp add: findMember_def Let_def)
next
  case False
  then have n: "List.find (\<lambda>m. normalizeName (mname m) = normalizeName target) roster = None"
    by (simp add: find_None)
  show ?thesis
  proof (cases "\<exists>m\<in>set roster. normalizeName (mrole m) = normalizeName target")
    case True
    then obtain m where "List.find (\<lambda>m. normalizeName (mrole m) = normalizeName target) roster = Some m"
      using find_None by fastforce
    with True False n assms show ?thesis by (simp add: findMember_def Let_def)
  next
    case False': False
    show ?thesis
      unfolding if_not_P [OF False] if_not_P [OF False'] by (rule member_lookup.pick_None_iff)
  qed
qed

text \<open>
  A member whose name has no ASCII word unit (a name in another script, say) normalises to the
  empty text, which every text includes: such a member alone in the roster is the answer for every
  target that does not normalise to nothing.
\<close>

theorem findMember_unnamed_catches_all:
  assumes "91 \<notin> set (mname m)" "\<forall>c\<in>set (mname m). \<not> name_unit (lower_cu c)" "normalizeName target \<noteq> []"
  shows "findMember target [m] = Some m"
proof -
  have "normalizeName (mname m) = []" using assms normalizeName_foreign by blast
  with assms(3) show ?thesis by (auto simp: findMember_def Let_def)
qed

text \<open>
  C10: The module chosen for an issue is the longest owned path that occurs in the issue text, the
  earliest in the table among equally long ones; and there is none only when no owned path occurs.
\<close>

theorem findBestModuleMatch_longest:
  "case findBestModuleMatch issueText modules of
     None \<Rightarrow> \<forall>m\<in>set modules. normalizeModulePath (modulePath m) = []
       \<or> \<not> js_includes issueText (normalizeModulePath (modulePath m))
   | Some best \<Rightarrow> \<exists>before after. modules = before @ best # after
       \<and> js_includes issueText (normalizeModulePath (modulePath best))
       \<and> normalizeModulePath (modulePath best) \<noteq> []
       \<and> (\<forall>m\<in>set before. js_includes issueText (normalizeModulePath (modulePath m)) \<longrightarrow>
            length (normalizeModulePath (modulePath m)) < length (normalizeModulePath (modulePath best)))
       \<and> (\<forall>m\<in>set after. js_includes issueText (normalizeModulePath (modulePath m)) \<longrightarrow>
            length (normalizeModulePath (modulePath m)) \<le> length (normalizeModulePath (modulePath best)))"
proof (cases "findBestModuleMatch issueText modules")
  case None
  then have "module_scan.at_most issueText (- 1) modules"
    by (simp add: findBestModuleMatch_def module_scan.scan_None)
  with None show ?thesis
    by (fastforce simp: module_scan.at_most_def module_candidate_def Let_def)
next
  case (Some best)
  then obtain u x v k where h: "modules = u @ x # v" "module_candidate issueText x = Some (best, k)"
    "module_scan.at_most issueText (k - 1) u" "module_scan.at_most issueText k v"
    using module_scan.scan_Some [of issueText "- 1" modules best] by (auto simp: findBestModuleMatch_def)
  then have x: "x = best" "normalizeModulePath (modulePath best) \<noteq> []"
    "js_includes issueText (normalizeModulePath (modulePath best))"
    "k = int (length (normalizeModulePath (modulePath best)))"
    by (auto simp: module_candidate_def Let_def split: if_splits)
  have len: "int (length (normalizeModulePath (modulePath m))) \<le> j"
    if "module_scan.at_most issueText j ms" "m \<in> set ms" "js_includes issueText (normalizeModulePath (modulePath m))"
      "- 1 < j" for j ms m
    using that by (cases "normalizeModulePath (modulePath m) = []")
      (auto simp: module_scan.at_most_def module_candidate_def Let_def)
  from x have k: "- 1 < k - 1" "- 1 < k" by (cases "normalizeModulePath (modulePath best)"; auto)+
  have "length (normalizeModulePath (modulePath m)) < length (normalizeModulePath (modulePath best))"
    if "m \<in> set u" "js_includes issueText (normalizeModulePath (modulePath m))" for m
    using len [OF h(3) that k(1)] x(4) by simp
  moreover have "length (normalizeModulePath (modulePath m)) \<le> length (normalizeModulePath (modulePath best))"
    if "m \<in> set v" "js_includes issueText (normalizeModulePath (modulePath m))" for m
    using len [OF h(4) that k(2)] x(4) by simp
  ultimately show ?thesis
    unfolding Some option.case using h(1) x by blast
qed

text \<open>
  C9: The rule chosen for an issue has the highest keyword score, is the earliest in the table of that
  score, and carries exactly its own matched keywords, at least one; no rule is chosen only when no
  rule has a matching keyword. The score weighs each matched keyword 100 plus its length.
\<close>

theorem findBestRuleMatch_best:
  "case findBestRuleMatch issueText rules of
     None \<Rightarrow> \<forall>r\<in>set rules. matched_keywords issueText r = []
   | Some best \<Rightarrow> \<exists>before after. rules = before @ rm_rule best # after
       \<and> matchedKeywords best = matched_keywords issueText (rm_rule best) \<and> matchedKeywords best \<noteq> []
       \<and> (\<forall>r\<in>set before. keyword_score (matched_keywords issueText r) < keyword_score (matchedKeywords best))
       \<and> (\<forall>r\<in>set after. keyword_score (matched_keywords issueText r) \<le> keyword_score (matchedKeywords best))"
proof (cases "findBestRuleMatch issueText rules")
  case None
  then have "rule_scan.at_most issueText 0 rules"
    by (simp add: findBestRuleMatch_def rule_scan.scan_None)
  then have "keyword_score (matched_keywords issueText r) \<le> 0 \<or> matched_keywords issueText r = []"
    if "r \<in> set rules" for r
    using that by (auto simp: rule_scan.at_most_def rule_candidate_def Let_def)
  moreover have "keyword_score kws \<le> 0 \<Longrightarrow> kws = []" for kws
    by (cases kws) (simp_all add: keyword_score_def)
  ultimately show ?thesis using None by auto
next
  case (Some best)
  then obtain u x v k where h: "rules = u @ x # v" "rule_candidate issueText x = Some (best, k)" "0 < k"
    "rule_scan.at_most issueText (k - 1) u" "rule_scan.at_most issueText k v"
    using rule_scan.scan_Some [of issueText 0 rules best] by (auto simp: findBestRuleMatch_def)
  then have x: "x = rm_rule best" "matchedKeywords best = matched_keywords issueText (rm_rule best)"
    "matchedKeywords best \<noteq> []" "k = int (keyword_score (matchedKeywords best))"
    by (auto simp: rule_candidate_def Let_def split: if_splits)
  have score: "int (keyword_score (matched_keywords issueText r)) \<le> j"
    if "rule_scan.at_most issueText j rs" "r \<in> set rs" "0 \<le> j" for j rs r
    using that by (cases "matched_keywords issueText r = []")
      (auto simp: rule_scan.at_most_def rule_candidate_def Let_def keyword_score_def)
  have "keyword_score (matched_keywords issueText r) < keyword_score (matchedKeywords best)" if "r \<in> set u" for r
    using score [OF h(4) that] h(3) x(4) by simp
  moreover have "keyword_score (matched_keywords issueText r) \<le> keyword_score (matchedKeywords best)" if "r \<in> set v" for r
    using score [OF h(5) that] h(3) x(4) by simp
  ultimately show ?thesis
    unfolding Some option.case using h(1) x by blast
qed

lemma best_rule_score:
  assumes "findBestRuleMatch issueText rules = Some best" "r \<in> set rules"
  shows "keyword_score (matched_keywords issueText r) \<le> keyword_score (matchedKeywords best)"
proof -
  obtain u x v k where h: "rules = u @ x # v" "rule_candidate issueText x = Some (best, k)" "0 < k"
    "rule_scan.at_most issueText (k - 1) u" "rule_scan.at_most issueText k v"
    using assms(1) rule_scan.scan_Some [of issueText 0 rules best] by (auto simp: findBestRuleMatch_def)
  then have k: "k = int (keyword_score (matchedKeywords best))" "rule_scan.at_most issueText k [x]"
    by (auto simp: rule_candidate_def Let_def split: if_splits)
  then have "rule_scan.at_most issueText k rules"
    using h rule_scan.at_most_mono [OF h(4), of k] by (auto simp: rule_scan.at_most_def)
  then show ?thesis
    using assms(2) k h(3) by (cases "matched_keywords issueText r = []")
      (auto simp: rule_scan.at_most_def rule_candidate_def Let_def keyword_score_def)
qed

lemma keyword_score_sum: "keyword_score kws = length kws * 100 + sum_list (map length kws)"
proof -
  have "foldl (\<lambda>sum keyword. sum + length keyword) a kws = a + sum_list (map length kws)" for a
    by (induction kws arbitrary: a) simp_all
  then show ?thesis by (simp add: keyword_score_def)
qed

text \<open>
  More matched keywords win. As long as the matched keywords of the chosen rule have fewer than
  100 units together, no rule of the table matches more keywords of the issue than the chosen one.
\<close>

theorem findBestRuleMatch_most_keywords:
  assumes "findBestRuleMatch issueText rules = Some best"
    and "sum_list (map length (matchedKeywords best)) < 100"
    and "r \<in> set rules"
  shows "length (matched_keywords issueText r) \<le> length (matchedKeywords best)"
  using best_rule_score [OF assms(1,3)] assms(2) by (simp add: keyword_score_sum)

subsection \<open>Properties of the decision\<close>

lemma best_module_in:
  "findBestModuleMatch t modules = Some best \<Longrightarrow>
     best \<in> set modules \<and> js_includes t (normalizeModulePath (modulePath best))"
  using module_scan.scan_Some [of t "- 1" modules best]
  by (auto simp: findBestModuleMatch_def module_candidate_def Let_def split: if_splits)

lemma best_rule_in:
  "findBestRuleMatch t rules = Some best \<Longrightarrow> rm_rule best \<in> set rules
     \<and> matchedKeywords best = matched_keywords t (rm_rule best) \<and> matchedKeywords best \<noteq> []"
  using rule_scan.scan_Some [of t 0 rules best]
  by (auto simp: findBestRuleMatch_def rule_candidate_def Let_def split: if_splits)

lemma module_step_sound:
  assumes "module_step t modules roster = Some d"
  shows "agent d \<in> set roster \<and> dsource d = ModuleOwnership \<and>
    (\<exists>m\<in>set modules. js_includes t (normalizeModulePath (modulePath m)) \<and>
      (dconfidence d = High \<and> member_suits (primary m) (agent d) \<or>
       dconfidence d = Medium \<and> (\<exists>s. secondary m = Some s \<and> member_suits s (agent d))))"
proof -
  from assms obtain best where best: "findBestModuleMatch t modules = Some best"
    by (auto simp: module_step_def split: option.splits)
  then have "best \<in> set modules" "js_includes t (normalizeModulePath (modulePath best))"
    using best_module_in by blast+
  with assms best show ?thesis
    by (auto simp: module_step_def split: option.splits if_splits dest!: member_lookup.pick_sound)
qed

lemma module_step_None:
  "module_step t modules roster = None \<longleftrightarrow>
    (\<forall>best. findBestModuleMatch t modules = Some best \<longrightarrow>
      (\<forall>m\<in>set roster. \<not> member_suits (primary best) m \<and>
        (\<forall>s. secondary best = Some s \<longrightarrow> \<not> member_suits s m)))"
proof -
  have "\<not> member_suits [] m" for m
    by (simp add: member_suits_def Let_def)
  then show ?thesis
    by (auto simp: module_step_def member_lookup.pick_None_iff split: option.splits
        dest: member_lookup.pick_sound)
qed

lemma rule_step_sound:
  assumes "rule_step t rules roster = Some d"
  shows "agent d \<in> set roster \<and> dsource d = RoutingRule \<and>
    (\<exists>r\<in>set rules. matched_keywords t r \<noteq> [] \<and> member_suits (agentName r) (agent d) \<and>
      dconfidence d = (if length (matched_keywords t r) \<ge> 2 then High else Medium))"
proof -
  from assms obtain best where best: "findBestRuleMatch t rules = Some best"
    by (auto simp: rule_step_def split: option.splits)
  then have "rm_rule best \<in> set rules"
    "matchedKeywords best = matched_keywords t (rm_rule best)" "matchedKeywords best \<noteq> []"
    using best_rule_in by blast+
  with assms best show ?thesis
    by (auto simp: rule_step_def split: option.splits dest!: member_lookup.pick_sound intro!: bexI [of _ "rm_rule best"])
qed

lemma rule_step_None:
  "rule_step t rules roster = None \<longleftrightarrow>
    (\<forall>best. findBestRuleMatch t rules = Some best \<longrightarrow>
      (\<forall>m\<in>set roster. \<not> member_suits (agentName (rm_rule best)) m))"
  by (auto simp: rule_step_def member_lookup.pick_None_iff split: option.splits
      dest: member_lookup.pick_sound)

text \<open>What a decision of each source rests on, and how confident it is.\<close>

definition justified :: "jstr \<Rightarrow> routing_rule list \<Rightarrow> module_owner list \<Rightarrow> member list \<Rightarrow> decision \<Rightarrow> bool" where
  "justified issueText rules modules roster d =
     (case dsource d of
        ModuleOwnership \<Rightarrow>
          (\<exists>m\<in>set modules.
             js_includes (normalizeTextForPathMatch issueText) (normalizeModulePath (modulePath m)) \<and>
             (dconfidence d = High \<and> member_suits (primary m) (agent d) \<or>
              dconfidence d = Medium \<and> (\<exists>s. secondary m = Some s \<and> member_suits s (agent d))))
      | RoutingRule \<Rightarrow>
          (\<exists>r\<in>set rules. matched_keywords issueText r \<noteq> [] \<and> member_suits (agentName r) (agent d) \<and>
             dconfidence d = (if length (matched_keywords issueText r) \<ge> 2 then High else Medium))
      | RoleKeyword \<Rightarrow> role_keyword_suits issueText (agent d) \<and> dconfidence d = Medium
      | LeadFallback \<Rightarrow> leads (agent d) \<and> dconfidence d = Low
          \<and> (\<forall>m\<in>set roster. \<not> role_keyword_suits issueText m))"

lemma triageIssue_roster: "triageIssue title body rules modules roster = Some d \<Longrightarrow> agent d \<in> set roster"
  using role_lookup.pick_sound lead_lookup.pick_sound
  by (fastforce simp: triageIssue_def Let_def dest: module_step_sound rule_step_sound split: option.splits)

text \<open>
  C1: Every decision assigns a member of the roster and is justified by what its source claims: a
  module path that occurs in the (slash-normalised) issue text with its primary owner (high) or
  secondary owner (medium), a routing rule with a matched keyword (high from two on), a role keyword,
  or a lead when no role keyword suits anybody.
\<close>

theorem triageIssue_justified:
  assumes "triageIssue title body rules modules roster = Some d"
  shows "agent d \<in> set roster \<and> justified (issue_text title body) rules modules roster d"
proof -
  let ?text = "issue_text title body"
  consider (m) "module_step (normalizeTextForPathMatch ?text) modules roster = Some d"
    | (r) "rule_step ?text rules roster = Some d"
    | (k) x why where "findRoleKeywordMatch ?text roster = Some (x, why)"
        "agent d = x" "dsource d = RoleKeyword" "dconfidence d = Medium"
    | (l) "findRoleKeywordMatch ?text roster = None" "findLeadFallback roster = Some (agent d)"
        "dsource d = LeadFallback" "dconfidence d = Low"
    using assms by (auto simp: triageIssue_def Let_def split: option.splits)
  then show ?thesis
  proof cases
    case m
    from module_step_sound [OF m] show ?thesis by (simp add: justified_def)
  next
    case r
    from rule_step_sound [OF r] show ?thesis by (simp add: justified_def)
  next
    case k
    then show ?thesis
      using role_lookup.pick_sound [of ?text roster x] by (simp add: justified_def)
  next
    case l
    then show ?thesis
      using role_lookup.pick_None_iff [of ?text roster] lead_lookup.pick_sound [of roster "agent d"]
      by (simp add: justified_def)
  qed
qed

text \<open>
  C3: When nobody is assigned. \<open>triageIssue\<close> answers null exactly when the roster has no lead or
  architect, no member suits a role keyword of the text, and no member suits an owner of the best
  module or the agent of the best rule. So a roster with a lead gets every issue assigned.
\<close>

theorem triageIssue_unassigned_iff:
  "triageIssue title body rules modules roster = None \<longleftrightarrow>
     (\<forall>m\<in>set roster. \<not> leads m \<and> \<not> role_keyword_suits (issue_text title body) m
       \<and> (\<forall>best. findBestModuleMatch (normalizeTextForPathMatch (issue_text title body)) modules = Some best \<longrightarrow>
            \<not> member_suits (primary best) m \<and> (\<forall>s. secondary best = Some s \<longrightarrow> \<not> member_suits s m))
       \<and> (\<forall>best. findBestRuleMatch (issue_text title body) rules = Some best \<longrightarrow>
            \<not> member_suits (agentName (rm_rule best)) m))"
proof -
  let ?text = "issue_text title body"
  have "triageIssue title body rules modules roster = None \<longleftrightarrow>
      module_step (normalizeTextForPathMatch ?text) modules roster = None
      \<and> rule_step ?text rules roster = None
      \<and> map_option fst (findRoleKeywordMatch ?text roster) = None \<and> findLeadFallback roster = None"
    by (auto simp: triageIssue_def Let_def split: option.splits)
  then show ?thesis
    unfolding module_step_None rule_step_None role_lookup.pick_None_iff lead_lookup.pick_None_iff
    by blast
qed

text \<open>
  C2: Precedence. A suitable owner of the best module decides the issue whatever the rules and role
  keywords say; without one, a suitable agent of the best rule does, whatever the role keywords say.
\<close>

theorem triageIssue_precedence:
  "if module_step (normalizeTextForPathMatch (issue_text title body)) modules roster \<noteq> None
   then \<forall>rules'. triageIssue title body rules' modules roster = triageIssue title body rules modules roster
     \<and> map_option dsource (triageIssue title body rules modules roster) = Some ModuleOwnership
   else if rule_step (issue_text title body) rules roster \<noteq> None
   then map_option dsource (triageIssue title body rules modules roster) = Some RoutingRule
   else \<forall>d. triageIssue title body rules modules roster = Some d \<longrightarrow> dsource d \<in> {RoleKeyword, LeadFallback}"
  by (auto simp: triageIssue_def Let_def split: option.splits dest: module_step_sound rule_step_sound)

text \<open>
  Triage ignores the case of the issue's title and body.
\<close>

lemma triageIssue_case_insensitive:
  assumes "js_lower title = js_lower title'" "js_lower body = js_lower body'"
  shows "triageIssue title body rules modules roster = triageIssue title' body' rules modules roster"
proof -
  have "issue_text title body = issue_text title' body'"
    using assms by (simp add: issue_text_def js_lower_def)
  then show ?thesis by (simp add: triageIssue_def)
qed

subsection \<open>The repository's own routing file\<close>

text \<open>
  \<open>.squad/routing.md\<close> holds its rules under \<open>## Routing Table\<close>. These are all the lines of the file
  that start with \<open>##\<close>.
\<close>

definition repo_headings :: "jstr list" where
  "repo_headings = [js ''## Routing Table'', js ''## Issue Routing'',
     js ''### How Issue Assignment Works'', js ''## Rules'']"

definition like_repo_routing :: "jstr \<Rightarrow> bool" where
  "like_repo_routing md \<longleftrightarrow>
     (\<forall>l\<in>set (js_split 10 (normalizeEol md)). js_starts_with (js_trim l) (js ''##'') \<longrightarrow> js_trim l \<in> set repo_headings)"

lemma hash_prefix:
  "same_text (js ''##'') s \<Longrightarrow> js_starts_with s (js ''##'')"
proof -
  have hash: "(35 :: nat) \<in> set (case_variants c) \<longleftrightarrow> c = 35" for c
    unfolding case_variants_def by (simp; linarith)
  have "js ''##'' = [35, 35]" by (simp add: js_simps)
  then show "same_text (js ''##'') s \<Longrightarrow> js_starts_with s (js ''##'')"
    by (cases s; cases "tl s") (auto simp: hash)
qed

lemma hash_header:
  "re_test True (Seq Bol (Seq (lit (js ''##'')) q)) s \<Longrightarrow> js_starts_with s (js ''##'')"
  by (rule hash_prefix) (simp add: re_test_Bol re_match_lit_i del: lit.simps split: if_splits)

lemma repo_headings_unread:
  "\<forall>l\<in>set repo_headings. \<not> re_test True routing_header_re l \<and> \<not> re_test True module_header_re l"
  by code_simp

lemma like_repo_routing_unread:
  assumes "like_repo_routing md"
  shows "parseRoutingRules md = []" "parseModuleOwnership md = []"
proof -
  have "\<not> re_test True h (js_trim l)"
    if "l \<in> set (js_split 10 (normalizeEol md))" "h \<in> {routing_header_re, module_header_re}" for l h
  proof
    assume "re_test True h (js_trim l)"
    moreover from this that(2) have "js_starts_with (js_trim l) (js ''##'')"
      by (auto simp: routing_header_re_def module_header_re_def intro: hash_header simp del: lit.simps)
    ultimately show False
      using assms that repo_headings_unread by (auto simp: like_repo_routing_def)
  qed
  then have "section_lines h False (js_split 10 (normalizeEol md)) = []"
    if "h \<in> {routing_header_re, module_header_re}" for h
    using that by (intro section_lines_none) blast
  then have "parseTableSection md routing_header_re = None" "parseTableSection md module_header_re = None"
    by (simp_all add: parseTableSection_def)
  then show "parseRoutingRules md = []" "parseModuleOwnership md = []"
    by (simp_all add: parseRoutingRules_def parseModuleOwnership_def)
qed

text \<open>
  C21: With a routing file whose headings are those of the repository's own \<open>.squad/routing.md\<close>, the
  routing table is never read: whatever its rows say, every issue is routed by a role keyword or to the
  lead.
\<close>

theorem repo_routing_unread:
  assumes "like_repo_routing md"
    and "triageIssue title body (parseRoutingRules md) (parseModuleOwnership md) roster = Some d"
  shows "dsource d \<in> {RoleKeyword, LeadFallback}"
  using assms(2) unfolding like_repo_routing_unread [OF assms(1)]
  by (auto simp: triageIssue_def Let_def module_step_def rule_step_def findBestModuleMatch_def
      findBestRuleMatch_def split: option.splits)

subsection \<open>Concrete instances\<close>

theorem findMember_exact_first_witness: "findMember (js ''*theo*'') [theo] = Some theo"
proof -
  have "normalizeName (js ''*theo*'') = js ''theo''" "normalizeName (mname theo) = js ''theo''" by code_simp+
  then show ?thesis using findMember_exact_first [of "js ''*theo*''" "[theo]"] by simp
qed

theorem findMember_unnamed_catches_all_witness:
  "findMember (js ''Nia'') [\<lparr>mname = [945, 946], mrole = js ''Dev'', mlabel = []\<rparr>] =
     Some \<lparr>mname = [945, 946], mrole = js ''Dev'', mlabel = []\<rparr>"
proof (rule findMember_unnamed_catches_all)
  show "91 \<notin> set (mname \<lparr>mname = [945, 946], mrole = js ''Dev'', mlabel = []\<rparr>)" by code_simp
  show "\<forall>c\<in>set (mname \<lparr>mname = [945, 946], mrole = js ''Dev'', mlabel = []\<rparr>). \<not> name_unit (lower_cu c)" by code_simp
  show "normalizeName (js ''Nia'') \<noteq> []" by code_simp
qed

definition web :: module_owner where
  "web = \<lparr>modulePath = js ''src/web'', primary = js ''Theo'', secondary = None\<rparr>"

theorem findBestModuleMatch_longest_witness: "findBestModuleMatch (js ''fix src/web'') [web] = Some web"
proof -
  have "js_includes (js ''fix src/web'') (normalizeModulePath (modulePath web))"
    "normalizeModulePath (modulePath web) \<noteq> []" by code_simp+
  then show ?thesis
    using findBestModuleMatch_longest [where issueText = "js ''fix src/web''" and modules = "[web]"]
    by (cases "findBestModuleMatch (js ''fix src/web'') [web]") (auto simp: Cons_eq_append_conv)
qed

definition api_rule :: routing_rule where
  "api_rule = \<lparr>workType = js ''Backend'', agentName = js ''Theo'', ruleKeywords = [js ''api'', js ''state'']\<rparr>"

theorem findBestRuleMatch_best_witness:
  "map_option rm_rule (findBestRuleMatch (js ''the api'') [api_rule]) = Some api_rule"
proof -
  have "matched_keywords (js ''the api'') api_rule \<noteq> []" by code_simp
  then show ?thesis
    using findBestRuleMatch_best [where issueText = "js ''the api''" and rules = "[api_rule]"]
    by (cases "findBestRuleMatch (js ''the api'') [api_rule]") (auto simp: Cons_eq_append_conv)
qed

theorem findBestRuleMatch_most_keywords_witness:
  "length (matched_keywords (js ''the api'') api_rule) \<le> 1"
proof -
  have "findBestRuleMatch (js ''the api'') [api_rule] = Some \<lparr>rm_rule = api_rule, matchedKeywords = [js ''api'']\<rparr>"
    by code_simp
  from findBestRuleMatch_most_keywords [OF this, of api_rule] show ?thesis by simp
qed

theorem triageIssue_justified_witness:
  "\<exists>d. triageIssue (js ''Fix the api'') [] [api_rule] [] [theo] = Some d \<and> agent d \<in> set [theo]
     \<and> justified (issue_text (js ''Fix the api'') []) [api_rule] [] [theo] d"
proof -
  have "triageIssue (js ''Fix the api'') [] [api_rule] [] [theo] \<noteq> None" by code_simp
  then obtain d where "triageIssue (js ''Fix the api'') [] [api_rule] [] [theo] = Some d" by blast
  with triageIssue_justified [OF this] show ?thesis by blast
qed

theorem triageIssue_unassigned_iff_witness: "triageIssue (js ''Hello'') [] [] [] [theo] = None"
proof -
  have "\<not> leads theo" "\<not> role_keyword_suits (issue_text (js ''Hello'') []) theo" by code_simp+
  then show ?thesis
    by (subst triageIssue_unassigned_iff) (simp add: findBestModuleMatch_def findBestRuleMatch_def)
qed

theorem triageIssue_precedence_witness:
  "map_option dsource (triageIssue (js ''Fix the api'') [] [api_rule] [] [theo]) = Some RoutingRule"
proof -
  have "module_step (normalizeTextForPathMatch (issue_text (js ''Fix the api'') [])) [] [theo] = None"
    "rule_step (issue_text (js ''Fix the api'') []) [api_rule] [theo] \<noteq> None" by code_simp+
  then show ?thesis using triageIssue_precedence [of "js ''Fix the api''" "[]" "[]" "[theo]" "[api_rule]"] by simp
qed

theorem repo_routing_unread_witness:
  "\<exists>d. triageIssue (js ''Hi'') [] (parseRoutingRules (js ''## Rules'')) (parseModuleOwnership (js ''## Rules''))
     [theo\<lparr>mrole := js ''Lead''\<rparr>] = Some d \<and> dsource d \<in> {RoleKeyword, LeadFallback}"
proof -
  have "triageIssue (js ''Hi'') [] (parseRoutingRules (js ''## Rules'')) (parseModuleOwnership (js ''## Rules''))
     [theo\<lparr>mrole := js ''Lead''\<rparr>] \<noteq> None" by code_simp
  moreover have "like_repo_routing (js ''## Rules'')" by code_simp
  ultimately show ?thesis using repo_routing_unread by blast
qed

end
