(* ===== verification/JsJson.thy ===== *)
theory JsJson
  imports JsPrelude
begin

text \<open>
  JSON values as the scripts meet them, the errors they throw, and \<open>JSON.stringify\<close> with an indent
  of two. Numbers are integers (issue numbers, status codes and versions are); a property read
  answers \<open>None\<close> for \<open>undefined\<close>. Decoding a body is left to the host: it is an argument of the
  definitions that need it.
\<close>

datatype json =
    JNull
  | JBool bool
  | JNum int
  | JStr jstr
  | JArr "json list"
  | JObj "(jstr \<times> json) list"

datatype js_error = TypeError | Error jstr

type_synonym 'a result = "js_error + 'a"

text \<open>\<open>o.k\<close>: reading a property of \<open>null\<close> throws, of any other value answers.\<close>

definition getp :: "json \<Rightarrow> jstr \<Rightarrow> json option result" where
  "getp j k = (case j of
       JNull \<Rightarrow> Inl TypeError
     | JObj kvs \<Rightarrow> Inr (map_of kvs k)
     | _ \<Rightarrow> Inr None)"

definition truthy :: "json option \<Rightarrow> bool" where
  "truthy v = (case v of
       None \<Rightarrow> False
     | Some JNull \<Rightarrow> False
     | Some (JBool b) \<Rightarrow> b
     | Some (JNum n) \<Rightarrow> n \<noteq> 0
     | Some (JStr s) \<Rightarrow> s \<noteq> []
     | Some (JArr _) \<Rightarrow> True
     | Some (JObj _) \<Rightarrow> True)"

definition js_int :: "int \<Rightarrow> jstr" where
  "js_int n = (if n < 0 then 45 # js_nat (nat (- n)) else js_nat (nat n))"

text \<open>A value in a template literal (\<open>ToString\<close>); \<open>null\<close> inside an array prints as nothing.\<close>

fun json_text :: "json \<Rightarrow> jstr" where
  "json_text JNull = js ''null''"
| "json_text (JBool b) = (if b then js ''true'' else js ''false'')"
| "json_text (JNum n) = js_int n"
| "json_text (JStr s) = s"
| "json_text (JArr xs) = js_join (js '','') (map (\<lambda>x. if x = JNull then [] else json_text x) xs)"
| "json_text (JObj _) = js ''[object Object]''"

definition rbind :: "'a result \<Rightarrow> ('a \<Rightarrow> 'b result) \<Rightarrow> 'b result" where
  "rbind r f = (case r of Inl e \<Rightarrow> Inl e | Inr x \<Rightarrow> f x)"

lemma rbind_simps [simp]: "rbind (Inl e) f = Inl e" "rbind (Inr x) f = f x"
  by (simp_all add: rbind_def)

lemma rbind_Inr_iff: "rbind r f = Inr y \<longleftrightarrow> (\<exists>x. r = Inr x \<and> f x = Inr y)"
  by (cases r) simp_all

text \<open>\<open>xs.filter(p)\<close> and \<open>xs.some(p)\<close> with a predicate that may throw.\<close>

fun rfilter :: "('a \<Rightarrow> bool result) \<Rightarrow> 'a list \<Rightarrow> 'a list result" where
  "rfilter p [] = Inr []"
| "rfilter p (x # xs) =
     rbind (p x) (\<lambda>b. rbind (rfilter p xs) (\<lambda>ys. Inr (if b then x # ys else ys)))"

fun rsome :: "('a \<Rightarrow> bool result) \<Rightarrow> 'a list \<Rightarrow> bool result" where
  "rsome p [] = Inr False"
| "rsome p (x # xs) = rbind (p x) (\<lambda>b. if b then Inr True else rsome p xs)"

lemma rfilter_Inr:
  "rfilter p xs = Inr ys \<Longrightarrow> ys = filter (\<lambda>x. p x = Inr True) xs \<and> (\<forall>x\<in>set xs. \<exists>b. p x = Inr b)"
proof (induction xs arbitrary: ys)
  case (Cons x xs)
  then obtain b zs where "p x = Inr b" "rfilter p xs = Inr zs" "ys = (if b then x # zs else zs)"
    by (auto simp: rbind_Inr_iff)
  with Cons.IH [of zs] show ?case by simp
qed simp

lemma rsome_Inr:
  "(\<forall>x\<in>set xs. p x = Inr (q x)) \<Longrightarrow> rsome p xs = Inr (list_ex q xs)"
  by (induction xs) auto

subsection \<open>\<open>JSON.stringify(value, null, 2)\<close>\<close>

definition hex_digit :: "nat \<Rightarrow> cunit" where
  "hex_digit n = (if n < 10 then 48 + n else 87 + n)"

definition unicode_escape :: "cunit \<Rightarrow> jstr" where
  "unicode_escape c = [92, 117, hex_digit (c div 4096 mod 16), hex_digit (c div 256 mod 16),
     hex_digit (c div 16 mod 16), hex_digit (c mod 16)]"

text \<open>Lone surrogates are written as escapes, pairs as they are.\<close>

definition high_surrogate :: "cunit \<Rightarrow> bool" where
  "high_surrogate c \<longleftrightarrow> 0xD800 \<le> c \<and> c \<le> 0xDBFF"

definition low_surrogate :: "cunit \<Rightarrow> bool" where
  "low_surrogate c \<longleftrightarrow> 0xDC00 \<le> c \<and> c \<le> 0xDFFF"

definition quote_unit :: "cunit \<Rightarrow> jstr" where
  "quote_unit c =
     (if c = 34 then [92, 34] else if c = 92 then [92, 92]
      else if c = 8 then [92, 98] else if c = 12 then [92, 102] else if c = 10 then [92, 110]
      else if c = 13 then [92, 114] else if c = 9 then [92, 116]
      else if c < 32 \<or> high_surrogate c \<or> low_surrogate c then unicode_escape c
      else [c])"

fun quote_units :: "jstr \<Rightarrow> jstr" where
  "quote_units [] = []"
| "quote_units [c] = quote_unit c"
| "quote_units (c # d # s) =
     (if high_surrogate c \<and> low_surrogate d then c # d # quote_units s
      else quote_unit c @ quote_units (d # s))"

definition json_quote :: "jstr \<Rightarrow> jstr" where
  "json_quote s = [34] @ quote_units s @ [34]"

fun stringify :: "nat \<Rightarrow> json \<Rightarrow> jstr" where
  "stringify ind JNull = js ''null''"
| "stringify ind (JBool b) = (if b then js ''true'' else js ''false'')"
| "stringify ind (JNum n) = js_int n"
| "stringify ind (JStr s) = json_quote s"
| "stringify ind (JArr xs) =
     (if xs = [] then js ''[]''
      else [91, 10] @ js_join [44, 10] (map (\<lambda>x. replicate (ind + 2) 32 @ stringify (ind + 2) x) xs)
        @ [10] @ replicate ind 32 @ [93])"
| "stringify ind (JObj kvs) =
     (if kvs = [] then js ''{}''
      else [123, 10] @ js_join [44, 10]
          (map (\<lambda>(k, v). replicate (ind + 2) 32 @ json_quote k @ js '': '' @ stringify (ind + 2) v) kvs)
        @ [10] @ replicate ind 32 @ [125])"

text \<open>A quoted text holds no control unit, so it stays on its line.\<close>

lemma hex_digit_ge: "32 \<le> hex_digit n"
  by (simp add: hex_digit_def)

lemma unicode_escape_safe: "c \<in> set (unicode_escape d) \<Longrightarrow> 32 \<le> c"
  by (auto simp: unicode_escape_def hex_digit_ge)

lemma quote_unit_safe: "c \<in> set (quote_unit d) \<Longrightarrow> 32 \<le> c"
  by (auto simp: quote_unit_def dest: unicode_escape_safe split: if_splits)

lemma quote_units_no_control: "c \<in> set (quote_units s) \<Longrightarrow> 32 \<le> c"
  by (induction s rule: quote_units.induct)
    (auto simp: high_surrogate_def low_surrogate_def split: if_splits dest: quote_unit_safe)

end
