(* ===== verification/TriageMain.thy ===== *)
theory TriageMain
  imports TriageMatch JsJson
begin

text \<open>
  The command line, the GitHub side and the main program of
  \<open>.squad/templates/ralph-triage.js\<close>: argument parsing, the remote URL, the paged issue list,
  the untriaged filter and \<open>main\<close>. The operating system and GitHub are the record \<open>env\<close>; a thrown
  error is \<open>Inl\<close>, and a loop that need not end answers \<open>None\<close> when it does not.
\<close>

subsection \<open>Arguments\<close>

datatype args_result = Args jstr jstr | Help | BadArgs js_error

text \<open>
  The loop of \<open>parseArgs\<close>; a value that is missing at the end of \<open>argv\<close> is \<open>undefined\<close>
  (\<open>None\<close>), which the checks after the loop refuse as they refuse the empty text.
\<close>

fun args_loop :: "jstr option \<Rightarrow> jstr option \<Rightarrow> jstr list \<Rightarrow> args_result" where
  "args_loop squadDir output [] =
     (case squadDir of
        None \<Rightarrow> BadArgs (Error (js ''--squad-dir requires a value''))
      | Some sd \<Rightarrow>
          if sd = [] then BadArgs (Error (js ''--squad-dir requires a value''))
          else (case output of
              None \<Rightarrow> BadArgs (Error (js ''--output requires a value''))
            | Some out \<Rightarrow>
                if out = [] then BadArgs (Error (js ''--output requires a value'')) else Args sd out))"
| "args_loop squadDir output (arg # rest) =
     (if arg = js ''--squad-dir'' then
        (case rest of [] \<Rightarrow> args_loop None output [] | v # rest' \<Rightarrow> args_loop (Some v) output rest')
      else if arg = js ''--output'' then
        (case rest of [] \<Rightarrow> args_loop squadDir None [] | v # rest' \<Rightarrow> args_loop squadDir (Some v) rest')
      else if arg = js ''--help'' \<or> arg = js ''-h'' then Help
      else BadArgs (Error (js ''Unknown argument: '' @ arg)))"

definition parseArgs :: "jstr list \<Rightarrow> args_result" where
  "parseArgs argv = args_loop (Some (js ''.squad'')) (Some (js ''triage-results.json'')) argv"

subsection \<open>The remote\<close>

definition ssh_remote_re :: re where
  "ssh_remote_re = seqs [Bol, lit (js ''git@''), plus1 (none_of '':''), chc CHR '':'',
     Group 1 (plus1 (none_of ''/'')), chc CHR ''/'',
     Group 2 (Rep False (Suc 0) None AnyChar), opt (lit (js ''.git'')), Eol]"

text \<open>
  \<open>urlPathname u\<close> is \<open>new URL(u).pathname\<close> of the host, \<open>None\<close> where the constructor throws.
\<close>

definition parseOwnerRepoFromRemote :: "(jstr \<Rightarrow> jstr option) \<Rightarrow> jstr \<Rightarrow> (jstr \<times> jstr) result" where
  "parseOwnerRepoFromRemote urlPathname remoteUrl =
     (let failure = Inl (Error (js ''Unable to parse owner/repo from remote URL: '' @ remoteUrl)) in
      case re_exec False ssh_remote_re remoteUrl of
        Some cs \<Rightarrow> Inr (by_group 1 [] cs, by_group 2 [] cs)
      | None \<Rightarrow>
          if js_starts_with remoteUrl (js ''http://'') \<or> js_starts_with remoteUrl (js ''https://'')
             \<or> js_starts_with remoteUrl (js ''ssh://'')
          then (case urlPathname remoteUrl of
                  None \<Rightarrow> Inl TypeError
                | Some pathname \<Rightarrow>
                    (let parts = js_split (of_char CHR ''/'')
                           (re_replace False (Seq (lit (js ''.git'')) Eol) (by_text [])
                             (re_replace False (Seq Bol (plus1 (one_of ''/''))) (by_text []) pathname))
                     in (case parts of
                           owner # repo # _ \<Rightarrow> Inr (owner, repo)
                         | _ \<Rightarrow> failure)))
          else failure)"

subsection \<open>GitHub\<close>

datatype http_result = Response "nat option" jstr | RequestError js_error

text \<open>\<open>jsonParse\<close> is \<open>JSON.parse\<close>: the message of its error, or the value.\<close>

definition githubRequestJson :: "(jstr \<Rightarrow> jstr + json) \<Rightarrow> http_result \<Rightarrow> json result" where
  "githubRequestJson jsonParse res =
     (case res of
        RequestError e \<Rightarrow> Inl e
      | Response statusCode body \<Rightarrow>
          (let code = (case statusCode of None \<Rightarrow> 500 | Some n \<Rightarrow> if n = 0 then 500 else n);
               shown = (case statusCode of None \<Rightarrow> js ''undefined'' | Some n \<Rightarrow> js_nat n) in
           if code \<ge> 400 then Inl (Error (js ''GitHub API '' @ shown @ js '': '' @ body))
           else (case jsonParse body of
                   Inl msg \<Rightarrow> Inl (Error (js ''Failed to parse GitHub response: '' @ msg))
                 | Inr j \<Rightarrow> Inr j)))"

definition issues_path :: "jstr \<Rightarrow> jstr \<Rightarrow> nat \<Rightarrow> jstr" where
  "issues_path owner repo page =
     js ''/repos/'' @ owner @ js ''/'' @ repo @ js ''/issues?state=open&labels=squad&per_page=100&page='' @ js_nat page"

definition perPage :: nat where
  "perPage = 100"

text \<open>The \<open>for (;;)\<close> loop over the pages; \<open>request page\<close> is the awaited answer of a page.\<close>

partial_function (option) fetch_loop :: "(nat \<Rightarrow> json result) \<Rightarrow> json list \<Rightarrow> nat \<Rightarrow> json list result option" where
  "fetch_loop request all page =
     (case request page of
        Inl e \<Rightarrow> Some (Inl e)
      | Inr issues \<Rightarrow>
          (case issues of
             JArr xs \<Rightarrow>
               if length xs = 0 then Some (Inr all)
               else if length xs < perPage then Some (Inr (all @ xs))
               else fetch_loop request (all @ xs) (page + 1)
           | _ \<Rightarrow> Some (Inr all)))"

declare fetch_loop.simps [code]

definition fetchSquadIssues :: "(jstr \<Rightarrow> http_result) \<Rightarrow> (jstr \<Rightarrow> jstr + json) \<Rightarrow> jstr \<Rightarrow> jstr \<Rightarrow> json list result option" where
  "fetchSquadIssues api jsonParse owner repo =
     fetch_loop (\<lambda>page. githubRequestJson jsonParse (api (issues_path owner repo page))) [] 1"

subsection \<open>Labels\<close>

definition label_name :: "json \<Rightarrow> json option" where
  "label_name label = (case label of
       JStr s \<Rightarrow> Some (JStr s)
     | JObj kvs \<Rightarrow> map_of kvs (js ''name'')
     | _ \<Rightarrow> None)"

definition label_is :: "jstr \<Rightarrow> json \<Rightarrow> bool" where
  "label_is target label =
     (truthy (Some label) \<and>
      (case label_name label of Some (JStr name) \<Rightarrow> js_lower name = target | _ \<Rightarrow> False))"

definition issueHasLabel :: "json \<Rightarrow> jstr \<Rightarrow> bool result" where
  "issueHasLabel issue labelName =
     rbind (getp issue (js ''labels'')) (\<lambda>ls.
       if truthy ls
       then (case ls of Some (JArr labels) \<Rightarrow> Inr (list_ex (label_is (js_lower labelName)) labels)
                      | _ \<Rightarrow> Inl TypeError)
       else Inr False)"

definition isUntriagedIssue :: "json \<Rightarrow> jstr list \<Rightarrow> bool result" where
  "isUntriagedIssue issue memberLabels =
     rbind (getp issue (js ''pull_request'')) (\<lambda>pr.
       if truthy pr then Inr False
       else rbind (issueHasLabel issue (js ''squad'')) (\<lambda>squad.
         if \<not> squad then Inr False
         else rbind (rsome (issueHasLabel issue) memberLabels) (\<lambda>some. Inr (\<not> some))))"

subsection \<open>The main program\<close>

record env =
  argv :: "jstr list"
  githubToken :: "jstr option"
  resolve :: "jstr \<Rightarrow> jstr"
  readFile :: "jstr \<Rightarrow> jstr \<Rightarrow> jstr result"
  gitRemote :: "jstr result"
  urlPathname :: "jstr \<Rightarrow> jstr option"
  api :: "jstr \<Rightarrow> jstr \<Rightarrow> http_result"
  jsonParse :: "jstr \<Rightarrow> jstr + json"
  writeFile :: "jstr \<Rightarrow> jstr \<Rightarrow> js_error option"

record triage_result =
  issueNumber :: "json option"
  assignTo :: jstr
  rlabel :: jstr
  rreason :: jstr
  rsource :: jstr

text \<open>\<open>issue.k || ''\<close> of an issue, which the untriaged filter has already read from.\<close>

definition text_prop :: "json \<Rightarrow> jstr \<Rightarrow> jstr result" where
  "text_prop issue k =
     rbind (getp issue k) (\<lambda>v. Inr (case v of None \<Rightarrow> [] | Some j \<Rightarrow> if truthy v then json_text j else []))"

definition issue_decision ::
  "routing_rule list \<Rightarrow> module_owner list \<Rightarrow> member list \<Rightarrow> json \<Rightarrow> triage_result option result" where
  "issue_decision rules modules roster issue =
     rbind (text_prop issue (js ''title'')) (\<lambda>title.
     rbind (text_prop issue (js ''body'')) (\<lambda>body.
     rbind (getp issue (js ''number'')) (\<lambda>number.
       Inr (map_option (\<lambda>d. \<lparr>issueNumber = number, assignTo = mname (agent d), rlabel = mlabel (agent d),
              rreason = reason d, rsource = source_text (dsource d)\<rparr>)
            (triageIssue title body rules modules roster)))))"

fun decide_all ::
  "routing_rule list \<Rightarrow> module_owner list \<Rightarrow> member list \<Rightarrow> json list \<Rightarrow> triage_result list result" where
  "decide_all rules modules roster [] = Inr []"
| "decide_all rules modules roster (issue # issues) =
     rbind (issue_decision rules modules roster issue) (\<lambda>d.
     rbind (decide_all rules modules roster issues) (\<lambda>rs.
       Inr (case d of None \<Rightarrow> rs | Some r \<Rightarrow> r # rs)))"

definition triage_results ::
  "routing_rule list \<Rightarrow> module_owner list \<Rightarrow> member list \<Rightarrow> json list \<Rightarrow> triage_result list result" where
  "triage_results rules modules roster issues =
     rbind (rfilter (\<lambda>issue. isUntriagedIssue issue (map mlabel roster)) issues)
       (decide_all rules modules roster)"

definition result_json :: "triage_result \<Rightarrow> json" where
  "result_json r = JObj
     ((case issueNumber r of None \<Rightarrow> [] | Some n \<Rightarrow> [(js ''issueNumber'', n)])
      @ [(js ''assignTo'', JStr (assignTo r)), (js ''label'', JStr (rlabel r)),
         (js ''reason'', JStr (rreason r)), (js ''source'', JStr (rsource r))])"

definition output_text :: "triage_result list \<Rightarrow> jstr" where
  "output_text rs = stringify 0 (JArr (map result_json rs)) @ [10]"

text \<open>
  How a run ends: usage printed and exit 0, the results written to a path and exit 0, or the message
  on standard error and exit 1. \<open>None\<close> is a run that never ends.
\<close>

datatype outcome = PrintedUsage | Wrote jstr jstr | Exit1 js_error

definition finish_run :: "env \<Rightarrow> jstr \<Rightarrow> triage_result list result \<Rightarrow> outcome" where
  "finish_run e outputArg decided =
     (case decided of
        Inl err \<Rightarrow> Exit1 err
      | Inr results \<Rightarrow>
          (let outputPath = resolve e outputArg; content = output_text results in
           case writeFile e outputPath content of
             Some err \<Rightarrow> Exit1 err
           | None \<Rightarrow> Wrote outputPath content))"

definition main_steps :: "env \<Rightarrow> jstr \<Rightarrow> jstr \<Rightarrow> jstr \<Rightarrow> outcome option" where
  "main_steps e squadDirArg outputArg token =
     (let squadDir = resolve e squadDirArg in
      case readFile e squadDir (js ''team.md'') of
        Inl err \<Rightarrow> Some (Exit1 err)
      | Inr teamMd \<Rightarrow>
     (case readFile e squadDir (js ''routing.md'') of
        Inl err \<Rightarrow> Some (Exit1 err)
      | Inr routingMd \<Rightarrow>
     (let roster = parseRoster teamMd;
          rules = parseRoutingRules routingMd;
          modules = parseModuleOwnership routingMd in
      case rbind (gitRemote e) (\<lambda>url. parseOwnerRepoFromRemote (urlPathname e) (js_trim url)) of
        Inl err \<Rightarrow> Some (Exit1 err)
      | Inr (owner, repo) \<Rightarrow>
          map_option (\<lambda>fetched. finish_run e outputArg (rbind fetched (triage_results rules modules roster)))
            (fetchSquadIssues (api e token) (jsonParse e) owner repo))))"

definition main :: "env \<Rightarrow> outcome option" where
  "main e =
     (case parseArgs (argv e) of
        Help \<Rightarrow> Some PrintedUsage
      | BadArgs err \<Rightarrow> Some (Exit1 err)
      | Args squadDirArg outputArg \<Rightarrow>
          (case githubToken e of
             None \<Rightarrow> Some (Exit1 (Error (js ''GITHUB_TOKEN is required'')))
           | Some token \<Rightarrow>
               if token = [] then Some (Exit1 (Error (js ''GITHUB_TOKEN is required'')))
               else main_steps e squadDirArg outputArg token))"

subsection \<open>Arguments: properties\<close>

datatype flag = SquadDir jstr | Output jstr

fun flag_args :: "flag \<Rightarrow> jstr list" where
  "flag_args (SquadDir v) = [js ''--squad-dir'', v]"
| "flag_args (Output v) = [js ''--output'', v]"

fun last_flags :: "jstr \<Rightarrow> jstr \<Rightarrow> flag list \<Rightarrow> jstr \<times> jstr" where
  "last_flags sd out [] = (sd, out)"
| "last_flags sd out (SquadDir v # fs) = last_flags v out fs"
| "last_flags sd out (Output v # fs) = last_flags sd v fs"

text \<open>
  A command line made of \<open>--squad-dir\<close> and \<open>--output\<close> flags with their values, in any order
  and number, is accepted with the last value of each flag, or its default, unless one of these is
  empty, in which case it is refused.
\<close>

theorem parseArgs_flags:
  "parseArgs (concat (map flag_args fs)) =
     (case last_flags (js ''.squad'') (js ''triage-results.json'') fs of (sd, out) \<Rightarrow>
        if sd = [] then BadArgs (Error (js ''--squad-dir requires a value''))
        else if out = [] then BadArgs (Error (js ''--output requires a value''))
        else Args sd out)"
proof -
  have "args_loop (Some sd) (Some out) (concat (map flag_args fs)) =
     (case last_flags sd out fs of (sd, out) \<Rightarrow>
        if sd = [] then BadArgs (Error (js ''--squad-dir requires a value''))
        else if out = [] then BadArgs (Error (js ''--output requires a value''))
        else Args sd out)" for sd out
    by (induction sd out fs rule: last_flags.induct) simp_all
  then show ?thesis by (simp add: parseArgs_def)
qed

subsection \<open>The ssh remote: properties\<close>

definition git_host_name :: "jstr \<Rightarrow> bool" where
  "git_host_name host \<longleftrightarrow> host \<noteq> [] \<and> of_char CHR '':'' \<notin> set host"

lemma ssh_remote_exec:
  assumes "git_host_name host" "owner \<noteq> []" "of_char CHR ''/'' \<notin> set owner"
    and "repo \<noteq> []" "\<forall>c\<in>set repo. \<not> is_line_end c"
    and "sfx = js ''.git'' \<or> sfx = [] \<and> \<not> suffix (js ''.git'') repo"
  shows "re_exec False ssh_remote_re (js ''git@'' @ host @ js '':'' @ owner @ js ''/'' @ repo @ sfx) =
    Some [(2, repo), (1, owner)]"
proof -
  let ?q = "seqs [Group 2 (Rep False (Suc 0) None AnyChar), opt (lit (js ''.git'')), Eol]"
  let ?b = "of_char CHR ''/'' # rev owner @ of_char CHR '':'' # rev host @ rev (js ''git@'')"
  have host: "list_all (in_cls False True (units '':'')) host" "\<not> in_cls False True (units '':'') (of_char CHR '':'')" "host \<noteq> []"
    and own: "list_all (in_cls False True (units ''/'')) owner" "\<not> in_cls False True (units ''/'') (of_char CHR ''/'')"
    using assms(1-3) by (auto simp: git_host_name_def list_all_iff js_simps)
  have start: "re_match False (seqs [lit (js ''git@''), plus1 (none_of '':''), chc CHR '':'',
     Group 1 (plus1 (none_of ''/'')), chc CHR ''/'', Group 2 (Rep False (Suc 0) None AnyChar), opt (lit (js ''.git'')), Eol])
      ([], js ''git@'' @ (host @ of_char CHR '':'' # owner @ of_char CHR ''/'' # repo @ sfx), []) =
      re_match False ?q (?b, repo @ sfx, [(1, owner)])"
    unfolding seqs.simps re_match_lit_seq re_match_run_group(1) [OF host(1,3,2)] re_match_run_group(2) [OF own(1) assms(2) own(2)]
    by (simp only: append_Nil2)
  let ?h = "\<lambda>k. re_match False (Seq (opt (lit (js ''.git''))) (Seq Eol Eps))
      (rev (take k (repo @ sfx)) @ ?b, drop k (repo @ sfx), [(2, take k (repo @ sfx)), (1, owner)])"
  let ?n = "length (takeWhile (\<lambda>c. \<not> is_line_end c) (repo @ sfx))"
  have "\<forall>c\<in>set sfx. \<not> is_line_end c" using assms(6) by (auto simp: js_simps is_line_end_def)
  then have "takeWhile (\<lambda>c. \<not> is_line_end c) (repo @ sfx) = repo @ sfx"
    using assms(5) by (auto simp: takeWhile_eq_all_conv)
  then have n: "?n = length repo + length sfx" by (simp only: length_append)
  have "?h k = []" if "Suc 0 \<le> k" "k < length repo" for k
  proof -
    have "drop k repo \<noteq> []" using that by simp
    moreover have "drop k repo @ sfx \<noteq> js ''.git''"
      using assms(6) \<open>drop k repo \<noteq> []\<close> suffix_drop [of k repo] by auto
    ultimately have "drop k (repo @ sfx) \<noteq> []" "drop k (repo @ sfx) \<noteq> js ''.git''"
      using that by simp_all
    then show ?thesis unfolding re_match_git_end by simp
  qed
  then have "concat (map ?h [Suc 0..<Suc ?n]) = ?h (length repo) @ concat (map ?h [Suc (length repo)..<Suc ?n])"
    using assms(4) n by (intro concat_map_hit) (auto simp: Suc_le_eq)
  moreover have "?h (length repo) = [(rev (repo @ sfx) @ ?b, [], [(2, repo), (1, owner)])]"
    using assms(6) unfolding re_match_git_end by auto
  moreover have "re_match False ?q (?b, repo @ sfx, [(1, owner)]) = concat (map ?h [Suc 0..<Suc ?n])"
    unfolding seqs.simps by (subst re_match.simps(4)) (simp only: re_match_group_lazy_dot1 map_map comp_def)
  ultimately show ?thesis
    using start by (simp add: ssh_remote_re_def re_exec_Bol js_simps)
qed

text \<open>
  The two ways in which git writes an ssh remote, with and without the \<open>.git\<close> suffix, give the
  owner and the repository back.
\<close>

theorem parseOwnerRepoFromRemote_ssh:
  assumes "git_host_name host" "owner \<noteq> []" "of_char CHR ''/'' \<notin> set owner"
    and "repo \<noteq> []" "\<forall>c\<in>set repo. \<not> is_line_end c"
    and "sfx = js ''.git'' \<or> sfx = [] \<and> \<not> suffix (js ''.git'') repo"
  shows "parseOwnerRepoFromRemote url (js ''git@'' @ host @ js '':'' @ owner @ js ''/'' @ repo @ sfx) =
    Inr (owner, repo)"
  using ssh_remote_exec [OF assms] by (simp add: parseOwnerRepoFromRemote_def by_group_def cap_def)

subsection \<open>The paged issue list: properties\<close>

text \<open>GitHub's documented paging: page \<open>k\<close> holds the \<open>k\<close>-th block of 100.\<close>

definition pages_of :: "json list \<Rightarrow> nat \<Rightarrow> json list" where
  "pages_of issues page = take perPage (drop (perPage * (page - 1)) issues)"

definition serves :: "(nat \<Rightarrow> json result) \<Rightarrow> json list \<Rightarrow> bool" where
  "serves request issues \<longleftrightarrow> (\<forall>page\<ge>1. request page = Inr (JArr (pages_of issues page)))"

lemma fetch_loop_serves:
  assumes "serves request issues"
  shows "perPage * k \<le> length issues \<Longrightarrow>
    fetch_loop request (take (perPage * k) issues) (Suc k) = Some (Inr issues)"
proof (induction "length issues - perPage * k" arbitrary: k rule: less_induct)
  case less
  have page: "request (Suc k) = Inr (JArr (take perPage (drop (perPage * k) issues)))"
    using assms by (simp add: serves_def pages_of_def)
  have app: "take (perPage * k) issues @ take perPage (drop (perPage * k) issues) = take (perPage * Suc k) issues"
    by (simp add: take_add [symmetric] add.commute)
  show ?case
  proof (cases "length issues < perPage * Suc k")
    case True
    then have "length (take perPage (drop (perPage * k) issues)) < perPage" by (simp add: perPage_def)
    moreover from True have "take (perPage * Suc k) issues = issues" by simp
    ultimately show ?thesis
      using less.prems app page by (subst fetch_loop.simps) auto
  next
    case False
    then have "length (take perPage (drop (perPage * k) issues)) = perPage" by (simp add: perPage_def)
    moreover have "fetch_loop request (take (perPage * Suc k) issues) (Suc (Suc k)) = Some (Inr issues)"
      by (rule less.hyps) (use False in \<open>auto simp: perPage_def\<close>)
    ultimately show ?thesis
      using app page by (subst fetch_loop.simps) (simp add: perPage_def)
  qed
qed

text \<open>
  C8: The issue loop terminates with every issue, in order and without repetition, whenever GitHub
  serves the open squad issues in pages of 100, also when their number is a multiple of 100 (the loop
  then asks for one more, empty page).
\<close>

theorem fetch_loop_complete:
  assumes "serves request issues"
  shows "fetch_loop request [] 1 = Some (Inr issues)"
  using fetch_loop_serves [OF assms, of 0] by simp

text \<open>
  A failed page loses nothing silently: if the pages before it are full and page \<open>k + 1\<close> answers
  with an error, the whole fetch ends with that error and no issue is returned.
\<close>

theorem fetch_loop_error:
  assumes "\<And>page. 1 \<le> page \<Longrightarrow> page \<le> k \<Longrightarrow> \<exists>xs. request page = Inr (JArr xs) \<and> perPage \<le> length xs"
    and "request (Suc k) = Inl e"
  shows "fetch_loop request [] 1 = Some (Inl e)"
proof -
  have "j \<le> k \<Longrightarrow> fetch_loop request all (Suc (k - j)) = Some (Inl e)" for j all
  proof (induction j arbitrary: all)
    case 0
    then show ?case using assms(2) by (subst fetch_loop.simps) simp
  next
    case (Suc j)
    then have "1 \<le> Suc (k - Suc j)" "Suc (k - Suc j) \<le> k" by auto
    with assms(1) obtain xs where "request (Suc (k - Suc j)) = Inr (JArr xs)" "perPage \<le> length xs" by blast
    moreover have "Suc (Suc (k - Suc j)) = Suc (k - j)" using Suc.prems by simp
    ultimately show ?case
      using Suc.IH [of "all @ xs"] Suc.prems by (subst fetch_loop.simps) (auto simp: perPage_def)
  qed
  from this [of k "[]"] show ?thesis by simp
qed

text \<open>
  The loop has no bound of its own: against a server that answers every page with a full one, the
  fetch never returns.
\<close>

theorem fetch_loop_endless:
  assumes "\<And>page. \<exists>xs. request page = Inr (JArr xs) \<and> perPage \<le> length xs"
  shows "fetch_loop request all page = None"
proof (rule ccontr)
  assume "fetch_loop request all page \<noteq> None"
  then obtain r where r: "fetch_loop request all page = Some r" by blast
  have "\<not> (\<forall>p. \<exists>xs. request p = Inr (JArr xs) \<and> perPage \<le> length xs)"
  proof (rule fetch_loop.raw_induct [where P = "\<lambda>request all page y.
      \<not> (\<forall>p. \<exists>xs. request p = Inr (JArr xs) \<and> perPage \<le> length xs)", OF _ r], rule notI)
    fix f :: "(nat \<Rightarrow> json result) \<Rightarrow> json list \<Rightarrow> nat \<Rightarrow> json list result option"
      and request :: "nat \<Rightarrow> json result" and all page y
    assume IH: "\<And>request all page y. f request all page = Some y \<Longrightarrow>
        \<not> (\<forall>p. \<exists>xs. request p = Inr (JArr xs) \<and> perPage \<le> length xs)"
      and eq: "(case request page of
        Inl e \<Rightarrow> Some (Inl e)
      | Inr (JArr xs) \<Rightarrow> if length xs = 0 then Some (Inr all)
          else if length xs < perPage then Some (Inr (all @ xs)) else f request (all @ xs) (page + 1)
      | Inr _ \<Rightarrow> Some (Inr all)) = Some y"
      and full: "\<forall>p. \<exists>xs. request p = Inr (JArr xs) \<and> perPage \<le> length xs"
    from full obtain xs where "request page = Inr (JArr xs)" "perPage \<le> length xs" by blast
    moreover from this have "length xs \<noteq> 0" "\<not> length xs < perPage" by (auto simp: perPage_def)
    ultimately have "f request (all @ xs) (page + 1) = Some y" using eq by simp
    with IH full show False by blast
  qed
  with assms show False by blast
qed

subsection \<open>The untriaged filter: properties\<close>

text \<open>The label names of an issue as the filter compares them, in lower case.\<close>

definition label_names :: "json \<Rightarrow> jstr list" where
  "label_names label = (if truthy (Some label) then
     (case label_name label of Some (JStr name) \<Rightarrow> [js_lower name] | _ \<Rightarrow> []) else [])"

definition names_of :: "json option \<Rightarrow> jstr list" where
  "names_of ls = (case ls of Some (JArr labels) \<Rightarrow> concat (map label_names labels) | _ \<Rightarrow> [])"

text \<open>An issue as GitHub sends it: an object whose labels are a list, absent or empty.\<close>

definition wf_issue :: "json \<Rightarrow> bool" where
  "wf_issue issue \<longleftrightarrow> (\<exists>kvs. issue = JObj kvs \<and>
     (truthy (map_of kvs (js ''labels'')) \<longrightarrow> (\<exists>labels. map_of kvs (js ''labels'') = Some (JArr labels))))"

definition field :: "json \<Rightarrow> jstr \<Rightarrow> json option" where
  "field issue k = (case issue of JObj kvs \<Rightarrow> map_of kvs k | _ \<Rightarrow> None)"

definition untriaged :: "jstr list \<Rightarrow> json \<Rightarrow> bool" where
  "untriaged memberLabels issue \<longleftrightarrow> \<not> truthy (field issue (js ''pull_request''))
     \<and> js ''squad'' \<in> set (names_of (field issue (js ''labels'')))
     \<and> (\<forall>l\<in>set memberLabels. js_lower l \<notin> set (names_of (field issue (js ''labels''))))"

lemma label_is_names: "label_is t label \<longleftrightarrow> t \<in> set (label_names label)"
proof (cases "truthy (Some label)")
  case True
  then show ?thesis
    by (cases "label_name label"; simp add: label_is_def label_names_def)
      (auto split: json.splits)
qed (simp add: label_is_def label_names_def)

lemma issueHasLabel_names:
  assumes "wf_issue issue"
  shows "issueHasLabel issue l = Inr (js_lower l \<in> set (names_of (field issue (js ''labels''))))"
proof -
  obtain kvs where kvs: "issue = JObj kvs"
    and ls: "truthy (map_of kvs (js ''labels'')) \<Longrightarrow> \<exists>labels. map_of kvs (js ''labels'') = Some (JArr labels)"
    using assms by (auto simp: wf_issue_def)
  show ?thesis
  proof (cases "truthy (map_of kvs (js ''labels''))")
    case True
    with ls obtain labels where "map_of kvs (js ''labels'') = Some (JArr labels)" by blast
    with True kvs show ?thesis
      by (simp add: issueHasLabel_def getp_def field_def names_of_def list_ex_iff label_is_names)
  next
    case False
    with kvs show ?thesis
      by (auto simp: issueHasLabel_def getp_def field_def names_of_def truthy_def split: option.splits json.splits)
  qed
qed

lemma isUntriagedIssue_wf:
  assumes "wf_issue issue"
  shows "isUntriagedIssue issue memberLabels = Inr (untriaged memberLabels issue)"
proof -
  obtain kvs where kvs: "issue = JObj kvs" using assms by (auto simp: wf_issue_def)
  have "js_lower (js ''squad'') = js ''squad''" by code_simp
  moreover have "rsome (issueHasLabel issue) memberLabels =
      Inr (list_ex (\<lambda>l. js_lower l \<in> set (names_of (field issue (js ''labels'')))) memberLabels)"
    by (rule rsome_Inr) (simp add: issueHasLabel_names assms)
  ultimately show ?thesis
    using kvs issueHasLabel_names [OF assms, of "js ''squad''"]
    by (auto simp: isUntriagedIssue_def untriaged_def getp_def field_def list_ex_iff)
qed

text \<open>
  The filter keeps exactly the issues (no pull requests) that carry the \<open>squad\<close> label and none
  of the members' labels, comparing labels without regard to case.
\<close>

theorem isUntriagedIssue_iff:
  assumes "wf_issue issue"
  shows "isUntriagedIssue issue memberLabels = Inr (untriaged memberLabels issue)"
  by (rule isUntriagedIssue_wf [OF assms])

subsection \<open>The results: properties\<close>

text \<open>What one issue contributes, for an issue object.\<close>

definition text_of :: "json \<Rightarrow> jstr \<Rightarrow> jstr" where
  "text_of issue k = (case field issue k of None \<Rightarrow> [] | Some j \<Rightarrow> if truthy (Some j) then json_text j else [])"

definition result_of ::
  "routing_rule list \<Rightarrow> module_owner list \<Rightarrow> member list \<Rightarrow> json \<Rightarrow> triage_result option" where
  "result_of rules modules roster issue =
     map_option (\<lambda>d. \<lparr>issueNumber = field issue (js ''number''), assignTo = mname (agent d),
          rlabel = mlabel (agent d), rreason = reason d, rsource = source_text (dsource d)\<rparr>)
       (triageIssue (text_of issue (js ''title'')) (text_of issue (js ''body'')) rules modules roster)"

lemma issue_decision_result_of:
  assumes "wf_issue issue"
  shows "issue_decision rules modules roster issue = Inr (result_of rules modules roster issue)"
proof -
  obtain kvs where "issue = JObj kvs" using assms by (auto simp: wf_issue_def)
  then show ?thesis
    by (auto simp: issue_decision_def result_of_def text_prop_def text_of_def field_def getp_def split: option.splits)
qed

lemma decide_all_results:
  assumes "\<forall>issue\<in>set issues. wf_issue issue"
  shows "decide_all rules modules roster issues = Inr (List.map_filter (result_of rules modules roster) issues)"
  using assms by (induction issues) (auto simp: issue_decision_result_of List.map_filter_def split: option.splits)

lemma rfilter_total: "\<forall>x\<in>set xs. p x = Inr (q x) \<Longrightarrow> rfilter p xs = Inr (filter q xs)"
  by (induction xs) auto

definition triaged ::
  "routing_rule list \<Rightarrow> module_owner list \<Rightarrow> member list \<Rightarrow> json list \<Rightarrow> triage_result list" where
  "triaged rules modules roster issues =
     List.map_filter (result_of rules modules roster) (filter (untriaged (map mlabel roster)) issues)"

lemma triage_results_wf:
  assumes "\<forall>issue\<in>set issues. wf_issue issue"
  shows "triage_results rules modules roster issues = Inr (triaged rules modules roster issues)"
proof -
  let ?ls = "map mlabel roster"
  have "rfilter (\<lambda>issue. isUntriagedIssue issue ?ls) issues = Inr (filter (untriaged ?ls) issues)"
    by (rule rfilter_total) (simp add: assms isUntriagedIssue_wf)
  with assms show ?thesis
    by (simp add: triage_results_def triaged_def decide_all_results)
qed

lemma decide_all_sound:
  "decide_all rules modules roster issues = Inr rs \<Longrightarrow> r \<in> set rs \<Longrightarrow>
    \<exists>issue\<in>set issues. issue_decision rules modules roster issue = Inr (Some r)"
  by (induction issues arbitrary: rs) (fastforce simp: rbind_Inr_iff split: option.splits)+

lemma issue_decision_sound:
  "issue_decision rules modules roster issue = Inr (Some r) \<Longrightarrow>
    getp issue (js ''number'') = Inr (issueNumber r)
    \<and> (\<exists>m\<in>set roster. assignTo r = mname m \<and> rlabel r = mlabel m)"
  by (auto simp: issue_decision_def rbind_Inr_iff intro: triageIssue_roster)

lemma triageIssue_lead:
  "m \<in> set roster \<Longrightarrow> leads m \<Longrightarrow> triageIssue title body rules modules roster \<noteq> None"
  using lead_lookup.pick_complete [of m roster] by (auto simp: triageIssue_def Let_def split: option.splits)

text \<open>
  Every entry of the results belongs to an issue that the filter kept and assigns it to a member
  of the roster, with that member's label, whatever GitHub sent.
\<close>

theorem triage_results_sound:
  assumes "triage_results rules modules roster issues = Inr rs" "r \<in> set rs"
  shows "\<exists>issue\<in>set issues. \<exists>m\<in>set roster. isUntriagedIssue issue (map mlabel roster) = Inr True
    \<and> getp issue (js ''number'') = Inr (issueNumber r) \<and> assignTo r = mname m \<and> rlabel r = mlabel m"
proof -
  let ?p = "\<lambda>issue. isUntriagedIssue issue (map mlabel roster)"
  obtain kept where kept: "rfilter ?p issues = Inr kept" "decide_all rules modules roster kept = Inr rs"
    using assms(1) by (auto simp: triage_results_def rbind_Inr_iff)
  from decide_all_sound [OF kept(2) assms(2)] obtain issue where
    issue: "issue \<in> set kept" "issue_decision rules modules roster issue = Inr (Some r)" by blast
  with rfilter_Inr [OF kept(1)] have "issue \<in> set issues" "?p issue = Inr True" by auto
  with issue_decision_sound [OF issue(2)] show ?thesis by blast
qed

text \<open>
  C6: With a lead or architect in the roster nothing is left over: the results are, in the order of
  the issues, one for each issue that passes the filter and none for the others.
\<close>

theorem triage_results_complete:
  assumes "\<forall>issue\<in>set issues. wf_issue issue" "m \<in> set roster" "leads m"
  shows "\<exists>rs. triage_results rules modules roster issues = Inr rs \<and>
    map issueNumber rs = map (\<lambda>issue. field issue (js ''number'')) (filter (untriaged (map mlabel roster)) issues)"
proof -
  have "\<exists>r. result_of rules modules roster issue = Some r \<and> issueNumber r = field issue (js ''number'')" for issue
    using triageIssue_lead [OF assms(2,3)] by (fastforce simp: result_of_def)
  then have "map issueNumber (List.map_filter (result_of rules modules roster) xs) =
      map (\<lambda>issue. field issue (js ''number'')) xs" for xs
  proof (induction xs)
    case (Cons x xs)
    then obtain r where "result_of rules modules roster x = Some r" "issueNumber r = field x (js ''number'')" by blast
    with Cons show ?case by (simp add: List.map_filter_def)
  qed (simp add: List.map_filter_def)
  then show ?thesis by (simp add: triage_results_wf [OF assms(1)] triaged_def)
qed

subsection \<open>Labelled issues stay decided\<close>

text \<open>An issue with one more label object, as the labels API leaves it behind.\<close>

definition with_label :: "jstr \<Rightarrow> json \<Rightarrow> json" where
  "with_label l issue = (case issue of
       JObj kvs \<Rightarrow> JObj ((js ''labels'',
           JArr ((case map_of kvs (js ''labels'') of Some (JArr ls) \<Rightarrow> ls | _ \<Rightarrow> []) @ [JObj [(js ''name'', JStr l)]])) # kvs)
     | j \<Rightarrow> j)"

lemma names_of_with_label:
  "js_lower l \<in> set (names_of (field (with_label l (JObj kvs)) (js ''labels'')))"
  by (simp add: with_label_def field_def names_of_def label_names_def truthy_def label_name_def)

lemma wf_with_label: "wf_issue issue \<Longrightarrow> wf_issue (with_label l issue)"
  by (auto simp: wf_issue_def with_label_def)

text \<open>
  C11: Triage does not fight itself: once an issue carries the label of the member that triage chose
  for it, a later run over the same roster does not pick it up again.
\<close>

theorem triage_stable:
  assumes "wf_issue issue" "result_of rules modules roster issue = Some r"
  shows "isUntriagedIssue (with_label (rlabel r) issue) (map mlabel roster) = Inr False"
proof -
  obtain kvs where kvs: "issue = JObj kvs" using assms(1) by (auto simp: wf_issue_def)
  obtain m where "m \<in> set roster" "rlabel r = mlabel m"
    using assms(2) by (force simp: result_of_def dest: triageIssue_roster)
  then have "rlabel r \<in> set (map mlabel roster)" by simp
  with names_of_with_label [of "rlabel r" kvs] have "\<not> untriaged (map mlabel roster) (with_label (rlabel r) issue)"
    unfolding kvs untriaged_def by blast
  with isUntriagedIssue_wf [OF wf_with_label [OF assms(1)]] show ?thesis by simp
qed

subsection \<open>A whole run\<close>

text \<open>The issue pages as \<open>main\<close> requests them.\<close>

definition issue_pages :: "env \<Rightarrow> jstr \<Rightarrow> jstr \<Rightarrow> jstr \<Rightarrow> nat \<Rightarrow> json result" where
  "issue_pages e token owner repo page =
     githubRequestJson (jsonParse e) (api e token (issues_path owner repo page))"

lemma fetchSquadIssues_pages:
  "fetchSquadIssues (api e token) (jsonParse e) owner repo = fetch_loop (issue_pages e token owner repo) [] 1"
  unfolding fetchSquadIssues_def issue_pages_def by (rule refl)

lemma fetchSquadIssues_serves:
  "serves (issue_pages e token owner repo) issues \<Longrightarrow>
    fetchSquadIssues (api e token) (jsonParse e) owner repo = Some (Inr issues)"
  using fetch_loop_serves [of "issue_pages e token owner repo" issues 0] by (simp add: fetchSquadIssues_pages)

text \<open>
  C4: A run with valid arguments, a token, readable team files, a GitHub remote and a GitHub that
  serves the open squad issues ends with exactly the triage of those issues, in order, written to the
  output path.
\<close>

theorem main_writes:
  assumes "parseArgs (argv e) = Args sd out" "githubToken e = Some token" "token \<noteq> []"
    and "readFile e (resolve e sd) (js ''team.md'') = Inr teamMd"
    and "readFile e (resolve e sd) (js ''routing.md'') = Inr routingMd"
    and "gitRemote e = Inr url" "parseOwnerRepoFromRemote (urlPathname e) (js_trim url) = Inr (owner, repo)"
    and "serves (issue_pages e token owner repo) issues" "\<forall>issue\<in>set issues. wf_issue issue"
    and "\<And>content. writeFile e (resolve e out) content = None"
  shows "main e = Some (Wrote (resolve e out)
    (output_text (triaged (parseRoutingRules routingMd) (parseModuleOwnership routingMd) (parseRoster teamMd) issues)))"
  using assms(1-7,10) fetchSquadIssues_serves [OF assms(8)] triage_results_wf [OF assms(9)]
  by (simp add: main_def main_steps_def finish_run_def Let_def)

text \<open>
  C5: A results file is written only by a run that had a token, read both team files, fetched the
  whole issue list and decided every issue, and it holds those decisions; every other run writes
  nothing.
\<close>

theorem main_wrote_only_if:
  assumes "main e = Some (Wrote path content)"
  shows "\<exists>sd out token teamMd routingMd owner repo issues rs.
    parseArgs (argv e) = Args sd out \<and> path = resolve e out
    \<and> githubToken e = Some token \<and> token \<noteq> []
    \<and> readFile e (resolve e sd) (js ''team.md'') = Inr teamMd
    \<and> readFile e (resolve e sd) (js ''routing.md'') = Inr routingMd
    \<and> fetch_loop (issue_pages e token owner repo) [] 1 = Some (Inr issues)
    \<and> triage_results (parseRoutingRules routingMd) (parseModuleOwnership routingMd) (parseRoster teamMd) issues = Inr rs
    \<and> content = output_text rs"
proof -
  obtain sd out token where args: "parseArgs (argv e) = Args sd out" "githubToken e = Some token" "token \<noteq> []"
    and steps: "main_steps e sd out token = Some (Wrote path content)"
    using assms by (auto simp: main_def split: args_result.splits option.splits if_splits)
  obtain teamMd routingMd where files: "readFile e (resolve e sd) (js ''team.md'') = Inr teamMd"
      "readFile e (resolve e sd) (js ''routing.md'') = Inr routingMd"
    using steps by (auto simp: main_steps_def Let_def split: sum.splits)
  with steps obtain owner repo fetched where
    fetch: "fetchSquadIssues (api e token) (jsonParse e) owner repo = Some fetched"
    and last: "finish_run e out (rbind fetched
      (triage_results (parseRoutingRules routingMd) (parseModuleOwnership routingMd) (parseRoster teamMd))) = Wrote path content"
    by (auto simp: main_steps_def Let_def split: sum.splits prod.splits)
  from last obtain issues rs where "fetched = Inr issues"
    "triage_results (parseRoutingRules routingMd) (parseModuleOwnership routingMd) (parseRoster teamMd) issues = Inr rs"
    "path = resolve e out" "content = output_text rs"
    by (auto simp: finish_run_def Let_def rbind_Inr_iff split: sum.splits option.splits)
  with args files fetch show ?thesis by (auto simp: fetchSquadIssues_pages)
qed

subsection \<open>Concrete instances\<close>

theorem parseOwnerRepoFromRemote_ssh_witness:
  "parseOwnerRepoFromRemote (\<lambda>_. None) (js ''git@github.com:me/app.git'') = Inr (js ''me'', js ''app'')"
proof -
  have "js ''git@github.com:me/app.git'' = js ''git@'' @ js ''github.com'' @ js '':'' @ js ''me'' @ js ''/'' @ js ''app'' @ js ''.git''"
    by (simp flip: js_append)
  moreover have "git_host_name (js ''github.com'')" "of_char CHR ''/'' \<notin> set (js ''me'')"
    "\<forall>c\<in>set (js ''app''). \<not> is_line_end c" by code_simp+
  ultimately show ?thesis
    by (simp only:) (rule parseOwnerRepoFromRemote_ssh, simp_all)
qed

text \<open>A server with two issues, one untriaged and one a pull request.\<close>

definition sample_issue :: json where
  "sample_issue = JObj [(js ''number'', JNum 7), (js ''title'', JStr (js ''Hi'')),
     (js ''labels'', JArr [JObj [(js ''name'', JStr (js ''Squad''))]])]"

definition sample_request :: "nat \<Rightarrow> json result" where
  "sample_request page = Inr (JArr (pages_of [sample_issue] page))"

lemma sample_serves: "serves sample_request [sample_issue]"
  by (simp add: serves_def sample_request_def)

theorem fetch_loop_complete_witness: "fetch_loop sample_request [] 1 = Some (Inr [sample_issue])"
  by (rule fetch_loop_complete [OF sample_serves])

theorem fetch_loop_error_witness:
  "fetch_loop (\<lambda>page. if page = 1 then Inr (JArr (replicate 100 JNull)) else Inl TypeError) [] 1 = Some (Inl TypeError)"
proof (rule fetch_loop_error [where k = 1])
  fix page :: nat
  assume "1 \<le> page" "page \<le> 1"
  then show "\<exists>xs. (if page = 1 then Inr (JArr (replicate 100 JNull)) else Inl TypeError) = Inr (JArr xs) \<and> perPage \<le> length xs"
    by (intro exI [of _ "replicate 100 JNull"]) (simp add: perPage_def)
qed simp

theorem fetch_loop_endless_witness:
  "fetch_loop (\<lambda>page. Inr (JArr (replicate 100 JNull))) [] 1 = None"
  by (rule fetch_loop_endless) (simp add: perPage_def)

lemma sample_wf: "wf_issue sample_issue"
  by (simp add: wf_issue_def sample_issue_def)

theorem isUntriagedIssue_iff_witness:
  "isUntriagedIssue sample_issue [js ''squad:theo''] = Inr True"
proof -
  have "untriaged [js ''squad:theo''] sample_issue" by code_simp
  with isUntriagedIssue_iff [OF sample_wf, of "[js ''squad:theo'']"] show ?thesis by simp
qed

definition lead :: member where
  "lead = \<lparr>mname = js ''Aria'', mrole = js ''Lead'', mlabel = js ''squad:aria''\<rparr>"

theorem triage_results_sound_witness:
  "\<exists>r. triage_results [] [] [lead] [sample_issue] = Inr [r]
     \<and> getp sample_issue (js ''number'') = Inr (issueNumber r) \<and> rlabel r = mlabel lead"
proof -
  have "map_option length (case triage_results [] [] [lead] [sample_issue] of Inl _ \<Rightarrow> None | Inr rs \<Rightarrow> Some rs) = Some 1"
    by code_simp
  then obtain r where r: "triage_results [] [] [lead] [sample_issue] = Inr [r]"
    by (auto simp: length_Suc_conv split: sum.splits)
  from triage_results_sound [OF this] show ?thesis using r by fastforce
qed

theorem triage_results_complete_witness:
  "\<exists>rs. triage_results [] [] [lead] [sample_issue] = Inr rs \<and> map issueNumber rs = [Some (JNum 7)]"
proof -
  have "filter (untriaged (map mlabel [lead])) [sample_issue] = [sample_issue]"
    "field sample_issue (js ''number'') = Some (JNum 7)" "leads lead" by code_simp+
  then show ?thesis
    using triage_results_complete [of "[sample_issue]" lead "[lead]" "[]" "[]"] sample_wf by simp
qed

theorem triage_stable_witness:
  "\<exists>r. result_of [] [] [lead] sample_issue = Some r
     \<and> isUntriagedIssue (with_label (rlabel r) sample_issue) [mlabel lead] = Inr False"
proof -
  have "result_of [] [] [lead] sample_issue \<noteq> None" by code_simp
  then obtain r where "result_of [] [] [lead] sample_issue = Some r" by blast
  with triage_stable [OF sample_wf this] show ?thesis by auto
qed

text \<open>A machine with the lead's team file, a remote, and a GitHub that serves that issue.\<close>

definition sample_team :: jstr where
  "sample_team = print_team [10] [] [lead] []"

definition sample_env :: env where
  "sample_env = \<lparr>argv = [], githubToken = Some (js ''t''), resolve = (\<lambda>p. p),
     readFile = (\<lambda>d f. Inr sample_team), gitRemote = Inr (js ''git@h:o/r''),
     urlPathname = (\<lambda>_. None), api = (\<lambda>t p. Response (Some 200) p),
     jsonParse = (\<lambda>s. Inr (JArr (if s = issues_path (js ''o'') (js ''r'') 1 then [sample_issue] else []))),
     writeFile = (\<lambda>p c. None)\<rparr>"

lemma issues_path_page: "issues_path owner repo page = issues_path owner repo page' \<longleftrightarrow> page = page'"
proof -
  have "js_nat page = js_nat page' \<Longrightarrow> page = page'" by (metis dec_value_js_nat)
  then show ?thesis by (auto simp: issues_path_def)
qed

lemma sample_env_serves: "serves (issue_pages sample_env token (js ''o'') (js ''r'')) [sample_issue]"
proof -
  have "pages_of [sample_issue] page = (if page = 1 then [sample_issue] else [])" if "1 \<le> page" for page
    using that by (cases "page - 1") (auto simp: pages_of_def perPage_def)
  then show ?thesis
    by (simp add: serves_def issue_pages_def githubRequestJson_def sample_env_def issues_path_page)
qed

lemma sample_parsed:
  "parseArgs (argv sample_env) = Args (js ''.squad'') (js ''triage-results.json'')"
  "rbind (gitRemote sample_env) (\<lambda>url. parseOwnerRepoFromRemote (urlPathname sample_env) (js_trim url)) = Inr (js ''o'', js ''r'')"
  "parseRoutingRules sample_team = []" "parseModuleOwnership sample_team = []" "parseRoster sample_team = [lead]"
  by code_simp+

theorem main_writes_witness:
  "main sample_env = Some (Wrote (js ''triage-results.json'') (output_text (triaged [] [] [lead] [sample_issue])))"
proof -
  have "resolve sample_env p = p" "writeFile sample_env p c = None" "githubToken sample_env = Some (js ''t'')"
    "readFile sample_env d f = Inr sample_team" "gitRemote sample_env = Inr (js ''git@h:o/r'')" for p c d f
    by (simp_all add: sample_env_def)
  then show ?thesis
    using main_writes [of sample_env "js ''.squad''" "js ''triage-results.json''" "js ''t''" sample_team sample_team
        "js ''git@h:o/r''" "js ''o''" "js ''r''" "[sample_issue]"]
      sample_parsed sample_env_serves sample_wf
    by simp
qed

lemma sample_run: "\<exists>path content. main sample_env = Some (Wrote path content)"
proof -
  have "githubToken sample_env = Some (js ''t'')" "readFile sample_env d f = Inr sample_team" "writeFile sample_env p c = None" for p c d f
    by (simp_all add: sample_env_def)
  then show ?thesis
    using sample_parsed fetchSquadIssues_serves [OF sample_env_serves] triage_results_wf [of "[sample_issue]"] sample_wf
    by (simp add: main_def main_steps_def finish_run_def Let_def)
qed

theorem main_wrote_only_if_witness:
  "\<exists>issues rs path. triage_results [] [] [lead] issues = Inr rs \<and> main sample_env = Some (Wrote path (output_text rs))"
proof -
  obtain path content where run: "main sample_env = Some (Wrote path content)" using sample_run by blast
  have "readFile sample_env d f = Inr sample_team" for d f by (simp add: sample_env_def)
  with main_wrote_only_if [OF run] run show ?thesis by (auto simp: sample_parsed)
qed

end
