(* ===== verification/SiteHtml.thy ===== *)
theory SiteHtml
  imports JsRegex JsJson
begin

text \<open>
  The text and markup helpers of \<open>src/webui/wwwroot/js/site.js\<close>: \<open>escHtml\<close>, \<open>formatTime\<close>, the
  markup of one timeline entry, the status texts. The browser's locale formatting and date parsing
  are the record \<open>host\<close>. The last part reads markup back as a browser's tokenizer does, so that
  escaping can be stated against it.
\<close>

subsection \<open>The browser\<close>

text \<open>
  \<open>localeTime v\<close> and \<open>localeDateTime v\<close> are \<open>new Date(v).toLocaleTimeString("en-US", ...)\<close> and
  \<open>new Date(v).toLocaleString("en-US", ...)\<close> with the options of the source; \<open>timeValue v\<close> is the
  time value of \<open>new Date(v)\<close>, \<open>None\<close> for an invalid date.
\<close>

record host =
  localeTime :: "json \<Rightarrow> jstr"
  localeDateTime :: "json \<Rightarrow> jstr"
  timeValue :: "json option \<Rightarrow> int option"

text \<open>\<open>v ?? d\<close> and what assigning to \<open>textContent\<close> leaves there.\<close>

definition nullish :: "json option \<Rightarrow> bool" where
  "nullish v \<longleftrightarrow> v = None \<or> v = Some JNull"

definition coalesce :: "json option \<Rightarrow> json \<Rightarrow> json" where
  "coalesce v d = (case v of None \<Rightarrow> d | Some JNull \<Rightarrow> d | Some j \<Rightarrow> j)"

definition dom_text :: "json option \<Rightarrow> jstr" where
  "dom_text v = (case v of None \<Rightarrow> [] | Some JNull \<Rightarrow> [] | Some j \<Rightarrow> json_text j)"

text \<open>\<open>s.replace(t, u)\<close> with a text \<open>t\<close>: the first occurrence.\<close>

fun js_replace_first :: "jstr \<Rightarrow> jstr \<Rightarrow> jstr \<Rightarrow> jstr" where
  "js_replace_first t u [] = (if t = [] then u else [])"
| "js_replace_first t u (c # cs) =
     (if js_starts_with (c # cs) t then u @ drop (length t) (c # cs) else c # js_replace_first t u cs)"

subsection \<open>Escaping\<close>

definition escHtml :: "json option \<Rightarrow> jstr" where
  "escHtml str =
     (if \<not> truthy str then []
      else
        (let s0 = (case str of None \<Rightarrow> [] | Some j \<Rightarrow> json_text j);
             s1 = re_replace_all False (chc CHR ''&'') (by_text (js ''&amp;'')) s0;
             s2 = re_replace_all False (chc CHR ''<'') (by_text (js ''&lt;'')) s1;
             s3 = re_replace_all False (chc CHR ''>'') (by_text (js ''&gt;'')) s2
         in re_replace_all False (chc CHR 0x22) (by_text (js ''&quot;'')) s3))"

definition formatTime :: "host \<Rightarrow> json option \<Rightarrow> jstr" where
  "formatTime h isoString =
     (case isoString of
        None \<Rightarrow> []
      | Some j \<Rightarrow> if truthy isoString then localeTime h j else [])"

subsection \<open>One timeline entry\<close>

definition newline :: "nat \<Rightarrow> jstr" where
  "newline n = 10 # replicate n 32"

definition event_kind :: "jstr \<Rightarrow> jstr" where
  "event_kind t =
     re_replace_all False (chc CHR ''_'') (by_text (js '' '')) (js_replace_first (js ''workflow.'') [] t)"

text \<open>The template, given the values it prints.\<close>

definition entry_html :: "jstr \<Rightarrow> jstr \<Rightarrow> jstr \<Rightarrow> jstr \<Rightarrow> jstr \<Rightarrow> jstr option \<Rightarrow> jstr" where
  "entry_html message stamp shown kind actor details =
     newline 8 @ js ''<span class=\"timeline-dot\"></span>'' @
     newline 8 @ js ''<div>'' @
     newline 10 @ js ''<div class=\"timeline-meta\">'' @
     newline 12 @ js ''<strong>'' @ message @ js ''</strong>'' @
     newline 12 @ js ''<time datetime=\"'' @ stamp @ js ''\">'' @ shown @ js ''</time>'' @
     newline 10 @ js ''</div>'' @
     newline 10 @ js ''<small>'' @ kind @ [32, 0xB7, 32] @ actor @ js ''</small>'' @
     newline 10 @ (case details of None \<Rightarrow> [] | Some d \<Rightarrow> js ''<p>'' @ d @ js ''</p>'') @
     newline 8 @ js ''</div>''"

definition timeline_html :: "host \<Rightarrow> json \<Rightarrow> jstr result" where
  "timeline_html h ev =
     rbind (getp ev (js ''message'')) (\<lambda>message.
     rbind (getp ev (js ''timestamp'')) (\<lambda>stamp.
     rbind (getp ev (js ''type'')) (\<lambda>type.
     rbind (case type of Some (JStr t) \<Rightarrow> Inr t | _ \<Rightarrow> Inl TypeError) (\<lambda>t.
     rbind (getp ev (js ''actor'')) (\<lambda>actor.
     rbind (getp ev (js ''details'')) (\<lambda>details.
       Inr (entry_html (escHtml message) (escHtml stamp) (formatTime h stamp)
             (escHtml (Some (JStr (event_kind t))))
             (escHtml (Some (coalesce actor (JStr (js ''system'')))))
             (if truthy details then Some (escHtml details) else None))))))))"

subsection \<open>Status texts\<close>

definition statusClass :: "json \<Rightarrow> jstr" where
  "statusClass status =
     (if status = JStr (js ''Completed'') then js ''status-completed''
      else if status = JStr (js ''WaitingForApproval'') then js ''status-waiting''
      else if status = JStr (js ''Rejected'') then js ''status-rejected''
      else if status = JStr (js ''Failed'') then js ''status-failed''
      else js ''status-active'')"

definition statusAnnouncement :: "json \<Rightarrow> jstr" where
  "statusAnnouncement status =
     (if status = JStr (js ''Draft'') then js ''Workflow accepted. Starting processing.''
      else if status = JStr (js ''Recovering'') then js ''Workflow is being processed by the agent network.''
      else if status = JStr (js ''WaitingForApproval'')
        then js ''Workflow is waiting for your approval. The approval form is now shown.''
      else if status = JStr (js ''Completed'') then js ''Workflow completed successfully.''
      else if status = JStr (js ''Failed'') then js ''Workflow processing failed. See the timeline for details.''
      else if status = JStr (js ''Rejected'') then js ''Decision recorded. Workflow rejected.''
      else js ''Status: '' @ json_text status)"

subsection \<open>Escaped text\<close>

definition esc_unit :: "cunit \<Rightarrow> jstr" where
  "esc_unit c = (if c = 38 then js ''&amp;'' else if c = 60 then js ''&lt;''
     else if c = 62 then js ''&gt;'' else if c = 34 then js ''&quot;'' else [c])"

definition escape :: "jstr \<Rightarrow> jstr" where
  "escape s = concat (map esc_unit s)"

lemma replace_unit:
  "re_replace_all False (ch d) (by_text t) s = concat (map (\<lambda>c. if c = d then t else [c]) s)"
  by (subst re_replace_all_cls) (simp add: by_text_def cong: if_cong)

lemma concat_map_concat_map:
  "concat (map f (concat (map g xs))) = concat (map (\<lambda>x. concat (map f (g x))) xs)"
  by (induction xs) simp_all

lemma escHtml_escape: "escHtml v = escape (if truthy v then dom_text v else [])"
proof -
  have "truthy v \<Longrightarrow> (case v of None \<Rightarrow> [] | Some j \<Rightarrow> json_text j) = dom_text v"
    by (auto simp: truthy_def dom_text_def split: option.splits json.splits)
  then show ?thesis
    by (auto simp: escHtml_def escape_def replace_unit concat_map_concat_map Let_def esc_unit_def js_simps
        intro!: arg_cong [where f = concat] map_cong)
qed

text \<open>
  How a browser reads text back: the four character references that \<open>escHtml\<close> writes.
\<close>

definition references :: "(jstr \<times> cunit) list" where
  "references = [(js ''&amp;'', 38), (js ''&lt;'', 60), (js ''&gt;'', 62), (js ''&quot;'', 34)]"

function html_decode :: "jstr \<Rightarrow> jstr" where
  "html_decode s =
     (case s of
        [] \<Rightarrow> []
      | c # cs \<Rightarrow>
          (case List.find (\<lambda>(r, _). js_starts_with s r) references of
             None \<Rightarrow> c # html_decode cs
           | Some (r, d) \<Rightarrow> if r = [] then [] else d # html_decode (drop (length r) s)))"
  by pat_completeness auto
termination
  by (relation "measure length") auto

declare html_decode.simps [simp del]

lemma starts_with_append [simp]: "js_starts_with (t @ s) t"
  by (simp add: js_starts_with_iff)

lemma html_decode_Nil [simp]: "html_decode [] = []"
  by (simp add: html_decode.simps)

lemma html_decode_esc_unit: "html_decode (esc_unit c @ s) = c # html_decode s"
proof -
  have plain: "c \<noteq> 38 \<Longrightarrow> html_decode (c # s) = c # html_decode s"
    by (simp add: html_decode.simps [of "c # s"] references_def js_simps)
  show ?thesis
    using plain by (auto simp: esc_unit_def html_decode.simps [of "38 # _"] references_def js_simps)
qed

lemma html_decode_escape: "html_decode (escape s) = s"
  by (induction s) (simp_all add: escape_def html_decode_esc_unit)

lemma escape_safe: "c \<in> set (escape s) \<Longrightarrow> c \<noteq> 60 \<and> c \<noteq> 62 \<and> c \<noteq> 34"
  by (auto simp: escape_def esc_unit_def js_simps split: if_splits)

text \<open>
  C16: Escaping loses nothing: a browser that resolves the character references reads back exactly
  the text of the value (the empty text for a falsy one).
\<close>

theorem escHtml_roundtrip:
  "html_decode (escHtml v) = (if truthy v then dom_text v else [])"
  by (simp add: escHtml_escape html_decode_escape)

subsection \<open>Reading the markup back\<close>

text \<open>
  A tokenizer over the three states that the entry uses: text, a tag, and a double-quoted attribute
  value in a tag. \<open>markup\<close> keeps the tags and blanks out the text and the attribute values.
\<close>

datatype html_mode = InText | InTag | InQuotes

fun markup :: "html_mode \<Rightarrow> jstr \<Rightarrow> jstr" where
  "markup m [] = []"
| "markup InText (c # cs) = (if c = 60 then c # markup InTag cs else markup InText cs)"
| "markup InTag (c # cs) =
     (if c = 62 then c # markup InText cs else if c = 34 then c # markup InQuotes cs
      else c # markup InTag cs)"
| "markup InQuotes (c # cs) = (if c = 34 then c # markup InTag cs else markup InQuotes cs)"

lemma markup_text: "60 \<notin> set t \<Longrightarrow> markup InText (t @ s) = markup InText s"
  by (induction t) auto

lemma markup_quotes: "34 \<notin> set t \<Longrightarrow> markup InQuotes (t @ s) = markup InQuotes s"
  by (induction t) auto

definition entry_markup :: "bool \<Rightarrow> jstr" where
  "entry_markup with_details =
     js ''<span class=\"\"></span><div><div class=\"\"><strong></strong><time datetime=\"\"></time></div><small></small>'' @
     (if with_details then js ''<p></p>'' else []) @ js ''</div>''"

lemma markup_pieces:
  "markup InText (js ''<span class=\"timeline-dot\"></span>'' @ s) = js ''<span class=\"\"></span>'' @ markup InText s"
  "markup InText (js ''<div>'' @ s) = js ''<div>'' @ markup InText s"
  "markup InText (js ''<div class=\"timeline-meta\">'' @ s) = js ''<div class=\"\">'' @ markup InText s"
  "markup InText (js ''<strong>'' @ s) = js ''<strong>'' @ markup InText s"
  "markup InText (js ''</strong>'' @ s) = js ''</strong>'' @ markup InText s"
  "markup InText (js ''<time datetime=\"'' @ s) = js ''<time datetime=\"'' @ markup InQuotes s"
  "markup InQuotes (js ''\">'' @ s) = js ''\">'' @ markup InText s"
  "markup InText (js ''</time>'' @ s) = js ''</time>'' @ markup InText s"
  "markup InText (js ''<small>'' @ s) = js ''<small>'' @ markup InText s"
  "markup InText (js ''</small>'' @ s) = js ''</small>'' @ markup InText s"
  "markup InText (js ''<p>'' @ s) = js ''<p>'' @ markup InText s"
  "markup InText (js ''</p>'' @ s) = js ''</p>'' @ markup InText s"
  "markup InText (js ''</div>'' @ s) = js ''</div>'' @ markup InText s"
  "markup InText (js ''</div>'') = js ''</div>''"
  by (simp_all add: js_simps)

lemma markup_newline: "markup InText (newline n @ s) = markup InText s"
  by (rule markup_text) (auto simp: newline_def)

lemma markup_dot: "markup InText ([32, 0xB7, 32] @ s) = markup InText s"
  by simp

lemma markup_entry:
  assumes "60 \<notin> set message" "34 \<notin> set stamp" "60 \<notin> set shown" "60 \<notin> set kind" "60 \<notin> set actor"
    and "case details of None \<Rightarrow> True | Some d \<Rightarrow> 60 \<notin> set d"
  shows "markup InText (entry_html message stamp shown kind actor details) = entry_markup (details \<noteq> None)"
  using assms
  by (cases details)
    (simp_all only: entry_html_def markup_pieces markup_newline markup_dot markup_text markup_quotes
      append_assoc append_Nil option.case entry_markup_def if_True if_False simp_thms option.distinct not_None_eq,
     simp_all add: js_simps)

lemma timeline_html_type:
  assumes "timeline_html h ev = Inr html"
  shows "\<exists>kvs t. ev = JObj kvs \<and> map_of kvs (js ''type'') = Some (JStr t)"
proof -
  obtain ty k where steps: "getp ev (js ''type'') = Inr ty"
      "(case ty of Some (JStr t) \<Rightarrow> Inr t | _ \<Rightarrow> Inl TypeError) = (Inr k :: jstr result)"
    using assms unfolding timeline_html_def rbind_Inr_iff by blast
  then obtain v where v: "ty = Some v" by (cases ty) simp_all
  with steps(2) have "v = JStr k" by (cases v) simp_all
  with steps(1) v show ?thesis by (cases ev) (auto simp: getp_def)
qed

text \<open>
  C15: Nothing that the server sends can change the structure of the timeline: whatever the message,
  the time stamp, the type, the actor and the details hold, the entry's markup has exactly the tags of
  the template, with the details paragraph when there are details. The browser's own locale time is
  the one unescaped text; it contains no \<open><\<close>.
\<close>

theorem timeline_html_markup:
  assumes "timeline_html h ev = Inr html" "\<forall>v. 60 \<notin> set (localeTime h v)"
  shows "markup InText html = entry_markup (truthy (case ev of JObj kvs \<Rightarrow> map_of kvs (js ''details'') | _ \<Rightarrow> None))"
proof -
  have esc: "60 \<notin> set (escHtml v)" "34 \<notin> set (escHtml v)" for v
    by (auto simp: escHtml_escape dest: escape_safe)
  have shown: "60 \<notin> set (formatTime h v)" for v
    using assms(2) by (auto simp: formatTime_def split: option.splits)
  obtain m s k a d where "getp ev (js ''details'') = Inr d"
    and html: "html = entry_html (escHtml m) (escHtml s) (formatTime h s) (escHtml (Some (JStr (event_kind k))))
       (escHtml (Some (coalesce a (JStr (js ''system''))))) (if truthy d then Some (escHtml d) else None)"
    using assms(1) unfolding timeline_html_def rbind_Inr_iff sum.inject by blast
  moreover obtain kvs where "ev = JObj kvs" using timeline_html_type [OF assms(1)] by blast
  ultimately have "d = map_of kvs (js ''details'')" by (simp add: getp_def)
  with \<open>ev = JObj kvs\<close> html show ?thesis by (simp add: markup_entry esc shown)
qed

subsection \<open>Concrete instances\<close>

definition sample_host :: host where
  "sample_host = \<lparr>localeTime = (\<lambda>_. js ''9:00:00 AM''), localeDateTime = (\<lambda>_. js ''Jan 1, 9:00 AM''),
     timeValue = (\<lambda>v. case v of Some (JNum n) \<Rightarrow> Some n | _ \<Rightarrow> None)\<rparr>"

definition sample_event :: json where
  "sample_event = JObj [(js ''type'', JStr (js ''workflow.plan'')), (js ''timestamp'', JNum 5),
     (js ''message'', JStr (js ''<b>\"hi\"</b>'')), (js ''details'', JStr (js ''<script>''))]"

lemma sample_event_fields:
  "getp sample_event (js ''type'') = Inr (Some (JStr (js ''workflow.plan'')))"
  "getp sample_event (js ''timestamp'') = Inr (Some (JNum 5))"
  "getp sample_event (js ''message'') = Inr (Some (JStr (js ''<b>\"hi\"</b>'')))"
  "getp sample_event (js ''details'') = Inr (Some (JStr (js ''<script>'')))"
  "getp sample_event (js ''actor'') = Inr None"
  by (simp_all add: sample_event_def getp_def)

theorem timeline_html_markup_witness:
  "\<exists>html. timeline_html sample_host sample_event = Inr html \<and> markup InText html = entry_markup True"
proof -
  obtain html where html: "timeline_html sample_host sample_event = Inr html"
    by (simp add: timeline_html_def sample_event_fields)
  have "\<forall>v. 60 \<notin> set (localeTime sample_host v)" by (simp add: sample_host_def js_simps)
  from timeline_html_markup [OF html this] html show ?thesis
    by (simp add: sample_event_def truthy_def)
qed

end
