(* ===== verification/SiteView.thy ===== *)
theory SiteView
  imports SiteHtml "HOL-Library.Multiset"
begin

text \<open>
  The part of the page that \<open>src/webui/wwwroot/js/site.js\<close> rewrites while it polls: the stage track,
  the summary, the timeline, the support card and the live region, with the functions that update
  them. An element that the page may lack is an option. An update that throws keeps what it had
  already changed, so an update answers the error, if any, beside the page.
\<close>

subsection \<open>The page\<close>

record stage =
  stageActive :: bool
  stageDone :: bool

text \<open>The first \<open>.processing-indicator\<close>, and whether it is a child of the live region.\<close>

record indicator =
  inRegion :: bool
  indicatorHidden :: bool

record page =
  liveRegion :: "jstr option"
  frames :: "jstr list"
  spinner :: "indicator option"
  statusPill :: "(jstr \<times> jstr) option"
  stageTrack :: "stage list option"
  intentText :: "jstr option"
  updatedText :: "jstr option"
  techStatus :: "jstr option"
  techVersion :: "jstr option"
  timelineList :: "jstr list option"
  eventCount :: "jstr option"
  supportCard :: bool
  noticeHidden :: "bool option"
  reloads :: nat

type_synonym update = "page \<Rightarrow> js_error option \<times> page"

definition ok :: "(page \<Rightarrow> page) \<Rightarrow> update" where
  "ok f p = (None, f p)"

definition and_then :: "update \<Rightarrow> update \<Rightarrow> update" where
  "and_then f g p = (case f p of (None, p') \<Rightarrow> g p' | (Some e, p') \<Rightarrow> (Some e, p'))"

lemma and_then_simps [simp]:
  "f p = (None, p') \<Longrightarrow> and_then f g p = g p'"
  "f p = (Some e, p') \<Longrightarrow> and_then f g p = (Some e, p')"
  by (simp_all add: and_then_def)

lemma ok_simp [simp]: "ok f p = (None, f p)"
  by (simp add: ok_def)

subsection \<open>Announcements\<close>

text \<open>
  \<open>announceStatus\<close> empties the region, which removes its children, and queues the message for the
  next animation frame; \<open>run_frame\<close> is that frame.
\<close>

definition announceStatus :: "jstr \<Rightarrow> page \<Rightarrow> page" where
  "announceStatus message p =
     (case liveRegion p of
        None \<Rightarrow> p
      | Some _ \<Rightarrow> p\<lparr>liveRegion := Some [], frames := frames p @ [message],
          spinner := (case spinner p of Some i \<Rightarrow> if inRegion i then None else Some i | None \<Rightarrow> None)\<rparr>)"

definition run_frame :: "page \<Rightarrow> page" where
  "run_frame p =
     (case frames p of
        [] \<Rightarrow> p
      | message # rest \<Rightarrow> p\<lparr>liveRegion := Some message, frames := rest\<rparr>)"

definition hideSpinner :: "page \<Rightarrow> page" where
  "hideSpinner p = p\<lparr>spinner := map_option (\<lambda>i. i\<lparr>indicatorHidden := True\<rparr>) (spinner p)\<rparr>"

definition reload :: "page \<Rightarrow> page" where
  "reload p = p\<lparr>reloads := Suc (reloads p)\<rparr>"

subsection \<open>The stage track\<close>

text \<open>\<open>events.some((e) => e.type === type)\<close>; only an array has \<open>some\<close>.\<close>

definition hasEvent :: "json \<Rightarrow> jstr \<Rightarrow> bool result" where
  "hasEvent events t =
     (case events of
        JArr es \<Rightarrow> rsome (\<lambda>e. rbind (getp e (js ''type'')) (\<lambda>v. Inr (v = Some (JStr t)))) es
      | _ \<Rightarrow> Inl TypeError)"

definition any_event :: "json \<Rightarrow> jstr list \<Rightarrow> bool result" where
  "any_event events ts = rsome (hasEvent events) ts"

definition terminal_types :: "jstr list" where
  "terminal_types = [js ''workflow.completed'', js ''workflow.approval_required'', js ''workflow.failed'']"

abbreviation idle :: stage where "idle \<equiv> \<lparr>stageActive = False, stageDone = False\<rparr>"
abbreviation active :: stage where "active \<equiv> \<lparr>stageActive = True, stageDone = False\<rparr>"
abbreviation finished :: stage where "finished \<equiv> \<lparr>stageActive = False, stageDone = True\<rparr>"

text \<open>\<open>stages[i]?.classList.add(...)\<close> on the stages, all classes having been removed.\<close>

definition put_stage :: "nat \<Rightarrow> (stage \<Rightarrow> stage) \<Rightarrow> stage list \<Rightarrow> stage list" where
  "put_stage i f ss = (if i < length ss then ss[i := f (ss ! i)] else ss)"

abbreviation add_active :: "stage \<Rightarrow> stage" where "add_active \<equiv> stageActive_update (\<lambda>_. True)"
abbreviation add_done :: "stage \<Rightarrow> stage" where "add_done \<equiv> stageDone_update (\<lambda>_. True)"

definition paint_stages :: "bool \<Rightarrow> bool \<Rightarrow> bool \<Rightarrow> stage list \<Rightarrow> stage list" where
  "paint_stages planDone terminalDone waiting ss =
     (let cleared = map (\<lambda>s. s\<lparr>stageActive := False, stageDone := False\<rparr>) ss in
      if \<not> planDone then put_stage 0 add_active cleared
      else if \<not> terminalDone then put_stage 1 add_active (put_stage 0 add_done cleared)
      else
        (let two = put_stage 1 add_done (put_stage 0 add_done cleared) in
         if waiting then put_stage 2 add_active two else put_stage 2 add_done two))"

lemma clear_stage: "s\<lparr>stageActive := False, stageDone := False\<rparr> = idle"
  by (cases s) simp

definition updateStages :: "json \<Rightarrow> update" where
  "updateStages data p =
     (case stageTrack p of
        None \<Rightarrow> (None, p)
      | Some ss \<Rightarrow>
          (case rbind (getp data (js ''events'')) (\<lambda>v. let events = coalesce v (JArr []) in
             rbind (hasEvent events (js ''workflow.plan'')) (\<lambda>planDone.
             rbind (any_event events terminal_types) (\<lambda>terminalDone.
             rbind (getp data (js ''status'')) (\<lambda>status.
               Inr (paint_stages planDone terminalDone (status = Some (JStr (js ''WaitingForApproval''))) ss))))) of
             Inl e \<Rightarrow> (Some e, p)
           | Inr ss' \<Rightarrow> (None, p\<lparr>stageTrack := Some ss'\<rparr>)))"

subsection \<open>The summary\<close>

definition updateSummary :: "host \<Rightarrow> json \<Rightarrow> update" where
  "updateSummary h data p =
     (case rbind (getp data (js ''intent'')) (\<lambda>intent.
           rbind (getp data (js ''updatedAt'')) (\<lambda>updatedAt.
           rbind (getp data (js ''status'')) (\<lambda>status.
           rbind (getp data (js ''version'')) (\<lambda>version.
             Inr (p\<lparr>intentText := map_option (\<lambda>_. dom_text (Some (coalesce intent (JStr (js ''Being determined''))))) (intentText p),
                    updatedText := (case updatedAt of
                        Some j \<Rightarrow> if truthy updatedAt then map_option (\<lambda>_. localeDateTime h j) (updatedText p) else updatedText p
                      | None \<Rightarrow> updatedText p),
                    techStatus := map_option (\<lambda>_. dom_text status) (techStatus p),
                    techVersion := map_option (\<lambda>_. dom_text version) (techVersion p)\<rparr>))))) of
        Inl e \<Rightarrow> (Some e, p)
      | Inr p' \<Rightarrow> (None, p'))"

subsection \<open>The timeline\<close>

text \<open>
  \<open>sort(cmp)\<close>: the stable sort that ECMAScript prescribes when the comparator is consistent; with
  invalid time stamps the order is up to the engine, and insertion is one it may choose. A
  subtraction with an invalid date is \<open>NaN\<close>, which \<open>sort\<close> reads as 0.
\<close>

fun insert_by :: "('a \<Rightarrow> 'a \<Rightarrow> int) \<Rightarrow> 'a \<Rightarrow> 'a list \<Rightarrow> 'a list" where
  "insert_by cmp x [] = [x]"
| "insert_by cmp x (y # ys) = (if cmp x y \<le> 0 then x # y # ys else y # insert_by cmp x ys)"

definition js_sort :: "('a \<Rightarrow> 'a \<Rightarrow> int) \<Rightarrow> 'a list \<Rightarrow> 'a list" where
  "js_sort cmp xs = foldr (insert_by cmp) xs []"

definition event_time :: "host \<Rightarrow> json \<Rightarrow> int option" where
  "event_time h ev = (case getp ev (js ''timestamp'') of Inr v \<Rightarrow> timeValue h v | Inl _ \<Rightarrow> None)"

definition newest_first :: "host \<Rightarrow> json \<Rightarrow> json \<Rightarrow> int" where
  "newest_first h a b =
     (case (event_time h b, event_time h a) of (Some x, Some y) \<Rightarrow> x - y | _ \<Rightarrow> 0)"

fun rmap :: "('a \<Rightarrow> 'b result) \<Rightarrow> 'a list \<Rightarrow> 'b list result" where
  "rmap f [] = Inr []"
| "rmap f (x # xs) = rbind (f x) (\<lambda>y. rbind (rmap f xs) (\<lambda>ys. Inr (y # ys)))"

text \<open>
  \<open>[...events]\<close>: an array or a text can be spread. Reading the time stamp of \<open>null\<close> in the comparator
  throws the error that the template throws on it just after; both leave the page alone.
\<close>

definition spread :: "json \<Rightarrow> json list result" where
  "spread j = (case j of JArr es \<Rightarrow> Inr es | JStr s \<Rightarrow> Inr (map (\<lambda>c. JStr [c]) s) | _ \<Rightarrow> Inl TypeError)"

definition count_text :: "nat \<Rightarrow> jstr" where
  "count_text n = js_nat n @ js '' event'' @ (if n \<noteq> 1 then js ''s'' else [])"

definition updateTimeline :: "host \<Rightarrow> json \<Rightarrow> update" where
  "updateTimeline h events p =
     (case timelineList p of
        None \<Rightarrow> (None, p)
      | Some _ \<Rightarrow>
          (case rbind (spread events) (\<lambda>es.
                  rbind (rmap (timeline_html h) (js_sort (newest_first h) es)) (\<lambda>items. Inr (es, items))) of
             Inl e \<Rightarrow> (Some e, p)
           | Inr (es, items) \<Rightarrow>
               (None, p\<lparr>timelineList := Some items,
                        eventCount := map_option (\<lambda>_. count_text (length es)) (eventCount p)\<rparr>)))"

subsection \<open>The support case\<close>

definition updateSupportCase :: "json option \<Rightarrow> page \<Rightarrow> page" where
  "updateSupportCase supportCase p =
     (if \<not> truthy supportCase then p else if \<not> supportCard p then reload p else p)"

subsection \<open>The stage track: properties\<close>

text \<open>The rendering of the same track by \<open>src/webui/Pages/Index.cshtml\<close>.\<close>

definition razor_stages :: "bool \<Rightarrow> bool \<Rightarrow> bool \<Rightarrow> stage list" where
  "razor_stages hasPlanEvent hasTerminalEvent needsApproval =
     [if hasPlanEvent then finished else active,
      if \<not> hasPlanEvent then idle else if hasTerminalEvent then finished else active,
      if \<not> hasTerminalEvent then idle else if needsApproval then active else finished]"

text \<open>
  C19: The script and the server draw the same stage track from the same facts, whatever the track
  showed before, except in one case: a workflow that ended without a plan event. There the server
  shows the last stage and the script leaves it blank.
\<close>

theorem stages_match_razor:
  assumes "length ss = 3"
  shows "paint_stages planDone terminalDone waiting ss = razor_stages planDone terminalDone waiting
    \<longleftrightarrow> planDone \<or> \<not> terminalDone"
proof -
  obtain a b c where "ss = [a, b, c]"
    using assms by (auto simp: length_Suc_conv numeral_3_eq_3)
  then show ?thesis by (simp add: paint_stages_def put_stage_def razor_stages_def Let_def clear_stage)
qed

text \<open>The types of the events, for the answers that the server sends.\<close>

definition type_of_event :: "json \<Rightarrow> json option" where
  "type_of_event e = (case e of JObj kvs \<Rightarrow> map_of kvs (js ''type'') | _ \<Rightarrow> None)"

definition event_types :: "json list \<Rightarrow> json option list" where
  "event_types es = map type_of_event es"

definition is_event :: "json \<Rightarrow> bool" where
  "is_event e \<longleftrightarrow> (\<exists>kvs t. e = JObj kvs \<and> map_of kvs (js ''type'') = Some (JStr t))"

lemma hasEvent_types:
  assumes "\<forall>e\<in>set es. is_event e"
  shows "hasEvent (JArr es) t = Inr (Some (JStr t) \<in> set (event_types es))"
proof -
  have "rbind (getp e (js ''type'')) (\<lambda>v. Inr (v = Some (JStr t))) = (Inr (type_of_event e = Some (JStr t)) :: bool result)"
    if "e \<in> set es" for e
    using assms that by (auto simp: is_event_def getp_def type_of_event_def)
  then have "rsome (\<lambda>e. rbind (getp e (js ''type'')) (\<lambda>v. Inr (v = Some (JStr t)))) es =
      Inr (list_ex (\<lambda>e. type_of_event e = Some (JStr t)) es)"
    by (intro rsome_Inr) blast
  moreover have "list_ex (\<lambda>e. type_of_event e = y) es \<longleftrightarrow> y \<in> set (map type_of_event es)" for y
    by (auto simp: list_ex_iff)
  ultimately show ?thesis by (simp only: hasEvent_def json.case event_types_def)
qed

lemma any_event_types:
  assumes "\<forall>e\<in>set es. is_event e"
  shows "any_event (JArr es) ts = Inr (\<exists>t\<in>set ts. Some (JStr t) \<in> set (event_types es))"
  using rsome_Inr [of ts "hasEvent (JArr es)" "\<lambda>t. Some (JStr t) \<in> set (event_types es)"]
  by (simp add: any_event_def hasEvent_types [OF assms] list_ex_iff)

text \<open>
  C18: The track tells the truth about the audit trail: for a well-formed answer, whatever classes the
  stages had, they show the plan as done exactly when a plan event is there, and the two later stages
  follow the terminal events and the approval status.
\<close>

theorem updateStages_truth:
  assumes "map_of kvs (js ''events'') = Some (JArr es)" "\<forall>e\<in>set es. is_event e"
    and "stageTrack p = Some ss" "length ss = 3"
  shows "updateStages (JObj kvs) p = (None, p\<lparr>stageTrack := Some
    (let plan = Some (JStr (js ''workflow.plan'')) \<in> set (event_types es);
         terminal = (\<exists>t\<in>set terminal_types. Some (JStr t) \<in> set (event_types es));
         waiting = map_of kvs (js ''status'') = Some (JStr (js ''WaitingForApproval''))
     in if \<not> plan then [active, idle, idle]
        else if \<not> terminal then [finished, active, idle]
        else [finished, finished, if waiting then active else finished])\<rparr>)"
proof -
  obtain a b c where "ss = [a, b, c]"
    using assms(4) by (auto simp: length_Suc_conv numeral_3_eq_3)
  then have paint: "paint_stages planDone terminalDone waiting ss =
      (if \<not> planDone then [active, idle, idle] else if \<not> terminalDone then [finished, active, idle]
       else [finished, finished, if waiting then active else finished])" for planDone terminalDone waiting
    by (simp add: paint_stages_def put_stage_def Let_def clear_stage)
  show ?thesis
    using assms(1,3) by (simp add: updateStages_def getp_def coalesce_def Let_def hasEvent_types [OF assms(2)]
        any_event_types [OF assms(2)] paint)
qed

subsection \<open>The timeline: properties\<close>

lemma insert_by_key:
  "\<forall>y\<in>set (e # es). event_time h y = Some (t y) \<Longrightarrow>
    insert_by (newest_first h) e es = insort_key (\<lambda>e. - t e) e es"
  by (induction es) (auto simp: newest_first_def)

lemma js_sort_sort_key:
  assumes "\<forall>e\<in>set es. event_time h e = Some (t e)"
  shows "js_sort (newest_first h) es = sort_key (\<lambda>e. - t e) es"
  using assms by (induction es) (simp_all add: js_sort_def insert_by_key)

lemma rmap_total: "\<forall>x\<in>set xs. f x = Inr (g x) \<Longrightarrow> rmap f xs = Inr (map g xs)"
  by (induction xs) auto

lemma rmap_None: "\<exists>x\<in>set xs. \<exists>e. f x = Inl e \<Longrightarrow> \<exists>e. rmap f xs = Inl e"
proof (induction xs)
  case (Cons x xs)
  show ?case
  proof (cases "f x")
    case (Inr y)
    with Cons obtain e where "rmap f xs = Inl e" by auto
    with Inr show ?thesis by simp
  qed simp
qed simp

lemma timeline_html_total: "is_event e \<Longrightarrow> \<exists>html. timeline_html h e = Inr html"
  by (auto simp: is_event_def timeline_html_def getp_def)

lemma timeline_html_fails: "\<not> is_event e \<Longrightarrow> \<exists>err. timeline_html h e = Inl err"
  using timeline_html_type [of h e] by (cases "timeline_html h e") (auto simp: is_event_def)

lemma mset_js_sort: "mset (js_sort cmp xs) = mset xs"
proof -
  have "mset (insert_by cmp x ys) = add_mset x (mset ys)" for x ys
    by (induction ys) auto
  then show ?thesis by (induction xs) (simp_all add: js_sort_def)
qed

lemma set_js_sort [simp]: "set (js_sort cmp xs) = set xs"
  by (metis mset_js_sort set_mset_mset)

text \<open>
  C17: The timeline shows every event of the answer exactly once, the newest first, events of the same
  time in the order of the answer, and the counter shows their number.
\<close>

theorem updateTimeline_newest_first:
  assumes "timelineList p = Some old" "\<forall>e\<in>set es. is_event e"
    and "\<forall>e\<in>set es. event_time h e = Some (t e)"
  shows "\<exists>shown items. updateTimeline h (JArr es) p =
      (None, p\<lparr>timelineList := Some items, eventCount := map_option (\<lambda>_. count_text (length es)) (eventCount p)\<rparr>)
    \<and> map (timeline_html h) shown = map Inr items \<and> mset shown = mset es
    \<and> sorted_wrt (\<lambda>a b. t b \<le> t a) shown
    \<and> (\<forall>k. filter (\<lambda>e. t e = k) shown = filter (\<lambda>e. t e = k) es)"
proof -
  define shown where "shown = sort_key (\<lambda>e. - t e) es"
  define item where "item e = (SOME html. timeline_html h e = Inr html)" for e
  have item: "timeline_html h e = Inr (item e)" if "e \<in> set es" for e
    unfolding item_def using timeline_html_total [of e h] assms(2) that by (rule_tac someI_ex) blast
  have js: "js_sort (newest_first h) es = shown"
    unfolding shown_def by (rule js_sort_sort_key [OF assms(3)])
  have "rmap (timeline_html h) shown = Inr (map item shown)"
    by (rule rmap_total) (simp add: shown_def item)
  then have "updateTimeline h (JArr es) p =
      (None, p\<lparr>timelineList := Some (map item shown), eventCount := map_option (\<lambda>_. count_text (length es)) (eventCount p)\<rparr>)"
    using assms(1) js by (simp add: updateTimeline_def spread_def)
  moreover have "map (timeline_html h) shown = map Inr (map item shown)"
    by (simp add: shown_def item)
  moreover have "sorted_wrt (\<lambda>a b. t b \<le> t a) shown"
    using sorted_sort_key [of "\<lambda>e. - t e" es] by (simp add: shown_def sorted_map)
  moreover have "filter (\<lambda>e. t e = k) shown = filter (\<lambda>e. t e = k) es" for k
    using sort_key_stable [of "\<lambda>e. - t e" "- k" es] by (simp add: shown_def)
  ultimately show ?thesis
    by (intro exI [of _ shown] exI [of _ "map item shown"]) (simp add: shown_def)
qed

text \<open>
  One event without a textual type makes the whole timeline update throw, whatever the other
  events are, and the page keeps the timeline it had.
\<close>

theorem updateTimeline_bad_event:
  assumes "timelineList p = Some old" "e \<in> set es" "\<not> is_event e"
  shows "\<exists>err. updateTimeline h (JArr es) p = (Some err, p)"
proof -
  obtain err where "rmap (timeline_html h) (js_sort (newest_first h) es) = Inl err"
    using rmap_None [of "js_sort (newest_first h) es" "timeline_html h"] timeline_html_fails [OF assms(3), of h] assms(2)
    by auto
  with assms(1) show ?thesis by (simp add: updateTimeline_def spread_def)
qed

subsection \<open>Concrete instances\<close>

theorem stages_match_razor_witness:
  "paint_stages True True False [idle, active, finished] = razor_stages True True False"
  using stages_match_razor [of "[idle, active, finished]" True True False] by simp

text \<open>A page as the server renders it while a workflow is processed.\<close>

definition sample_page :: page where
  "sample_page = \<lparr>liveRegion = Some (js ''Processing''), frames = [],
     spinner = Some \<lparr>inRegion = True, indicatorHidden = False\<rparr>,
     statusPill = Some (js ''Draft'', js ''status-pill status-active''), stageTrack = Some [active, idle, idle],
     intentText = None, updatedText = None, techStatus = None, techVersion = None,
     timelineList = Some [], eventCount = Some [], supportCard = False, noticeHidden = Some True, reloads = 0\<rparr>"

definition answer_with :: "string \<Rightarrow> json" where
  "answer_with status = JObj [(js ''status'', JStr (js status)), (js ''events'', JArr [sample_event])]"

lemma sample_is_event: "is_event sample_event"
  by (simp add: is_event_def sample_event_def)

theorem updateStages_truth_witness:
  "stageTrack (snd (updateStages (answer_with ''Recovering'') sample_page)) = Some [finished, active, idle]"
proof -
  have "\<forall>e\<in>set [sample_event]. is_event e" by (simp add: sample_is_event)
  moreover have "event_types [sample_event] = [Some (JStr (js ''workflow.plan''))]"
    by (simp add: event_types_def type_of_event_def sample_event_def)
  ultimately show ?thesis
    using updateStages_truth [of "[(js ''status'', JStr (js ''Recovering'')), (js ''events'', JArr [sample_event])]"
        "[sample_event]" sample_page "[active, idle, idle]"]
    by (simp add: answer_with_def sample_page_def terminal_types_def)
qed

theorem updateTimeline_newest_first_witness:
  "\<exists>items. timelineList (snd (updateTimeline sample_host (JArr [sample_event]) sample_page)) = Some items
     \<and> map (timeline_html sample_host) [sample_event] = map Inr items"
proof -
  have "\<forall>e\<in>set [sample_event]. is_event e" by (simp add: sample_is_event)
  moreover have "\<forall>e\<in>set [sample_event]. event_time sample_host e = Some 5"
    by (simp add: event_time_def sample_event_fields sample_host_def)
  moreover have "timelineList sample_page = Some []" by (simp add: sample_page_def)
  ultimately obtain shown items where
    "updateTimeline sample_host (JArr [sample_event]) sample_page =
      (None, sample_page\<lparr>timelineList := Some items, eventCount := map_option (\<lambda>_. count_text (length [sample_event])) (eventCount sample_page)\<rparr>)"
    "map (timeline_html sample_host) shown = map Inr items" "mset shown = mset [sample_event]"
    using updateTimeline_newest_first [of sample_page "[]" "[sample_event]" sample_host "\<lambda>_. 5"] by blast
  then show ?thesis by simp
qed

theorem updateTimeline_bad_event_witness:
  "\<exists>err. updateTimeline sample_host (JArr [sample_event, JNum 3]) sample_page = (Some err, sample_page)"
  by (rule updateTimeline_bad_event [of _ "[]" "JNum 3"]) (simp_all add: sample_page_def is_event_def)

end
