(* ===== verification/Machines.thy ===== *)
theory Machines
  imports Main
begin

text \<open>
  The contract of an event-driven component: its initial states, its steps and an invariant that the
  steps keep, and, for components that come to rest, a rank that every step lowers. The components
  of the page interpret these locales on their own step relations.
\<close>

locale machine =
  fixes init :: "'s \<Rightarrow> bool"
    and step :: "'s \<Rightarrow> 's \<Rightarrow> bool"
    and inv :: "'s \<Rightarrow> bool"
  assumes inv_init: "init s \<Longrightarrow> inv s"
    and inv_step: "inv s \<Longrightarrow> step s t \<Longrightarrow> inv t"
begin

lemma inv_steps:
  assumes "step\<^sup>*\<^sup>* s t" "inv s"
  shows "inv t"
  using assms by (induction rule: rtranclp_induct) (auto intro: inv_step)

lemma inv_reach: "init s \<Longrightarrow> step\<^sup>*\<^sup>* s t \<Longrightarrow> inv t"
  by (rule inv_steps [OF _ inv_init])

text \<open>A quantity that no step changes from an invariant state on is constant.\<close>

lemma constant_on_runs:
  assumes "inv s" "step\<^sup>*\<^sup>* s t" "P s"
    and "\<And>s t. inv s \<Longrightarrow> P s \<Longrightarrow> step s t \<Longrightarrow> P t \<and> f t = f s"
  shows "f t = f s"
proof -
  have "inv t \<and> P t \<and> f t = f s"
    using assms(2)
  proof (induction rule: rtranclp_induct)
    case base
    then show ?case using assms(1,3) by simp
  next
    case (step t u)
    then have "inv t" "P t" "f t = f s" by simp_all
    with assms(4) [of t u] inv_step [of t u] step(2) show ?case by simp
  qed
  then show ?thesis by simp
qed

end

locale resting_machine = machine +
  fixes rank :: "'s \<Rightarrow> nat"
  assumes rank_step: "inv s \<Longrightarrow> step s t \<Longrightarrow> rank t < rank s"
begin

lemma run_length: "inv s \<Longrightarrow> (step ^^ n) s t \<Longrightarrow> n + rank t \<le> rank s \<and> inv t"
proof (induction n arbitrary: t)
  case (Suc n)
  then obtain u where "(step ^^ n) s u" "step u t" by auto
  with Suc.IH [of u] Suc.prems(1) rank_step [of u t] inv_step [of u t] show ?case by auto
qed simp

lemma comes_to_rest: "inv s \<Longrightarrow> \<exists>t. step\<^sup>*\<^sup>* s t \<and> (\<nexists>u. step t u)"
proof (induction "rank s" arbitrary: s rule: less_induct)
  case less
  show ?case
  proof (cases "\<exists>u. step s u")
    case True
    then obtain u where u: "step s u" by blast
    with less.prems have "inv u" "rank u < rank s" by (auto intro: inv_step rank_step)
    from less.hyps [OF this(2,1)] obtain t where "step\<^sup>*\<^sup>* u t" "\<nexists>v. step t v" by blast
    with u show ?thesis by (intro exI [of _ t]) (simp add: converse_rtranclp_into_rtranclp)
  qed blast
qed

end

end
