(* ===== verification/SitePolling.thy ===== *)
theory SitePolling
  imports SiteView Machines
begin

text \<open>
  The polling loop of \<open>src/webui/wwwroot/js/site.js\<close> (\<open>startPolling\<close>) as a state machine: the
  closure's variables, one pending timer, the page it rewrites, and the steps of the event loop. The
  answers of the server are arbitrary. \<open>polls\<close> and \<open>waited\<close> only count, for the statements.
\<close>

subsection \<open>Answers\<close>

text \<open>
  \<open>Threw name\<close>: the request, or reading the body of a good answer, throws an error of that name;
  \<open>NotOk body text\<close>: an answer outside 200-299 whose body is JSON, or not (\<open>None\<close>), with the status
  text; \<open>Answer data\<close>: a good answer.
\<close>

datatype answer = Threw jstr | NotOk "json option" jstr | Answer json

record poller =
  attempt :: nat
  elapsed :: nat
  timer :: "nat option"
  cancelled :: bool
  view :: page
  polls :: nat
  waited :: nat

subsection \<open>The schedule\<close>

definition INTERVALS :: "nat list" where
  "INTERVALS = [1000, 2000, 4000, 8000, 10000]"

definition MAX_DURATION_MS :: nat where
  "MAX_DURATION_MS = 90000"

definition pollInterval :: "bool \<Rightarrow> nat \<Rightarrow> nat" where
  "pollInterval prefersReducedMotion idx =
     (if prefersReducedMotion then 5000 else INTERVALS ! min idx (length INTERVALS - 1))"

definition stopPolling :: "poller \<Rightarrow> poller" where
  "stopPolling s = s\<lparr>cancelled := True, timer := None\<rparr>"

definition timeout_message :: jstr where
  "timeout_message = js ''Processing is taking longer than expected. Use the Refresh button to check status.''"

definition scheduleNext :: "bool \<Rightarrow> poller \<Rightarrow> poller" where
  "scheduleNext reduced s =
     (let delay = pollInterval reduced (attempt s);
          s1 = s\<lparr>elapsed := elapsed s + delay, attempt := attempt s + 1\<rparr>
      in if elapsed s1 \<ge> MAX_DURATION_MS
         then (let s2 = stopPolling s1; p = hideSpinner (view s2)
               in s2\<lparr>view := announceStatus timeout_message (p\<lparr>noticeHidden := map_option (\<lambda>_. False) (noticeHidden p)\<rparr>)\<rparr>)
         else s1\<lparr>timer := Some delay\<rparr>)"

subsection \<open>One poll\<close>

definition terminal_statuses :: "jstr list" where
  "terminal_statuses = [js ''Completed'', js ''Failed'', js ''Rejected'', js ''WaitingForApproval'']"

definition is_terminal :: "json \<Rightarrow> bool" where
  "is_terminal status = list_ex (\<lambda>t. status = JStr t) terminal_statuses"

definition setPill :: "json \<Rightarrow> page \<Rightarrow> page" where
  "setPill status p = p\<lparr>statusPill := map_option (\<lambda>_. (json_text status, js ''status-pill '' @ statusClass status)) (statusPill p)\<rparr>"

text \<open>The page updates of a good answer, in order; the first that throws ends them.\<close>

definition refresh :: "host \<Rightarrow> json \<Rightarrow> json \<Rightarrow> update" where
  "refresh h data status =
     and_then (ok (setPill status))
    (and_then (updateStages data)
    (and_then (updateSummary h data)
    (and_then (\<lambda>p. case getp data (js ''events'') of
                 Inl e \<Rightarrow> (Some e, p)
               | Inr events \<Rightarrow> updateTimeline h (coalesce events (JArr [])) p)
    (and_then (\<lambda>p. case getp data (js ''supportCase'') of
                 Inl e \<Rightarrow> (Some e, p)
               | Inr supportCase \<Rightarrow> (None, updateSupportCase supportCase p))
      (ok (announceStatus (statusAnnouncement status)))))))"

definition on_view :: "(page \<Rightarrow> page) \<Rightarrow> poller \<Rightarrow> poller" where
  "on_view f s = s\<lparr>view := f (view s)\<rparr>"

lemma on_view_fields [simp]:
  "timer (on_view f s) = timer s" "cancelled (on_view f s) = cancelled s" "polls (on_view f s) = polls s"
  "attempt (on_view f s) = attempt s" "elapsed (on_view f s) = elapsed s" "waited (on_view f s) = waited s"
  "view (on_view f s) = f (view s)"
  by (simp_all add: on_view_def)

text \<open>The \<open>catch\<close> branch.\<close>

definition caught :: "bool \<Rightarrow> jstr \<Rightarrow> poller \<Rightarrow> poller" where
  "caught reduced name s =
     scheduleNext reduced
       (if name = js ''TimeoutError'' \<or> name = js ''AbortError''
        then on_view (announceStatus (js ''Status request timed out '' @ [0x2014] @ js '' retrying'' @ [0x2026])) s
        else s)"

text \<open>The end of a poll with a terminal status.\<close>

definition finish_poll :: "json \<Rightarrow> poller \<Rightarrow> poller" where
  "finish_poll status s =
     (let s1 = on_view hideSpinner (stopPolling s);
          s2 = (if status = JStr (js ''WaitingForApproval'') then on_view reload s1 else s1)
      in if status = JStr (js ''Failed'') then on_view reload s2 else s2)"

definition handle_answer :: "host \<Rightarrow> bool \<Rightarrow> answer \<Rightarrow> poller \<Rightarrow> poller" where
  "handle_answer h reduced a s =
     (case a of
        Threw name \<Rightarrow> caught reduced name s
      | NotOk body statusText \<Rightarrow>
          (let err = (case body of None \<Rightarrow> JObj [(js ''error'', JStr (js ''Unknown error''))] | Some j \<Rightarrow> j) in
           case getp err (js ''error'') of
             Inl _ \<Rightarrow> caught reduced (js ''TypeError'') s
           | Inr e \<Rightarrow> scheduleNext reduced
               (on_view (announceStatus (js ''Status unavailable: '' @ json_text (coalesce e (JStr statusText)))) s))
      | Answer data \<Rightarrow>
          (case getp data (js ''status'') of
             Inl _ \<Rightarrow> caught reduced (js ''TypeError'') s
           | Inr None \<Rightarrow> scheduleNext reduced s
           | Inr (Some status) \<Rightarrow>
               if \<not> truthy (Some status) then scheduleNext reduced s
               else (case refresh h data status (view s) of
                       (Some _, p) \<Rightarrow> caught reduced (js ''TypeError'') (s\<lparr>view := p\<rparr>)
                     | (None, p) \<Rightarrow>
                         if is_terminal status then finish_poll status (s\<lparr>view := p\<rparr>)
                         else scheduleNext reduced (s\<lparr>view := p\<rparr>))))"

definition poll :: "host \<Rightarrow> bool \<Rightarrow> answer \<Rightarrow> poller \<Rightarrow> poller" where
  "poll h reduced a s =
     (if cancelled s then s else handle_answer h reduced a (s\<lparr>polls := polls s + 1\<rparr>))"

definition startPolling :: "page \<Rightarrow> poller" where
  "startPolling p = \<lparr>attempt = 0, elapsed = 0, timer = Some 800, cancelled = False, view = p, polls = 0, waited = 0\<rparr>"

text \<open>
  The start-up block: \<open>panel\<close> holds \<open>dataset.workflowId\<close> and \<open>dataset.polling\<close> of the workflow panel,
  where the page has one.
\<close>

definition autoStart :: "(jstr option \<times> jstr option) option \<Rightarrow> page \<Rightarrow> poller option" where
  "autoStart panel p =
     (case panel of
        None \<Rightarrow> None
      | Some (workflowId, polling) \<Rightarrow>
          if polling = Some (js ''true'') \<and> workflowId \<noteq> None \<and> workflowId \<noteq> Some [] then Some (startPolling p)
          else None)"

text \<open>
  The event loop: the pending timer fires and its poll gets some answer, or an animation frame runs.
  A poll touches nothing before its answer, so the frames that run while it waits are frame steps
  before it.
\<close>

definition fire :: "host \<Rightarrow> bool \<Rightarrow> answer \<Rightarrow> poller \<Rightarrow> poller" where
  "fire h reduced a s =
     (case timer s of
        None \<Rightarrow> s
      | Some d \<Rightarrow> poll h reduced a (s\<lparr>timer := None, waited := waited s + d\<rparr>))"

inductive poll_step :: "host \<Rightarrow> bool \<Rightarrow> poller \<Rightarrow> poller \<Rightarrow> bool" for h reduced where
  timer_fires: "timer s \<noteq> None \<Longrightarrow> poll_step h reduced s (fire h reduced a s)"
| frame_runs: "frames (view s) \<noteq> [] \<Longrightarrow> poll_step h reduced s (on_view run_frame s)"

inductive_cases poll_stepE: "poll_step h reduced s t"

subsection \<open>What an update leaves alone\<close>

lemma and_then_fst: "fst (and_then f g p) = (if fst (f p) = None then fst (g (snd (f p))) else fst (f p))"
  by (cases "f p"; cases "fst (f p)") simp_all

lemma and_then_snd: "snd (and_then f g p) = (if fst (f p) = None then snd (g (snd (f p))) else snd (f p))"
  by (cases "f p"; cases "fst (f p)") simp_all

text \<open>The parts of the page that the content updates do not touch.\<close>

definition status_parts :: "page \<Rightarrow> _" where
  "status_parts p = (liveRegion p, frames p, spinner p, noticeHidden p, supportCard p)"

lemma status_parts_updates [simp]:
  "status_parts (setPill st p) = status_parts p"
  "status_parts (snd (updateStages data p)) = status_parts p"
  "status_parts (snd (updateSummary h data p)) = status_parts p"
  "status_parts (snd (updateTimeline h events p)) = status_parts p"
  "status_parts (updateSupportCase c p) = status_parts p"
  "status_parts (reload p) = status_parts p"
proof -
  show "status_parts (setPill st p) = status_parts p" by (simp add: setPill_def status_parts_def)
  show "status_parts (snd (updateStages data p)) = status_parts p"
    by (simp add: updateStages_def status_parts_def split: option.splits sum.splits)
  show "status_parts (snd (updateSummary h data p)) = status_parts p"
    by (cases data) (simp_all add: updateSummary_def getp_def status_parts_def)
  show "status_parts (snd (updateTimeline h events p)) = status_parts p"
    by (simp add: updateTimeline_def status_parts_def split: option.splits sum.splits prod.splits)
  show "status_parts (updateSupportCase c p) = status_parts p"
    by (simp add: updateSupportCase_def reload_def status_parts_def)
  show "status_parts (reload p) = status_parts p"
    by (simp add: reload_def status_parts_def)
qed

lemma status_parts_announce:
  "status_parts p = status_parts q \<Longrightarrow> status_parts (announceStatus m p) = status_parts (announceStatus m q)"
  by (auto simp: announceStatus_def status_parts_def split: option.splits)

definition quiet :: "update \<Rightarrow> bool" where
  "quiet f \<longleftrightarrow> (\<forall>p. status_parts (snd (f p)) = status_parts p)"

definition announces :: "jstr \<Rightarrow> update \<Rightarrow> bool" where
  "announces m f \<longleftrightarrow> (\<forall>p. status_parts (snd (f p)) =
     status_parts (if fst (f p) = None then announceStatus m p else p))"

lemma announces_and_then:
  assumes "quiet f" "announces m g"
  shows "announces m (and_then f g)"
proof -
  have "status_parts (snd (and_then f g p)) =
      status_parts (if fst (and_then f g p) = None then announceStatus m p else p)" for p
  proof (cases "fst (f p)")
    case None
    have "status_parts (snd (g q)) = status_parts (if fst (g q) = None then announceStatus m q else q)" for q
      using assms(2) by (simp add: announces_def)
    moreover have "status_parts (snd (f p)) = status_parts p" using assms(1) by (simp add: quiet_def)
    ultimately show ?thesis
      using None status_parts_announce [of "snd (f p)" p m] by (simp add: and_then_fst and_then_snd)
  next
    case (Some e)
    then show ?thesis using assms(1) by (simp add: and_then_fst and_then_snd quiet_def)
  qed
  then show ?thesis by (simp add: announces_def)
qed

lemma quiet_updates:
  "quiet (ok (setPill st))" "quiet (updateStages data)" "quiet (updateSummary h data)"
  "quiet (\<lambda>p. case getp data k of Inl e \<Rightarrow> (Some e, p) | Inr events \<Rightarrow> updateTimeline h (coalesce events (JArr [])) p)"
  "quiet (\<lambda>p. case getp data k of Inl e \<Rightarrow> (Some e, p) | Inr c \<Rightarrow> (None, updateSupportCase c p))"
  by (simp_all add: quiet_def split: sum.split)

text \<open>A refresh that goes through announces the status; one that throws announces nothing.\<close>

lemma refresh_announces: "announces (statusAnnouncement st) (refresh h data st)"
  unfolding refresh_def
  by (intro announces_and_then quiet_updates) (simp add: announces_def)

subsection \<open>The verdict of an answer\<close>

text \<open>
  Every answer does one of two things: it leaves a page and asks for the next poll, or it leaves a
  page and ends the polling with a terminal status.
\<close>

definition retry_message :: jstr where
  "retry_message = js ''Status request timed out '' @ [0x2014] @ js '' retrying'' @ [0x2026]"

definition verdict :: "host \<Rightarrow> answer \<Rightarrow> page \<Rightarrow> page \<times> json option" where
  "verdict h a p =
     (case a of
        Threw name \<Rightarrow>
          (if name = js ''TimeoutError'' \<or> name = js ''AbortError'' then announceStatus retry_message p else p, None)
      | NotOk body text \<Rightarrow>
          (case getp (case body of None \<Rightarrow> JObj [(js ''error'', JStr (js ''Unknown error''))] | Some j \<Rightarrow> j) (js ''error'') of
             Inl _ \<Rightarrow> (p, None)
           | Inr e \<Rightarrow> (announceStatus (js ''Status unavailable: '' @ json_text (coalesce e (JStr text))) p, None))
      | Answer data \<Rightarrow>
          (case getp data (js ''status'') of
             Inr (Some status) \<Rightarrow>
               if truthy (Some status)
               then (snd (refresh h data status p),
                     if fst (refresh h data status p) = None \<and> is_terminal status then Some status else None)
               else (p, None)
           | _ \<Rightarrow> (p, None)))"

lemma handle_answer_verdict:
  "handle_answer h r a s =
     (case snd (verdict h a (view s)) of
        None \<Rightarrow> scheduleNext r (s\<lparr>view := fst (verdict h a (view s))\<rparr>)
      | Some status \<Rightarrow> finish_poll status (s\<lparr>view := fst (verdict h a (view s))\<rparr>))"
proof -
  have "s\<lparr>view := view s\<rparr> = s" by simp
  moreover have "js ''TypeError'' \<noteq> js ''TimeoutError''" "js ''TypeError'' \<noteq> js ''AbortError''" by simp_all
  ultimately show ?thesis
    by (simp add: handle_answer_def verdict_def caught_def on_view_def retry_message_def Let_def
        split: answer.splits option.splits sum.splits prod.splits)
qed

text \<open>At most one message is queued by an answer, and a queued message empties the region.\<close>

lemma verdict_frames: "length (frames (fst (verdict h a p))) \<le> Suc (length (frames p))"
proof -
  have announce: "length (frames (announceStatus m p)) \<le> Suc (length (frames p))" for m
    by (simp add: announceStatus_def split: option.split)
  have "length (frames (snd (refresh h data st p))) \<le> Suc (length (frames p))" for data st
    using refresh_announces [of st h data] announce
    by (cases "fst (refresh h data st p)") (auto simp: announces_def status_parts_def dest!: spec [of _ p])
  then show ?thesis
    using announce by (simp add: verdict_def split: answer.split option.split sum.split)
qed

subsection \<open>The schedule in numbers\<close>

definition total :: "bool \<Rightarrow> nat \<Rightarrow> nat" where
  "total r n = sum_list (map (pollInterval r) [0..<n])"

definition max_polls :: "bool \<Rightarrow> nat" where
  "max_polls r = (if r then 18 else 12)"

lemma total_Suc: "total r (Suc n) = total r n + pollInterval r n"
  by (simp add: total_def)

lemma total_0 [simp]: "total r 0 = 0"
  by (simp add: total_def)

lemma total_mono: "m \<le> n \<Longrightarrow> total r m \<le> total r n"
  by (induction n) (auto simp: total_Suc le_Suc_eq)

lemma total_values:
  "total False 11 = 85000" "total False 12 = 95000" "total True 17 = 85000" "total True 18 = 90000"
  by code_simp+

lemma total_limit: "MAX_DURATION_MS \<le> total r n \<longleftrightarrow> max_polls r \<le> n"
proof
  assume "MAX_DURATION_MS \<le> total r n"
  show "max_polls r \<le> n"
  proof (rule ccontr)
    assume "\<not> max_polls r \<le> n"
    then have "n \<le> max_polls r - 1" by simp
    then have "total r n \<le> 85000"
      using total_mono [of n "max_polls r - 1" r] total_values by (cases r) (simp_all add: max_polls_def)
    with \<open>MAX_DURATION_MS \<le> total r n\<close> show False by (simp add: MAX_DURATION_MS_def)
  qed
next
  assume "max_polls r \<le> n"
  from total_mono [OF this, of r] total_values show "MAX_DURATION_MS \<le> total r n"
    by (cases r) (simp_all add: max_polls_def MAX_DURATION_MS_def)
qed

lemma scheduleNext_total:
  assumes "elapsed s = total r (attempt s)"
  shows "scheduleNext r s =
    (let s1 = s\<lparr>elapsed := total r (Suc (attempt s)), attempt := Suc (attempt s)\<rparr> in
     if max_polls r \<le> Suc (attempt s)
     then s1\<lparr>cancelled := True, timer := None,
        view := announceStatus timeout_message ((hideSpinner (view s))\<lparr>noticeHidden := map_option (\<lambda>_. False) (noticeHidden (view s))\<rparr>)\<rparr>
     else s1\<lparr>timer := Some (pollInterval r (attempt s))\<rparr>)"
  using assms total_limit [of r "Suc (attempt s)"]
  by (simp add: scheduleNext_def stopPolling_def hideSpinner_def Let_def total_Suc)

subsection \<open>The invariant\<close>

definition poller_inv :: "bool \<Rightarrow> poller \<Rightarrow> bool" where
  "poller_inv r s \<longleftrightarrow> elapsed s = total r (attempt s) \<and> polls s \<le> max_polls r \<and>
     (case timer s of
        None \<Rightarrow> cancelled s
      | Some d \<Rightarrow> \<not> cancelled s \<and> polls s = attempt s \<and> attempt s < max_polls r
          \<and> waited s + d = 800 + total r (attempt s))"

definition poller_rank :: "bool \<Rightarrow> poller \<Rightarrow> nat" where
  "poller_rank r s = (if timer s = None then 0 else 3 * (max_polls r - attempt s)) + length (frames (view s))"

text \<open>What firing the timer does, in the two cases of the verdict.\<close>

lemma fire_cases:
  assumes "poller_inv r s" "timer s = Some d"
  shows "fire h r a s =
    (let s1 = s\<lparr>timer := None, waited := waited s + d, polls := Suc (polls s), view := fst (verdict h a (view s))\<rparr> in
     case snd (verdict h a (view s)) of
       Some status \<Rightarrow> finish_poll status s1
     | None \<Rightarrow>
        (if max_polls r \<le> Suc (attempt s)
         then s1\<lparr>elapsed := total r (Suc (attempt s)), attempt := Suc (attempt s), cancelled := True,
            view := announceStatus timeout_message ((hideSpinner (view s1))\<lparr>noticeHidden := map_option (\<lambda>_. False) (noticeHidden (view s1))\<rparr>)\<rparr>
         else s1\<lparr>elapsed := total r (Suc (attempt s)), attempt := Suc (attempt s),
            timer := Some (pollInterval r (attempt s))\<rparr>))"
  using assms
  by (simp add: fire_def poll_def handle_answer_verdict scheduleNext_total poller_inv_def Let_def split: option.split)

lemma finish_poll_fields [simp]:
  "timer (finish_poll st s) = None" "cancelled (finish_poll st s)" "polls (finish_poll st s) = polls s"
  "attempt (finish_poll st s) = attempt s" "elapsed (finish_poll st s) = elapsed s"
  "waited (finish_poll st s) = waited s" "frames (view (finish_poll st s)) = frames (view s)"
  by (simp_all add: finish_poll_def stopPolling_def hideSpinner_def reload_def Let_def)

lemma poller_inv_fire: "poller_inv r s \<Longrightarrow> timer s = Some d \<Longrightarrow> poller_inv r (fire h r a s)"
  by (subst fire_cases, assumption, assumption)
    (auto simp: poller_inv_def Let_def total_Suc split: option.split)

lemma frames_announce: "length (frames (announceStatus m p)) \<le> Suc (length (frames p))"
  by (simp add: announceStatus_def split: option.split)

lemma frames_timeout:
  "length (frames (announceStatus m ((hideSpinner q)\<lparr>noticeHidden := x\<rparr>))) \<le> Suc (length (frames q))"
  using frames_announce [of m "(hideSpinner q)\<lparr>noticeHidden := x\<rparr>"] by (simp add: hideSpinner_def)

lemma fire_frames:
  assumes "poller_inv r s" "timer s = Some d"
  shows "length (frames (view (fire h r a s))) \<le> 2 + length (frames (view s))"
proof (cases "snd (verdict h a (view s))")
  case None
  have "length (frames (fst (verdict h a (view s)))) \<le> 2 + length (frames (view s))"
    using verdict_frames [of h a "view s"] by simp
  moreover have "length (frames (announceStatus m ((hideSpinner (fst (verdict h a (view s))))\<lparr>noticeHidden := x\<rparr>)))
      \<le> 2 + length (frames (view s))" for m x
    using frames_timeout [where q = "fst (verdict h a (view s))" and m = m and x = x] verdict_frames [of h a "view s"] by linarith
  ultimately show ?thesis
    using None by (simp add: fire_cases [OF assms] Let_def)
next
  case (Some st)
  then show ?thesis
    using verdict_frames [of h a "view s"] by (simp add: fire_cases [OF assms] Let_def)
qed

lemma fire_timer:
  assumes "poller_inv r s" "timer s = Some d"
  shows "timer (fire h r a s) \<noteq> None \<Longrightarrow> attempt (fire h r a s) = Suc (attempt s)"
  by (cases "snd (verdict h a (view s))") (auto simp: fire_cases [OF assms] Let_def)

lemma poller_rank_fire:
  assumes "poller_inv r s" "timer s = Some d"
  shows "poller_rank r (fire h r a s) < poller_rank r s"
  using fire_frames [OF assms, of h a] fire_timer [OF assms, of h a] assms
  by (auto simp: poller_rank_def poller_inv_def)

lemma run_frame_queue: "frames p \<noteq> [] \<Longrightarrow> length (frames (run_frame p)) < length (frames p)"
  by (cases "frames p") (simp_all add: run_frame_def)

lemma poller_inv_on_view: "poller_inv r s \<Longrightarrow> poller_inv r (on_view f s)"
  by (cases "timer s") (simp_all add: poller_inv_def)

lemma poller_inv_step: "poll_step h r s t \<Longrightarrow> poller_inv r s \<Longrightarrow> poller_inv r t"
  by (erule poll_stepE) (auto intro: poller_inv_fire poller_inv_on_view)

lemma poller_rank_step: "poll_step h r s t \<Longrightarrow> poller_inv r s \<Longrightarrow> poller_rank r t < poller_rank r s"
  by (erule poll_stepE) (auto intro: poller_rank_fire, simp add: poller_rank_def run_frame_queue)

lemma poller_inv_start: "poller_inv r (startPolling p)"
  by (simp add: startPolling_def poller_inv_def max_polls_def)

interpretation poller: resting_machine "\<lambda>s. \<exists>p. s = startPolling p" "poll_step h r" "poller_inv r" "poller_rank r"
  for h r
  by unfold_locales (auto intro: poller_inv_start poller_inv_step poller_rank_step)

subsection \<open>Properties of the polling\<close>

text \<open>
  C13: However the server answers and the events interleave, one page load sends at most 12 status
  requests, 18 under reduced motion.
\<close>

theorem polls_bounded:
  assumes "(poll_step h r)\<^sup>*\<^sup>* (startPolling p) s"
  shows "polls s \<le> (if r then 18 else 12)"
  using poller.inv_steps [OF assms poller_inv_start] by (simp add: poller_inv_def max_polls_def)

text \<open>
  The polling ends: no run takes more steps than three for each allowed request and one for each
  animation frame queued at the start.
\<close>

theorem polling_terminates:
  assumes "(poll_step h r ^^ n) (startPolling p) s"
  shows "n \<le> 3 * max_polls r + length (frames p)"
  using poller.run_length [OF poller_inv_start assms] by (simp add: poller_rank_def startPolling_def)

text \<open>
  C14: It ends at rest: from every reachable state the machine can come to a state with no timer, no
  queued frame and the polling stopped, in which nothing happens any more.
\<close>

theorem polling_rests:
  assumes "(poll_step h r)\<^sup>*\<^sup>* (startPolling p) s"
  shows "\<exists>t. (poll_step h r)\<^sup>*\<^sup>* s t \<and> cancelled t \<and> timer t = None \<and> frames (view t) = [] \<and> (\<nexists>u. poll_step h r t u)"
proof -
  have inv: "poller_inv r s" by (rule poller.inv_steps [OF assms poller_inv_start])
  obtain t where t: "(poll_step h r)\<^sup>*\<^sup>* s t" "\<nexists>u. poll_step h r t u"
    using poller.comes_to_rest [OF inv] by blast
  then have "timer t = None" "frames (view t) = []"
    using timer_fires [of t] frame_runs [of t] by blast+
  moreover from this have "cancelled t"
    using poller.inv_steps [OF t(1) inv] by (simp add: poller_inv_def)
  ultimately show ?thesis using t by blast
qed

text \<open>
  Nothing is requested after the end: once the polling has stopped, no later state of the page
  has sent another request.
\<close>

theorem no_poll_after_stop:
  assumes "(poll_step h r)\<^sup>*\<^sup>* (startPolling p) s" "cancelled s" "(poll_step h r)\<^sup>*\<^sup>* s t"
  shows "polls t = polls s"
proof (rule poller.constant_on_runs [where h = h and r = r and P = cancelled and s = s and t = t])
  show "poller_inv r s" by (rule poller.inv_steps [OF assms(1) poller_inv_start])
  show "cancelled v \<and> polls v = polls u"
    if "poller_inv r u" "cancelled u" "poll_step h r u v" for u v
    using that(3,1,2) by cases (auto simp: poller_inv_def)
qed (use assms in auto)

definition ends_polling :: "host \<Rightarrow> answer \<Rightarrow> page \<Rightarrow> bool" where
  "ends_polling h a p \<longleftrightarrow> (\<exists>data status. a = Answer data \<and> getp data (js ''status'') = Inr (Some status)
     \<and> is_terminal status \<and> fst (refresh h data status p) = None)"

lemma terminal_truthy: "is_terminal status \<Longrightarrow> truthy (Some status)"
  by (auto simp: is_terminal_def terminal_statuses_def truthy_def)

lemma verdict_terminal: "snd (verdict h a p) \<noteq> None \<longleftrightarrow> ends_polling h a p"
  by (auto simp: verdict_def ends_polling_def terminal_truthy split: answer.split option.split sum.split if_splits)

text \<open>
  When it stops. A poll that fires ends the polling exactly when its answer carries a terminal
  status and the page took the answer, or when it was the last one the schedule allows.
\<close>

theorem poll_stops_iff:
  assumes "(poll_step h r)\<^sup>*\<^sup>* (startPolling p) s" "timer s = Some d"
  shows "cancelled (fire h r a s) \<longleftrightarrow> ends_polling h a (view s) \<or> Suc (polls s) = max_polls r"
proof -
  have inv: "poller_inv r s" by (rule poller.inv_steps [OF assms(1) poller_inv_start])
  then have "polls s = attempt s" "attempt s < max_polls r" "\<not> cancelled s"
    using assms(2) by (simp_all add: poller_inv_def)
  then show ?thesis
    using verdict_terminal [of h a "view s"]
    by (cases "snd (verdict h a (view s))") (auto simp: fire_cases [OF inv assms(2)] Let_def)
qed

subsection \<open>Runs as lists of events\<close>

datatype event = Fires answer | Frame

definition happens :: "host \<Rightarrow> bool \<Rightarrow> poller \<Rightarrow> event \<Rightarrow> poller" where
  "happens h r s ev = (case ev of Fires a \<Rightarrow> fire h r a s | Frame \<Rightarrow> on_view run_frame s)"

lemma happens_step: "(poll_step h r)\<^sup>*\<^sup>* s (happens h r s ev)"
proof (cases ev)
  case (Fires a)
  then show ?thesis
    using timer_fires [of s h r a] by (cases "timer s") (auto simp: happens_def fire_def)
next
  case Frame
  then show ?thesis
    using frame_runs [of s h r] by (cases "frames (view s)") (auto simp: happens_def run_frame_def on_view_def)
qed

lemma happens_inv: "poller_inv r s \<Longrightarrow> poller_inv r (happens h r s ev)"
  using poller.inv_steps [OF happens_step] .

text \<open>An answer that does not carry a terminal status.\<close>

definition ongoing :: "answer \<Rightarrow> bool" where
  "ongoing a = (case a of
       Answer data \<Rightarrow> (case getp data (js ''status'') of Inr (Some status) \<Rightarrow> \<not> is_terminal status | _ \<Rightarrow> True)
     | _ \<Rightarrow> True)"

lemma ongoing_verdict: "ongoing a \<Longrightarrow> snd (verdict h a p) = None"
  using verdict_terminal [of h a p] by (auto simp: ongoing_def ends_polling_def)

lemma announce_notice [simp]: "noticeHidden (announceStatus m p) = noticeHidden p"
  by (simp add: announceStatus_def split: option.split)

lemma verdict_notice [simp]: "noticeHidden (fst (verdict h a p)) = noticeHidden p"
proof -
  have "noticeHidden (snd (refresh h data st p)) = noticeHidden p" for data st
    using refresh_announces [of st h data] announce_notice
    by (cases "fst (refresh h data st p)") (auto simp: announces_def status_parts_def dest!: spec [of _ p])
  then show ?thesis by (simp add: verdict_def split: answer.split option.split sum.split)
qed

definition fires :: "event list \<Rightarrow> nat" where
  "fires es = length (filter (\<lambda>ev. ev \<noteq> Frame) es)"

text \<open>Where a run without a terminal answer is after a number of polls.\<close>

definition unfinished :: "bool \<Rightarrow> nat \<Rightarrow> poller \<Rightarrow> bool" where
  "unfinished r n s \<longleftrightarrow>
     (if n < max_polls r then timer s \<noteq> None \<and> attempt s = n \<and> noticeHidden (view s) = Some True
      else timer s = None \<and> polls s = max_polls r \<and> waited s = 85800 \<and> noticeHidden (view s) = Some False)"

lemma total_last: "total r (max_polls r - 1) = 85000"
  using total_values by (cases r) (simp_all add: max_polls_def)

lemma unfinished_fire:
  assumes "poller_inv r s" "unfinished r n s" "ongoing a"
  shows "unfinished r (Suc n) (fire h r a s)"
proof (cases "timer s")
  case None
  with assms(2) show ?thesis by (simp add: unfinished_def fire_def split: if_splits)
next
  case (Some d)
  with assms have n: "n < max_polls r" "attempt s = n" "polls s = n" "waited s + d = 800 + total r n"
    by (auto simp: unfinished_def poller_inv_def split: if_splits)
  moreover have "waited s + d = 85800" if "Suc n = max_polls r"
    using n(4) total_last [of r] that [symmetric] by simp
  ultimately show ?thesis
    using assms(2) ongoing_verdict [OF assms(3), of h "view s"] Some
    by (auto simp: unfinished_def fire_cases [OF assms(1) Some] Let_def)
qed

lemma unfinished_run:
  assumes "poller_inv r s" "unfinished r n s" "\<forall>a. Fires a \<in> set es \<longrightarrow> ongoing a"
  shows "unfinished r (n + fires es) (foldl (happens h r) s es)"
  using assms
proof (induction es arbitrary: s n)
  case (Cons ev es)
  have inv: "poller_inv r (happens h r s ev)" by (rule happens_inv [OF Cons.prems(1)])
  show ?case
  proof (cases ev)
    case (Fires a)
    with Cons.prems have "unfinished r (Suc n) (happens h r s ev)"
      by (simp add: happens_def unfinished_fire)
    from Cons.IH [OF inv this] Cons.prems(3) Fires show ?thesis by (simp add: fires_def)
  next
    case Frame
    with Cons.prems have "unfinished r n (happens h r s ev)"
      by (simp add: happens_def unfinished_def run_frame_def split: list.split)
    with Cons.IH [OF inv] Cons.prems(3) Frame show ?thesis by (simp add: fires_def)
  qed
qed (simp add: fires_def)

text \<open>
  C12: If no answer is terminal, whatever else the answers are and however frames interleave, the
  timeout notice is shown by the last allowed poll and not before, after 85.8 s of timer delays. (The
  comment in the source says 90 s; the time that the requests take is not counted at all.)
\<close>

theorem timeout_notice:
  assumes "noticeHidden p = Some True" "\<forall>a. Fires a \<in> set es \<longrightarrow> ongoing a"
    and "s = foldl (happens h r) (startPolling p) es"
  shows "if fires es < max_polls r then timer s \<noteq> None \<and> polls s = fires es \<and> noticeHidden (view s) = Some True
    else timer s = None \<and> noticeHidden (view s) = Some False \<and> polls s = max_polls r \<and> waited s = 85800"
proof -
  have "unfinished r 0 (startPolling p)"
    using assms(1) by (simp add: unfinished_def startPolling_def max_polls_def)
  from unfinished_run [OF poller_inv_start this assms(2), of h] have u: "unfinished r (fires es) s"
    by (simp add: assms(3))
  have "poller_inv r s'" if "s' = foldl (happens h r) s0 es" "poller_inv r s0" for s0 s' es
    using that by (induction es arbitrary: s0) (auto intro: happens_inv)
  then have "poller_inv r s" using assms(3) poller_inv_start by blast
  with u show ?thesis by (auto simp: unfinished_def poller_inv_def)
qed

subsection \<open>Reloads and the progress indicator\<close>

lemma and_then_ok:
  "fst (and_then f g p) = None \<Longrightarrow> fst (f p) = None \<and> fst (g (snd (f p))) = None \<and> snd (and_then f g p) = snd (g (snd (f p)))"
  by (cases "fst (f p)") (simp_all add: and_then_fst and_then_snd)

definition static :: "update \<Rightarrow> bool" where
  "static f \<longleftrightarrow> (\<forall>p. reloads (snd (f p)) = reloads p \<and> supportCard (snd (f p)) = supportCard p)"

lemma static_updates:
  "static (ok (setPill st))" "static (updateStages data)" "static (updateSummary h data)"
  "static (\<lambda>p. case getp data k of Inl e \<Rightarrow> (Some e, p) | Inr events \<Rightarrow> updateTimeline h (f events) p)"
proof -
  show "static (ok (setPill st))" by (simp add: static_def setPill_def)
  show "static (updateStages data)"
    by (simp add: static_def updateStages_def split: option.splits sum.splits)
  show "static (updateSummary h data)"
    by (cases data) (simp_all add: static_def updateSummary_def getp_def)
  show "static (\<lambda>p. case getp data k of Inl e \<Rightarrow> (Some e, p) | Inr events \<Rightarrow> updateTimeline h (f events) p)"
    by (simp add: static_def updateTimeline_def split: option.splits sum.splits prod.splits)
qed

definition reloads_by :: "nat \<Rightarrow> bool \<Rightarrow> update \<Rightarrow> bool" where
  "reloads_by n hasCard f \<longleftrightarrow> (\<forall>p. supportCard p = hasCard \<longrightarrow> fst (f p) = None \<longrightarrow> reloads (snd (f p)) = reloads p + n)"

lemma reloads_static: "static f \<Longrightarrow> reloads_by n hasCard g \<Longrightarrow> reloads_by n hasCard (and_then f g)"
  unfolding reloads_by_def static_def using and_then_ok by metis

definition support_reload :: "json \<Rightarrow> bool \<Rightarrow> nat" where
  "support_reload data hasCard =
     (case getp data (js ''supportCase'') of Inr c \<Rightarrow> if truthy c \<and> \<not> hasCard then 1 else 0 | Inl _ \<Rightarrow> 0)"

lemma announce_reloads [simp]: "reloads (announceStatus m p) = reloads p"
  by (simp add: announceStatus_def split: option.split)

lemma refresh_reloads: "reloads_by (support_reload data hasCard) hasCard (refresh h data st)"
proof -
  have "reloads_by (support_reload data hasCard) hasCard (and_then
      (\<lambda>p. case getp data (js ''supportCase'') of Inl e \<Rightarrow> (Some e, p) | Inr c \<Rightarrow> (None, updateSupportCase c p))
      (ok (announceStatus m)))" for m
    by (simp add: reloads_by_def and_then_fst and_then_snd support_reload_def updateSupportCase_def reload_def
        split: sum.split)
  then show ?thesis
    unfolding refresh_def by (intro reloads_static [OF static_updates(1)] reloads_static [OF static_updates(2)]
        reloads_static [OF static_updates(3)] reloads_static [OF static_updates(4)])
qed

text \<open>
  The page is reloaded exactly when it must be: a good answer asks for one reload if it brings a
  support case that the page has no card for, one more if the status is a request for approval or a
  failure, and none otherwise, also when it is the last poll.
\<close>

theorem poll_reloads:
  assumes "(poll_step h r)\<^sup>*\<^sup>* (startPolling p) s" "timer s = Some d"
    and "getp data (js ''status'') = Inr (Some status)" "truthy (Some status)"
    and "fst (refresh h data status (view s)) = None"
  shows "reloads (view (fire h r (Answer data) s)) = reloads (view s) + support_reload data (supportCard (view s))
    + (if status \<in> {JStr (js ''WaitingForApproval''), JStr (js ''Failed'')} then 1 else 0)"
proof -
  have inv: "poller_inv r s" by (rule poller.inv_steps [OF assms(1) poller_inv_start])
  let ?p = "snd (refresh h data status (view s))"
  have p: "reloads ?p = reloads (view s) + support_reload data (supportCard (view s))"
    using refresh_reloads [of data "supportCard (view s)" h status] assms(5) by (simp add: reloads_by_def)
  have v: "verdict h (Answer data) (view s) = (?p, if is_terminal status then Some status else None)"
    using assms(3-5) by (simp add: verdict_def)
  have "\<not> is_terminal status \<Longrightarrow> status \<notin> {JStr (js ''WaitingForApproval''), JStr (js ''Failed'')}"
    by (auto simp: is_terminal_def terminal_statuses_def)
  then show ?thesis
    using p v by (auto simp: fire_cases [OF inv assms(2)] Let_def finish_poll_def stopPolling_def
        hideSpinner_def reload_def)
qed

text \<open>An indicator inside the live region does not survive an announcement.\<close>

lemma announce_spinner:
  assumes "liveRegion p \<noteq> None" "\<forall>i. spinner p = Some i \<longrightarrow> inRegion i"
  shows "spinner (announceStatus m p) = None"
  using assms by (auto simp: announceStatus_def split: option.split)

lemma refresh_spinner:
  assumes "fst (refresh h data st p) = None" "liveRegion p \<noteq> None" "\<forall>i. spinner p = Some i \<longrightarrow> inRegion i"
  shows "spinner (snd (refresh h data st p)) = None"
  using refresh_announces [of st h data] announce_spinner [OF assms(2,3)] assms(1)
  by (auto simp: announces_def status_parts_def dest!: spec [of _ p])

text \<open>
  The progress indicator goes too early: on the page that the server renders, where the indicator
  sits in the live region, the first good answer removes it although the workflow goes on and the next
  poll is pending.
\<close>

theorem indicator_lost:
  assumes "(poll_step h r)\<^sup>*\<^sup>* (startPolling p) s" "timer s = Some d" "Suc (polls s) < max_polls r"
    and "getp data (js ''status'') = Inr (Some status)" "truthy (Some status)" "\<not> is_terminal status"
    and "fst (refresh h data status (view s)) = None"
    and "liveRegion (view s) \<noteq> None" "\<forall>i. spinner (view s) = Some i \<longrightarrow> inRegion i"
  shows "spinner (view (fire h r (Answer data) s)) = None \<and> timer (fire h r (Answer data) s) \<noteq> None"
proof -
  have inv: "poller_inv r s" by (rule poller.inv_steps [OF assms(1) poller_inv_start])
  have v: "verdict h (Answer data) (view s) = (snd (refresh h data status (view s)), None)"
    using assms(4-7) by (simp add: verdict_def)
  have "Suc (attempt s) < max_polls r" using inv assms(2,3) by (simp add: poller_inv_def)
  with v refresh_spinner [OF assms(7-9)] show ?thesis
    by (simp add: fire_cases [OF inv assms(2)] Let_def)
qed

text \<open>
  Every announcement reaches the screen reader: whatever messages are still queued, once the
  frames queued so far have run, the live region reads the message announced last.
\<close>

lemma announcement_shown:
  assumes "liveRegion p = Some old"
  shows "liveRegion ((run_frame ^^ length (frames (announceStatus m p))) (announceStatus m p)) = Some m"
proof -
  have "frames q = ms @ [m] \<Longrightarrow> liveRegion ((run_frame ^^ length (frames q)) q) = Some m" for q ms
  proof (induction ms arbitrary: q)
    case Nil
    then show ?case by (simp add: run_frame_def)
  next
    case (Cons x ms)
    then have "frames (run_frame q) = ms @ [m]" by (simp add: run_frame_def)
    from Cons.IH [OF this] this Cons.prems show ?case by (simp add: funpow_swap1)
  qed
  then show ?thesis using assms by (simp add: announceStatus_def)
qed

subsection \<open>Concrete instances\<close>

definition sample_done :: answer where
  "sample_done = Answer (JObj [(js ''status'', JStr (js ''Completed''))])"

abbreviation sample_start :: poller where "sample_start \<equiv> startPolling sample_page"

lemma sample_fire: "(poll_step sample_host False)\<^sup>*\<^sup>* sample_start (fire sample_host False a sample_start)"
  by (rule r_into_rtranclp) (rule timer_fires, simp add: startPolling_def)

lemma sample_ends:
  "cancelled (fire sample_host False sample_done sample_start)"
  "frames (view (fire sample_host False sample_done sample_start)) \<noteq> []"
  by code_simp+

theorem polls_bounded_witness: "polls (fire sample_host False (Threw []) sample_start) \<le> 12"
  using polls_bounded [OF sample_fire, of "Threw []"] by simp

theorem polling_terminates_witness:
  "(poll_step sample_host False ^^ 1) sample_start (fire sample_host False (Threw []) sample_start) \<and> 1 \<le> 3 * max_polls False"
proof -
  have step: "(poll_step sample_host False ^^ 1) sample_start (fire sample_host False (Threw []) sample_start)"
    by (simp only: relpowp_1) (rule timer_fires, simp add: startPolling_def)
  with polling_terminates [OF step] show ?thesis by (simp add: sample_page_def)
qed

theorem polling_rests_witness:
  "\<exists>t. (poll_step sample_host False)\<^sup>*\<^sup>* sample_start t \<and> cancelled t \<and> timer t = None \<and> frames (view t) = []
     \<and> (\<nexists>u. poll_step sample_host False t u)"
  by (rule polling_rests) (rule rtranclp.rtrancl_refl)

theorem no_poll_after_stop_witness:
  "polls (on_view run_frame (fire sample_host False sample_done sample_start)) =
     polls (fire sample_host False sample_done sample_start)"
  by (rule no_poll_after_stop [OF sample_fire sample_ends(1)])
    (rule r_into_rtranclp, rule frame_runs, rule sample_ends(2))

theorem poll_stops_iff_witness: "cancelled (fire sample_host False sample_done sample_start)"
proof -
  have "timer sample_start = Some 800" by (simp add: startPolling_def)
  moreover have "ends_polling sample_host sample_done (view sample_start)"
    unfolding verdict_terminal [symmetric] by code_simp
  ultimately show ?thesis
    using poll_stops_iff [OF rtranclp.rtrancl_refl, of sample_page 800 sample_host False sample_done] by simp
qed

theorem timeout_notice_witness:
  "noticeHidden (view (foldl (happens sample_host True) sample_start (replicate 18 (Fires (Threw []))))) = Some False"
proof -
  have "fires (replicate 18 (Fires (Threw []))) = 18" by (simp add: fires_def filter_replicate)
  moreover have "noticeHidden sample_page = Some True" by (simp add: sample_page_def)
  moreover have "\<forall>a. Fires a \<in> set (replicate 18 (Fires (Threw []))) \<longrightarrow> ongoing a"
    by (auto simp: ongoing_def)
  ultimately show ?thesis
    using timeout_notice [of sample_page "replicate 18 (Fires (Threw []))" _ sample_host True]
    by (simp add: max_polls_def)
qed

theorem poll_reloads_witness:
  "reloads (view (fire sample_host False (Answer (answer_with ''Failed'')) sample_start)) = 1"
proof -
  let ?data = "answer_with ''Failed''"
  have "getp ?data (js ''status'') = Inr (Some (JStr (js ''Failed'')))" "truthy (Some (JStr (js ''Failed'')))"
    "timer sample_start = Some 800"
    by (simp_all add: answer_with_def getp_def truthy_def startPolling_def)
  moreover have "fst (refresh sample_host ?data (JStr (js ''Failed'')) (view sample_start)) = None"
    "support_reload ?data (supportCard (view sample_start)) = 0" "reloads (view sample_start) = 0"
    by code_simp+
  ultimately show ?thesis
    using poll_reloads [OF rtranclp.rtrancl_refl, of sample_page 800 ?data "JStr (js ''Failed'')" sample_host False]
    by simp
qed

theorem indicator_lost_witness:
  "spinner (view (fire sample_host False (Answer (answer_with ''Recovering'')) sample_start)) = None
   \<and> timer (fire sample_host False (Answer (answer_with ''Recovering'')) sample_start) \<noteq> None"
proof (rule indicator_lost [OF rtranclp.rtrancl_refl])
  let ?data = "answer_with ''Recovering''"
  show "timer sample_start = Some 800" "Suc (polls sample_start) < max_polls False"
    by (simp_all add: startPolling_def max_polls_def)
  show "getp ?data (js ''status'') = Inr (Some (JStr (js ''Recovering'')))" "truthy (Some (JStr (js ''Recovering'')))"
    "\<not> is_terminal (JStr (js ''Recovering''))"
    by (simp_all add: answer_with_def getp_def truthy_def is_terminal_def terminal_statuses_def)
  show "fst (refresh sample_host ?data (JStr (js ''Recovering'')) (view sample_start)) = None" by code_simp
  show "liveRegion (view sample_start) \<noteq> None" "\<forall>i. spinner (view sample_start) = Some i \<longrightarrow> inRegion i"
    by (simp_all add: startPolling_def sample_page_def)
qed

end
