(* ===== verification/SiteForms.thy ===== *)
theory SiteForms
  imports JsPrelude Machines
begin

text \<open>
  The request form of \<open>src/webui/wwwroot/js/site.js\<close>: the guided demo scenarios, the loading state
  of the forms, and the list of chosen evidence files. Scenarios and loading are state machines over
  the events that the listeners handle.
\<close>

subsection \<open>Demo scenarios\<close>

text \<open>A scenario card with its \<open>data-prompt\<close> and \<open>data-scenario\<close>; an absent input is \<open>None\<close>.\<close>

record card =
  dataPrompt :: "jstr option"
  dataScenario :: "jstr option"
  isSelected :: bool
  ariaPressed :: bool

record request =
  requestInput :: "jstr option"
  demoScenarioInput :: "jstr option"
  scenarioButtons :: "card list"

definition or_empty :: "jstr option \<Rightarrow> jstr" where
  "or_empty v = (case v of None \<Rightarrow> [] | Some s \<Rightarrow> s)"

definition mark :: "bool \<Rightarrow> card \<Rightarrow> card" where
  "mark b c = c\<lparr>isSelected := b, ariaPressed := b\<rparr>"

text \<open>The click listener of the card with index \<open>i\<close>.\<close>

definition clickCard :: "nat \<Rightarrow> request \<Rightarrow> request" where
  "clickCard i q =
     (if i < length (scenarioButtons q) \<and> requestInput q \<noteq> None \<and> demoScenarioInput q \<noteq> None
      then q\<lparr>requestInput := Some (or_empty (dataPrompt (scenarioButtons q ! i))),
             demoScenarioInput := Some (or_empty (dataScenario (scenarioButtons q ! i))),
             scenarioButtons := map (\<lambda>(j, c). mark (j = i) c) (enumerate 0 (scenarioButtons q))\<rparr>
      else q)"

text \<open>The user edits the request, and the input listener runs.\<close>

definition typeRequest :: "jstr \<Rightarrow> request \<Rightarrow> request" where
  "typeRequest t q =
     (case requestInput q of
        None \<Rightarrow> q
      | Some _ \<Rightarrow>
          (let q1 = q\<lparr>requestInput := Some t\<rparr> in
           if demoScenarioInput q = None then q1
           else q1\<lparr>demoScenarioInput := Some [], scenarioButtons := map (mark False) (scenarioButtons q)\<rparr>))"

inductive request_step :: "request \<Rightarrow> request \<Rightarrow> bool" where
  clicks: "i < length (scenarioButtons q) \<Longrightarrow> request_step q (clickCard i q)"
| types: "request_step q (typeRequest t q)"

inductive_cases request_stepE: "request_step q q'"

text \<open>The page as the server renders it: both inputs there, no card marked.\<close>

definition fresh_request :: "request \<Rightarrow> bool" where
  "fresh_request q \<longleftrightarrow> requestInput q \<noteq> None \<and> demoScenarioInput q \<noteq> None
     \<and> (\<forall>c\<in>set (scenarioButtons q). \<not> isSelected c \<and> \<not> ariaPressed c)"

text \<open>A marked card is the only one, is announced as pressed, and is what the form would submit.\<close>

definition request_inv :: "request \<Rightarrow> bool" where
  "request_inv q \<longleftrightarrow> requestInput q \<noteq> None \<and> demoScenarioInput q \<noteq> None
     \<and> (\<forall>i<length (scenarioButtons q). let c = scenarioButtons q ! i in
          ariaPressed c = isSelected c \<and>
          (isSelected c \<longrightarrow> requestInput q = Some (or_empty (dataPrompt c))
             \<and> demoScenarioInput q = Some (or_empty (dataScenario c))
             \<and> (\<forall>j<length (scenarioButtons q). isSelected (scenarioButtons q ! j) \<longrightarrow> j = i)))"

lemma mark_fields [simp]:
  "isSelected (mark b c) = b" "ariaPressed (mark b c) = b"
  "dataPrompt (mark b c) = dataPrompt c" "dataScenario (mark b c) = dataScenario c"
  by (simp_all add: mark_def)

lemma request_inv_click: "request_inv q \<Longrightarrow> request_inv (clickCard i q)"
  by (auto simp: clickCard_def request_inv_def Let_def nth_enumerate_eq)

lemma request_inv_type: "request_inv q \<Longrightarrow> request_inv (typeRequest t q)"
  by (auto simp: typeRequest_def request_inv_def Let_def split: option.split)

interpretation scenario_cards: machine fresh_request request_step request_inv
proof unfold_locales
  show "request_inv q" if "fresh_request q" for q
    using that by (auto simp: fresh_request_def request_inv_def Let_def)
  show "request_inv q'" if "request_inv q" "request_step q q'" for q q'
    using that(2,1) by (auto elim!: request_stepE intro: request_inv_click request_inv_type)
qed

text \<open>
  The cards and the form never disagree: after any clicks and edits, a selected card is the only
  selected one, assistive technology hears exactly it as pressed, and the request text and the hidden
  scenario are that card's.
\<close>

theorem scenario_consistent:
  assumes "fresh_request q0" "request_step\<^sup>*\<^sup>* q0 q"
    and "i < length (scenarioButtons q)" "isSelected (scenarioButtons q ! i)"
  shows "requestInput q = Some (or_empty (dataPrompt (scenarioButtons q ! i)))
    \<and> demoScenarioInput q = Some (or_empty (dataScenario (scenarioButtons q ! i)))
    \<and> (\<forall>j<length (scenarioButtons q). ariaPressed (scenarioButtons q ! j) = (j = i)
         \<and> isSelected (scenarioButtons q ! j) = (j = i))"
  using scenario_cards.inv_reach [OF assms(1,2)] assms(3,4) unfolding request_inv_def Let_def by blast

subsection \<open>Evidence files\<close>

record evidence_file =
  fileName :: jstr
  fileSize :: nat

text \<open>
  \<open>(size / 1024 / 1024).toFixed(1)\<close>: dividing by powers of two is exact for every size below
  \<open>2 ^ 53\<close>, and \<open>toFixed\<close> takes the nearest tenth, the larger of two.
\<close>

definition tenths :: "nat \<Rightarrow> nat" where
  "tenths sz = (20 * sz + 1048576) div 2097152"

definition megabytes :: "nat \<Rightarrow> jstr" where
  "megabytes sz = js_nat (tenths sz div 10) @ js ''.'' @ js_nat (tenths sz mod 10)"

definition file_item :: "evidence_file \<Rightarrow> jstr" where
  "file_item f = fileName f @ [32, 0xB7, 32] @ megabytes (fileSize f) @ js '' MB''"

definition showFiles :: "evidence_file list \<Rightarrow> jstr list" where
  "showFiles files = map file_item files"

text \<open>
  The size shown beside a file is right to half a tenth of a megabyte, with one digit after the
  point.
\<close>

lemma megabytes_nearest:
  "\<exists>w d. megabytes sz = js_nat w @ js ''.'' @ js_nat d \<and> d < 10
    \<and> \<bar>int (10 * w + d) * 1048576 - 10 * int sz\<bar> * 2 \<le> 1048576"
proof -
  define n where "n = tenths sz"
  have "n * 2097152 \<le> 20 * sz + 1048576" "20 * sz + 1048576 < n * 2097152 + 2097152"
    unfolding n_def tenths_def using div_mult_mod_eq [of "20 * sz + 1048576" 2097152]
      mod_less_divisor [of 2097152 "20 * sz + 1048576"] by linarith+
  then have "int (n * 2097152) \<le> int (20 * sz + 1048576)" "int (20 * sz + 1048576) < int (n * 2097152 + 2097152)"
    by (simp_all only: of_nat_le_iff of_nat_less_iff)
  then have "\<bar>int n * 1048576 - 10 * int sz\<bar> * 2 \<le> 1048576"
    by (simp add: abs_if)
  moreover have "10 * (n div 10) + n mod 10 = n" by simp
  ultimately show ?thesis
    by (intro exI [of _ "n div 10"] exI [of _ "n mod 10"]) (simp add: megabytes_def n_def del: of_nat_add of_nat_mult)
qed

subsection \<open>The loading state\<close>

record control =
  disabledAttr :: bool
  ariaDisabled :: bool

record loading_form =
  isLoading :: bool
  controls :: "control list"
  ariaBusy :: bool

definition set_busy :: "bool \<Rightarrow> loading_form \<Rightarrow> loading_form" where
  "set_busy b f = f\<lparr>isLoading := b,
     controls := map (\<lambda>c. c\<lparr>disabledAttr := b, ariaDisabled := b\<rparr>) (controls f), ariaBusy := b\<rparr>"

definition LOADING_SAFETY_RESTORE_MS :: nat where
  "LOADING_SAFETY_RESTORE_MS = 100000"

text \<open>
  One \<open>[data-loading-form]\<close> with its tasks: \<open>deferred\<close> are the submit events whose \<open>setTimeout(0)\<close> is
  pending, \<open>safety\<close> the due times of the pending safety timers, \<open>prevented\<close> the events whose
  \<open>defaultPrevented\<close> is set. Different forms share nothing. \<open>busySince\<close> only records when the busy
  state was last entered.
\<close>

record loader =
  form :: loading_form
  deferred :: "nat list"
  safety :: "nat list"
  prevented :: "nat list"
  nextEvent :: nat
  clock :: nat
  busySince :: nat

text \<open>
  \<open>jqForm?.valid?.() ?? form.checkValidity()\<close>; \<open>cancelled\<close> says whether some other listener of the
  same dispatch calls \<open>preventDefault\<close>, before or after this one.
\<close>

definition is_valid :: "bool option \<Rightarrow> bool \<Rightarrow> bool" where
  "is_valid jqValid checkValidity = (case jqValid of Some v \<Rightarrow> v | None \<Rightarrow> checkValidity)"

definition onSubmit :: "bool option \<Rightarrow> bool \<Rightarrow> bool \<Rightarrow> loader \<Rightarrow> loader" where
  "onSubmit jqValid checkValidity cancelled s =
     (let e = nextEvent s; s1 = s\<lparr>nextEvent := e + 1\<rparr> in
      if \<not> is_valid jqValid checkValidity then s1\<lparr>prevented := e # prevented s\<rparr>
      else s1\<lparr>deferred := deferred s @ [e],
              prevented := (if cancelled then e # prevented s else prevented s)\<rparr>)"

definition onDeferred :: "loader \<Rightarrow> loader" where
  "onDeferred s =
     (case deferred s of
        [] \<Rightarrow> s
      | e # rest \<Rightarrow>
          if e \<in> set (prevented s) then s\<lparr>deferred := rest\<rparr>
          else s\<lparr>deferred := rest, form := set_busy True (form s),
                 safety := safety s @ [clock s + LOADING_SAFETY_RESTORE_MS], busySince := clock s\<rparr>)"

definition onSafety :: "loader \<Rightarrow> loader" where
  "onSafety s =
     (case safety s of
        [] \<Rightarrow> s
      | due # rest \<Rightarrow>
          s\<lparr>safety := rest, form := (if \<not> isLoading (form s) then form s else set_busy False (form s))\<rparr>)"

definition onPageShow :: "bool \<Rightarrow> loader \<Rightarrow> loader" where
  "onPageShow persisted s =
     (if \<not> persisted then s
      else s\<lparr>form := (if isLoading (form s) then set_busy False (form s) else form s)\<rparr>)"

datatype form_event = Submit "bool option" bool bool | RunDeferred | RunSafety | PageShow bool | Tick nat

fun form_does :: "loader \<Rightarrow> form_event \<Rightarrow> loader" where
  "form_does s (Submit jqValid checkValidity cancelled) = onSubmit jqValid checkValidity cancelled s"
| "form_does s RunDeferred = onDeferred s"
| "form_does s RunSafety = onSafety s"
| "form_does s (PageShow persisted) = onPageShow persisted s"
| "form_does s (Tick d) = s\<lparr>clock := clock s + d\<rparr>"

text \<open>
  What can happen: the user submits through an enabled control, a pending zero-delay task runs, the
  earliest safety timer runs once it is due, the page is shown again, time passes.
\<close>

definition can_submit :: "loader \<Rightarrow> bool" where
  "can_submit s \<longleftrightarrow> (\<exists>c\<in>set (controls (form s)). \<not> disabledAttr c)"

fun enabled :: "loader \<Rightarrow> form_event \<Rightarrow> bool" where
  "enabled s (Submit _ _ _) = can_submit s"
| "enabled s RunDeferred = (deferred s \<noteq> [])"
| "enabled s RunSafety = (safety s \<noteq> [] \<and> hd (safety s) \<le> clock s)"
| "enabled s (PageShow _) = True"
| "enabled s (Tick _) = True"

fun form_run :: "loader \<Rightarrow> form_event list \<Rightarrow> loader option" where
  "form_run s [] = Some s"
| "form_run s (ev # evs) = (if enabled s ev then form_run (form_does s ev) evs else None)"

inductive form_step :: "loader \<Rightarrow> loader \<Rightarrow> bool" where
  "enabled s ev \<Longrightarrow> form_step s (form_does s ev)"

inductive_cases form_stepE: "form_step s t"

definition fresh_form :: "loader \<Rightarrow> bool" where
  "fresh_form s \<longleftrightarrow> \<not> isLoading (form s) \<and> \<not> ariaBusy (form s) \<and> deferred s = [] \<and> safety s = [] \<and> prevented s = []
     \<and> (\<forall>c\<in>set (controls (form s)). \<not> disabledAttr c \<and> \<not> ariaDisabled c)"

text \<open>The busy class, the disabled controls and \<open>aria-busy\<close> always agree.\<close>

definition form_inv :: "loader \<Rightarrow> bool" where
  "form_inv s \<longleftrightarrow> ariaBusy (form s) = isLoading (form s)
     \<and> (\<forall>c\<in>set (controls (form s)). disabledAttr c = isLoading (form s) \<and> ariaDisabled c = isLoading (form s))
     \<and> (\<forall>e\<in>set (prevented s). e < nextEvent s)"

lemma form_inv_does: "form_inv s \<Longrightarrow> form_inv (form_does s ev)"
  by (cases ev) (auto simp: form_inv_def onSubmit_def onDeferred_def onSafety_def onPageShow_def set_busy_def
      Let_def less_Suc_eq split: list.split)

lemma form_inv_fresh: "fresh_form s \<Longrightarrow> form_inv s"
  by (simp add: fresh_form_def form_inv_def)

interpretation loading: machine fresh_form form_step form_inv
  by unfold_locales (auto elim!: form_stepE intro: form_inv_does form_inv_fresh)

lemma form_run_steps: "form_run s evs = Some t \<Longrightarrow> form_step\<^sup>*\<^sup>* s t"
proof (induction evs arbitrary: s)
  case (Cons ev evs)
  then have "form_step s (form_does s ev)" "form_step\<^sup>*\<^sup>* (form_does s ev) t"
    by (auto split: if_splits intro: form_step.intros)
  then show ?case by (rule converse_rtranclp_into_rtranclp)
qed simp

text \<open>
  C20: No double submission: whatever happened before, a form in the busy state has every control
  disabled and marked so, is announced as busy, and cannot be submitted.
\<close>

theorem busy_form_locked:
  assumes "fresh_form s0" "form_step\<^sup>*\<^sup>* s0 s" "isLoading (form s)"
  shows "\<not> can_submit s \<and> ariaBusy (form s)
    \<and> (\<forall>c\<in>set (controls (form s)). disabledAttr c \<and> ariaDisabled c)"
  using loading.inv_reach [OF assms(1,2)] assms(3) by (simp add: form_inv_def can_submit_def)

text \<open>
  The busy state follows the submission and nothing else: after the deferred task of a submit
  event the form is busy exactly when the form was valid and no listener cancelled the event, and is
  otherwise as it was before the event; jQuery's verdict counts before the browser's.
\<close>

theorem submit_then_deferred:
  assumes "fresh_form s0" "form_step\<^sup>*\<^sup>* s0 s" "deferred s = []"
  shows "form (onDeferred (onSubmit jqValid checkValidity cancelled s)) =
    (if (case jqValid of Some v \<Rightarrow> v | None \<Rightarrow> checkValidity) \<and> \<not> cancelled
     then set_busy True (form s) else form s)"
proof -
  have "nextEvent s \<notin> set (prevented s)"
    using loading.inv_reach [OF assms(1,2)] by (auto simp: form_inv_def)
  with assms(3) show ?thesis
    by (auto simp: onSubmit_def onDeferred_def is_valid_def Let_def split: option.splits)
qed

subsection \<open>How long the busy state lasts\<close>

definition guarded :: "nat \<Rightarrow> loader \<Rightarrow> bool" where
  "guarded limit s \<longleftrightarrow> isLoading (form s) \<and> (\<forall>due\<in>set (safety s). limit \<le> due) \<and> limit \<le> clock s + LOADING_SAFETY_RESTORE_MS"

lemma guarded_does:
  assumes "guarded limit s" "enabled s ev" "ev \<noteq> PageShow True" "clock s < limit"
  shows "guarded limit (form_does s ev)"
proof (cases ev)
  case RunSafety
  with assms(2) have "hd (safety s) \<in> set (safety s)" "hd (safety s) \<le> clock s" by auto
  with assms(1,4) show ?thesis by (auto simp: guarded_def)
qed (use assms in \<open>auto simp: guarded_def onSubmit_def onDeferred_def onPageShow_def set_busy_def Let_def
    LOADING_SAFETY_RESTORE_MS_def split: list.split\<close>)

lemma clock_does: "clock s \<le> clock (form_does s ev)"
  by (cases ev) (auto simp: onSubmit_def onDeferred_def onSafety_def onPageShow_def Let_def split: list.split)

lemma clock_run: "form_run s evs = Some t \<Longrightarrow> clock s \<le> clock t"
proof (induction evs arbitrary: s)
  case (Cons ev evs)
  then have "clock (form_does s ev) \<le> clock t" by (simp split: if_splits)
  with clock_does [of s ev] show ?case by simp
qed simp

lemma guarded_run:
  "form_run s evs = Some t \<Longrightarrow> guarded limit s \<Longrightarrow> PageShow True \<notin> set evs \<Longrightarrow> clock t < limit \<Longrightarrow> guarded limit t"
proof (induction evs arbitrary: s)
  case (Cons ev evs)
  then have run: "enabled s ev" "form_run (form_does s ev) evs = Some t" by (auto split: if_splits)
  with clock_run [OF run(2)] clock_does [of s ev] Cons.prems(4) have "clock s < limit" by simp
  moreover from Cons.prems(3) have "ev \<noteq> PageShow True" by auto
  ultimately have "guarded limit (form_does s ev)" using guarded_does Cons.prems(2) run(1) by blast
  with Cons.prems run Cons.IH [OF run(2)] show ?case by simp
qed simp

text \<open>
  A first submission stays protected: from the moment the busy state is entered with no older
  safety timer pending, the form stays busy for the whole 100 seconds, whatever events arrive, unless
  the page is restored from the back-forward cache.
\<close>

theorem busy_lasts:
  assumes "deferred s = e # rest" "e \<notin> set (prevented s)" "safety s = []"
    and "form_run (onDeferred s) evs = Some t" "PageShow True \<notin> set evs"
    and "clock t < clock s + LOADING_SAFETY_RESTORE_MS"
  shows "isLoading (form t)"
proof -
  have "guarded (clock s + LOADING_SAFETY_RESTORE_MS) (onDeferred s)"
    using assms(1-3) by (simp add: guarded_def onDeferred_def set_busy_def)
  from guarded_run [OF assms(4) this assms(5,6)] show ?thesis by (simp add: guarded_def)
qed

text \<open>
  A second submission is not: after a return through the back-forward cache the old safety timer
  is still pending, and it re-enables the form of a later submission before that submission has had
  its 100 seconds, so the form can be sent twice.
\<close>

theorem stale_safety_timer:
  "\<exists>s0 evs t. fresh_form s0 \<and> form_run s0 (evs @ [RunSafety]) = Some t \<and> (\<exists>u. form_run s0 evs = Some u \<and> isLoading (form u))
    \<and> can_submit t \<and> clock t < busySince t + LOADING_SAFETY_RESTORE_MS"
proof -
  define s0 where "s0 = \<lparr>form = \<lparr>isLoading = False, controls = [\<lparr>disabledAttr = False, ariaDisabled = False\<rparr>], ariaBusy = False\<rparr>,
    deferred = [], safety = [], prevented = [], nextEvent = 0, clock = 0, busySince = 0\<rparr>"
  define evs where "evs = [Submit None True False, RunDeferred, Tick 30000, PageShow True,
    Submit None True False, RunDeferred, Tick 70000]"
  have "fresh_form s0" by (simp add: fresh_form_def s0_def)
  moreover have "\<exists>u. form_run s0 evs = Some u \<and> isLoading (form u)"
    "\<exists>t. form_run s0 (evs @ [RunSafety]) = Some t \<and> can_submit t \<and> clock t < busySince t + LOADING_SAFETY_RESTORE_MS"
    by (simp_all add: s0_def evs_def can_submit_def onSubmit_def onDeferred_def onSafety_def onPageShow_def
        set_busy_def is_valid_def LOADING_SAFETY_RESTORE_MS_def)
  ultimately show ?thesis by blast
qed

subsection \<open>Concrete instances\<close>

definition sample_cards :: request where
  "sample_cards = \<lparr>requestInput = Some [], demoScenarioInput = Some [],
     scenarioButtons = [\<lparr>dataPrompt = Some (js ''Pay''), dataScenario = Some (js ''a''), isSelected = False, ariaPressed = False\<rparr>,
       \<lparr>dataPrompt = Some (js ''Dispute''), dataScenario = Some (js ''b''), isSelected = False, ariaPressed = False\<rparr>]\<rparr>"

theorem scenario_consistent_witness:
  "requestInput (clickCard 1 sample_cards) = Some (js ''Dispute'')
   \<and> demoScenarioInput (clickCard 1 sample_cards) = Some (js ''b'')"
proof -
  have "fresh_request sample_cards" by (simp add: fresh_request_def sample_cards_def)
  moreover have "request_step\<^sup>*\<^sup>* sample_cards (clickCard 1 sample_cards)"
    by (rule r_into_rtranclp) (rule clicks, simp add: sample_cards_def)
  moreover have "1 < length (scenarioButtons (clickCard 1 sample_cards))"
    "isSelected (scenarioButtons (clickCard 1 sample_cards) ! 1)"
    "dataPrompt (scenarioButtons (clickCard 1 sample_cards) ! 1) = Some (js ''Dispute'')"
    "dataScenario (scenarioButtons (clickCard 1 sample_cards) ! 1) = Some (js ''b'')"
    by code_simp+
  ultimately show ?thesis
    using scenario_consistent [of sample_cards "clickCard 1 sample_cards" 1] by (simp add: or_empty_def)
qed

definition sample_form :: loader where
  "sample_form = \<lparr>form = \<lparr>isLoading = False, controls = [\<lparr>disabledAttr = False, ariaDisabled = False\<rparr>], ariaBusy = False\<rparr>,
    deferred = [], safety = [], prevented = [], nextEvent = 0, clock = 0, busySince = 0\<rparr>"

lemma sample_fresh: "fresh_form sample_form"
  by (simp add: fresh_form_def sample_form_def)

theorem busy_form_locked_witness:
  "\<exists>s. form_run sample_form [Submit (Some True) False False, RunDeferred] = Some s \<and> isLoading (form s) \<and> \<not> can_submit s"
proof -
  have "case form_run sample_form [Submit (Some True) False False, RunDeferred] of None \<Rightarrow> False | Some s \<Rightarrow> isLoading (form s)"
    by code_simp
  then obtain s where "form_run sample_form [Submit (Some True) False False, RunDeferred] = Some s" "isLoading (form s)"
    by (auto split: option.splits)
  with busy_form_locked [OF sample_fresh form_run_steps [OF this(1)] this(2)] show ?thesis by blast
qed

theorem submit_then_deferred_witness:
  "form (onDeferred (onSubmit (Some False) True False sample_form)) = form sample_form"
  using submit_then_deferred [OF sample_fresh rtranclp.rtrancl_refl, of "Some False" True False]
  by (simp add: sample_form_def)

theorem busy_lasts_witness:
  "\<exists>t. form_run (onDeferred (onSubmit None True False sample_form)) [Tick 99999, PageShow False] = Some t \<and> isLoading (form t)"
proof -
  let ?s = "onSubmit None True False sample_form"
  have s: "deferred ?s = [0]" "0 \<notin> set (prevented ?s)" "safety ?s = []" by code_simp+
  obtain t where t: "form_run (onDeferred ?s) [Tick 99999, PageShow False] = Some t" by simp
  then have "clock t < clock ?s + LOADING_SAFETY_RESTORE_MS"
    by (auto simp: onDeferred_def onPageShow_def s LOADING_SAFETY_RESTORE_MS_def sample_form_def onSubmit_def Let_def is_valid_def)
  with busy_lasts [OF s t] t show ?thesis by simp
qed

end
