(* ===== verification/JsPattern.thy ===== *)
theory JsPattern
  imports JsRegex
begin

text \<open>
  Regular expressions as text: the pattern grammar of ECMAScript (no named groups, look-behind, back
  references or the flag \<open>u\<close>), read by recursive descent into the syntax of \<open>JsRegex\<close>. It serves both
  \<open>new RegExp(text)\<close> and the literals of the validation methods, which can so be quoted as they stand
  in the source. A literal is written \<open>rx ''...''\<close> with a backquote for each backslash, which no
  Isabelle string can hold.
\<close>

subsection \<open>Characters and escapes\<close>

definition hex_value :: "cunit \<Rightarrow> nat option" where
  "hex_value c =
     (if is_digit c then Some (c - 48)
      else if 97 \<le> c \<and> c \<le> 102 then Some (c - 87)
      else if 65 \<le> c \<and> c \<le> 70 then Some (c - 55)
      else None)"

fun hex_number :: "nat \<Rightarrow> cunit list \<Rightarrow> nat option" where
  "hex_number v [] = Some v"
| "hex_number v (c # cs) = (case hex_value c of None \<Rightarrow> None | Some d \<Rightarrow> hex_number (16 * v + d) cs)"

text \<open>The escapes that stand for one class, and those that stand for one unit.\<close>

definition class_escape :: "cunit \<Rightarrow> citem option" where
  "class_escape c =
     (if c = of_char CHR ''d'' then Some Digit else if c = of_char CHR ''D'' then Some NotDigit
      else if c = of_char CHR ''w'' then Some Word else if c = of_char CHR ''W'' then Some NotWord
      else if c = of_char CHR ''s'' then Some Space else if c = of_char CHR ''S'' then Some NotSpace
      else None)"

definition control_escape :: "cunit \<Rightarrow> cunit" where
  "control_escape c =
     (if c = of_char CHR ''t'' then 9 else if c = of_char CHR ''n'' then 10 else if c = of_char CHR ''v'' then 11
      else if c = of_char CHR ''f'' then 12 else if c = of_char CHR ''r'' then 13 else if c = of_char CHR ''0'' then 0
      else c)"

text \<open>What follows a backslash: the item it denotes and the rest.\<close>

definition read_escape :: "cunit \<Rightarrow> jstr \<Rightarrow> citem \<times> jstr" where
  "read_escape c r =
     (case class_escape c of
        Some it \<Rightarrow> (it, r)
      | None \<Rightarrow>
          if c = of_char CHR ''u'' \<and> 4 \<le> length r \<and> hex_number 0 (take 4 r) \<noteq> None
          then (case hex_number 0 (take 4 r) of Some v \<Rightarrow> (Range v v, drop 4 r) | None \<Rightarrow> (Range c c, r))
          else if c = of_char CHR ''x'' \<and> 2 \<le> length r \<and> hex_number 0 (take 2 r) \<noteq> None
          then (case hex_number 0 (take 2 r) of Some v \<Rightarrow> (Range v v, drop 2 r) | None \<Rightarrow> (Range c c, r))
          else (Range (control_escape c) (control_escape c), r))"

subsection \<open>Classes\<close>

text \<open>One class atom; \<open>None\<close> at the end of the pattern.\<close>

definition class_atom :: "jstr \<Rightarrow> (citem \<times> jstr) option" where
  "class_atom s =
     (case s of
        [] \<Rightarrow> None
      | c # r \<Rightarrow>
          if c = 92 then (case r of [] \<Rightarrow> None | d # r' \<Rightarrow>
             if d = of_char CHR ''b'' then Some (Range 8 8, r') else Some (read_escape d r'))
          else Some (Range c c, r))"

text \<open>One atom or a range: \<open>a-b\<close> is a range when both sides are single units.\<close>

definition class_member :: "jstr \<Rightarrow> (citem list \<times> jstr) option" where
  "class_member s =
     (case class_atom s of
        None \<Rightarrow> None
      | Some (a, r1) \<Rightarrow>
          (case (a, r1) of
             (Range lo _, d # r2) \<Rightarrow>
               if d = 45 \<and> r2 \<noteq> [] \<and> hd r2 \<noteq> 93
               then (case class_atom r2 of
                       Some (Range hi _, r3) \<Rightarrow> if lo \<le> hi then Some ([Range lo hi], r3) else None
                     | Some (b, r3) \<Rightarrow> Some ([a, Range 45 45, b], r3)
                     | None \<Rightarrow> None)
               else Some ([a], r1)
           | _ \<Rightarrow> Some ([a], r1)))"

text \<open>The members up to the closing bracket.\<close>

fun class_items :: "nat \<Rightarrow> jstr \<Rightarrow> (citem list \<times> jstr) option" where
  "class_items 0 s = None"
| "class_items (Suc n) s =
     (case s of
        [] \<Rightarrow> None
      | c # r \<Rightarrow>
          if c = 93 then Some ([], r)
          else (case class_member s of
                  None \<Rightarrow> None
                | Some (its, r1) \<Rightarrow> map_option (\<lambda>(its', r2). (its @ its', r2)) (class_items n r1)))"

subsection \<open>Quantifiers\<close>

fun digits :: "jstr \<Rightarrow> jstr \<times> jstr" where
  "digits [] = ([], [])"
| "digits (c # cs) = (if is_digit c then (case digits cs of (ds, r) \<Rightarrow> (c # ds, r)) else ([], c # cs))"

definition lazily :: "nat \<Rightarrow> nat option \<Rightarrow> re \<Rightarrow> jstr \<Rightarrow> re \<times> jstr" where
  "lazily lo hi p r = (case r of c # r' \<Rightarrow> if c = 63 then (Rep False lo hi p, r') else (Rep True lo hi p, r)
     | [] \<Rightarrow> (Rep True lo hi p, r))"

text \<open>\<open>{n}\<close>, \<open>{n,}\<close> and \<open>{n,m}\<close>; any other use of a brace is literal.\<close>

definition braces :: "jstr \<Rightarrow> (nat \<times> nat option \<times> jstr) option" where
  "braces s =
     (case digits s of
        (ds, r) \<Rightarrow>
          if ds = [] then None
          else (case r of
                  c # r1 \<Rightarrow>
                    if c = 125 then Some (dec_value ds, Some (dec_value ds), r1)
                    else if c = 44 then
                      (case digits r1 of
                         (es, r2) \<Rightarrow>
                           (case r2 of
                              d # r3 \<Rightarrow> if d = 125 then Some (dec_value ds, if es = [] then None else Some (dec_value es), r3) else None
                            | [] \<Rightarrow> None))
                    else None
                | [] \<Rightarrow> None))"

definition quantified :: "re \<Rightarrow> jstr \<Rightarrow> re \<times> jstr" where
  "quantified p s =
     (case s of
        [] \<Rightarrow> (p, [])
      | c # r \<Rightarrow>
          if c = 42 then lazily 0 None p r
          else if c = 43 then lazily 1 None p r
          else if c = 63 then lazily 0 (Some 1) p r
          else if c = 123 then
            (case braces r of Some (lo, hi, r') \<Rightarrow> lazily lo hi p r' | None \<Rightarrow> (p, s))
          else (p, s))"

text \<open>Bounds out of order are a syntax error.\<close>

definition in_order :: "re \<Rightarrow> bool" where
  "in_order p = (case p of Rep _ lo (Some hi) _ \<Rightarrow> lo \<le> hi | _ \<Rightarrow> True)"

text \<open>After an opening parenthesis: a capture group, \<open>?:\<close>, \<open>?=\<close> or \<open>?!\<close>, and where its body starts.\<close>

definition group_kind :: "jstr \<Rightarrow> nat \<times> jstr" where
  "group_kind r =
     (if js_starts_with r [63, 58] then (1, drop 2 r)
      else if js_starts_with r [63, 61] then (2, drop 2 r)
      else if js_starts_with r [63, 33] then (3, drop 2 r)
      else (0, r))"

definition grouped :: "nat \<Rightarrow> nat \<Rightarrow> re \<Rightarrow> re" where
  "grouped kind g p = (if kind = 0 then Group g p else if kind = 1 then p else if kind = 2 then Look False p else Look True p)"

subsection \<open>Patterns\<close>

text \<open>
  \<open>g\<close> is the number of the next capture group. The fuel is three more than three times the length of
  the pattern: each round of the three functions consumes a unit, so no larger fuel gives another
  answer (\<open>p_alt_fuel\<close>).
\<close>

fun p_alt :: "nat \<Rightarrow> nat \<Rightarrow> jstr \<Rightarrow> (re \<times> nat \<times> jstr) option"
and p_seq :: "nat \<Rightarrow> nat \<Rightarrow> jstr \<Rightarrow> (re \<times> nat \<times> jstr) option"
and p_atom :: "nat \<Rightarrow> nat \<Rightarrow> jstr \<Rightarrow> (re \<times> nat \<times> jstr) option" where
  "p_alt 0 g s = None"
| "p_alt (Suc n) g s =
     (case p_seq n g s of
        None \<Rightarrow> None
      | Some (p, g1, r) \<Rightarrow>
          (case r of
             c # r' \<Rightarrow>
               if c = 124 then map_option (\<lambda>(q, g2, r2). (Alt p q, g2, r2)) (p_alt n g1 r')
               else Some (p, g1, r)
           | [] \<Rightarrow> Some (p, g1, r)))"
| "p_seq 0 g s = None"
| "p_seq (Suc n) g s =
     (if s = [] \<or> hd s = 124 \<or> hd s = 41 then Some (Eps, g, s)
      else (case p_atom n g s of
              None \<Rightarrow> None
            | Some (p, g1, r) \<Rightarrow>
                (case quantified p r of (p', r') \<Rightarrow>
                   if in_order p' then map_option (\<lambda>(q, g2, r2). (Seq p' q, g2, r2)) (p_seq n g1 r') else None)))"
| "p_atom 0 g s = None"
| "p_atom (Suc n) g s =
     (case s of
        [] \<Rightarrow> None
      | c # r \<Rightarrow>
          if c = 40 then
            (case p_alt n (if fst (group_kind r) = 0 then g + 1 else g) (snd (group_kind r)) of
               Some (p, g1, d # r') \<Rightarrow> if d = 41 then Some (grouped (fst (group_kind r)) g p, g1, r') else None
             | _ \<Rightarrow> None)
          else if c = 91 then
            (let neg = (r \<noteq> [] \<and> hd r = 94); body = (if neg then tl r else r)
             in map_option (\<lambda>(its, r'). (Cls neg its, g, r')) (class_items (Suc (length body)) body))
          else if c = 92 then
            (case r of
               [] \<Rightarrow> None
             | d # r' \<Rightarrow>
                 if d = of_char CHR ''b'' then Some (WordB, g, r')
                 else if d = of_char CHR ''B'' then Some (NotWordB, g, r')
                 else (case read_escape d r' of (it, r2) \<Rightarrow> Some (Cls False [it], g, r2)))
          else if c = 94 then Some (Bol, g, r)
          else if c = 36 then Some (Eol, g, r)
          else if c = 46 then Some (AnyChar, g, r)
          else if c = 42 \<or> c = 43 \<or> c = 63 then None
          else Some (ch c, g, r))"

text \<open>\<open>new RegExp(s)\<close>: the pattern, or the syntax error it throws (\<open>None\<close>).\<close>

definition parse_pattern :: "jstr \<Rightarrow> re option" where
  "parse_pattern s =
     (case p_alt (3 * length s + 3) 1 s of
        Some (p, _, []) \<Rightarrow> Some p
      | _ \<Rightarrow> None)"

text \<open>A literal: backquotes stand for backslashes. A malformed literal matches nothing.\<close>

definition literal :: "jstr \<Rightarrow> re" where
  "literal s = (case parse_pattern s of Some p \<Rightarrow> p | None \<Rightarrow> Cls False [])"

definition slashed :: "string \<Rightarrow> jstr" where
  "slashed s = map (\<lambda>c. if c = 96 then 92 else c) (js s)"

definition rx :: "string \<Rightarrow> re" where
  "rx s = literal (slashed s)"

subsection \<open>The fuel of the parser is enough\<close>

text \<open>What each reader leaves is no longer than what it was given.\<close>

lemma length_read_escape: "read_escape c r = (it, r') \<Longrightarrow> length r' \<le> length r"
  by (auto simp: read_escape_def split: option.splits if_splits)

lemma length_digits: "digits s = (ds, r) \<Longrightarrow> length r \<le> length s"
  by (induction s arbitrary: ds r) (force split: if_splits prod.splits)+

lemma length_lazily: "lazily lo hi p r = (p', r') \<Longrightarrow> length r' \<le> length r"
  by (auto simp: lazily_def split: list.splits if_splits)

lemma length_braces: "braces s = Some (lo, hi, r) \<Longrightarrow> length r \<le> length s"
  by (auto simp: braces_def split: prod.splits list.splits if_splits dest!: length_digits)

lemma length_quantified: "quantified p s = (p', r) \<Longrightarrow> length r \<le> length s"
  by (auto simp: quantified_def split: list.splits if_splits option.splits dest!: length_lazily length_braces)

lemma length_class_atom: "class_atom s = Some (a, r) \<Longrightarrow> length r < length s"
  by (auto simp: class_atom_def split: list.splits if_splits dest: length_read_escape)

lemma length_class_member: "class_member s = Some (its, r) \<Longrightarrow> length r < length s"
  by (auto simp: class_member_def split: option.splits prod.splits citem.splits list.splits if_splits
      dest!: length_class_atom)

lemma length_class_items: "class_items n s = Some (its, r) \<Longrightarrow> length r < length s"
proof (induction n arbitrary: s its r)
  case (Suc n)
  then obtain c s' where s: "s = c # s'" by (cases s) auto
  show ?case
  proof (cases "c = 93")
    case False
    with Suc.prems s obtain as r1 bs where m: "class_member s = Some (as, r1)" "class_items n r1 = Some (bs, r)"
      by (auto split: option.splits)
    from Suc.IH [OF m(2)] length_class_member [OF m(1)] show ?thesis by simp
  qed (use Suc.prems s in auto)
qed simp

lemma class_items_fuel: "length s < n \<Longrightarrow> length s < m \<Longrightarrow> class_items n s = class_items m s"
proof (induction n arbitrary: s m)
  case (Suc n)
  then obtain m' where m: "m = Suc m'" by (cases m) auto
  have "class_items n r = class_items m' r" if "class_member s = Some (its, r)" for its r
    using Suc.IH [of r m'] length_class_member [OF that] Suc.prems m by simp
  then show ?case by (auto simp: m split: list.splits option.splits)
qed simp

lemma length_group_kind: "length (snd (group_kind r)) \<le> length r"
  by (simp add: group_kind_def)

lemma length_parse:
  "p_alt n g s = Some (p, g', r) \<Longrightarrow> length r \<le> length s"
  "p_seq n g s = Some (p, g', r) \<Longrightarrow> length r \<le> length s"
  "p_atom n g s = Some (p, g', r) \<Longrightarrow> length r < length s"
proof (induction n g s and n g s and n g s arbitrary: p g' r and p g' r and p g' r rule: p_alt_p_seq_p_atom.induct)
  case (2 n g s)
  obtain q g1 r1 where q: "p_seq n g s = Some (q, g1, r1)"
    using 2(3) by (auto split: option.splits)
  have r1: "length r1 \<le> length s" using 2(1) [OF q] .
  show ?case
  proof (cases "r1 \<noteq> [] \<and> hd r1 = 124")
    case True
    then obtain r2 where r2: "r1 = 124 # r2" by (cases r1) auto
    with 2(3) q obtain p2 where "p_alt n g1 r2 = Some (p2, g', r)" by auto
    from 2(2) [OF q refl refl r2 refl this] r1 r2 show ?thesis by simp
  next
    case False
    with 2(3) q r1 show ?thesis by (auto split: list.splits)
  qed
next
  case (4 n g s)
  show ?case
  proof (cases "s = [] \<or> hd s = 124 \<or> hd s = 41")
    case False
    with 4(3) obtain q g1 r1 where q: "p_atom n g s = Some (q, g1, r1)" by (auto split: option.splits)
    obtain p' r' where p': "quantified q r1 = (p', r')" by (cases "quantified q r1")
    from 4(3) False q p' obtain p2 where "in_order p'" "p_seq n g1 r' = Some (p2, g', r)"
      by (auto split: if_splits)
    from 4(2) [OF False q refl refl p' [symmetric] this] length_quantified [OF p'] 4(1) [OF False q]
    show ?thesis by simp
  qed (use 4(3) in auto)
next
  case (6 n g s)
  then obtain c s' where s: "s = c # s'" by (cases s) auto
  show ?case
  proof (cases "c = 40")
    case True
    with 6(2) s obtain p1 r1 where "p_alt n (if fst (group_kind s') = 0 then g + 1 else g) (snd (group_kind s')) = Some (p1, g', 41 # r)"
      by (auto split: option.splits list.splits if_splits)
    from 6(1) [OF s True this] length_group_kind [of s'] s show ?thesis by simp
  next
    case False
    with 6(2) s show ?thesis
      by (auto simp: Let_def simp del: class_items.simps split: if_splits list.splits prod.splits
          dest!: length_class_items length_read_escape)
  qed
qed simp_all

lemma parse_fuel_Suc:
  "3 * length s + 3 \<le> n \<Longrightarrow> p_alt n g s = p_alt (Suc n) g s"
  "3 * length s + 2 \<le> n \<Longrightarrow> p_seq n g s = p_seq (Suc n) g s"
  "3 * length s + 1 \<le> n \<Longrightarrow> p_atom n g s = p_atom (Suc n) g s"
proof (induction n g s and n g s and n g s rule: p_alt_p_seq_p_atom.induct)
  case (2 n g s)
  have a: "p_seq (Suc n) g s = p_seq n g s" using 2 by simp
  have b: "p_alt n g1 r' = p_alt (Suc n) g1 r'" if "p_seq n g s = Some (q, g1, 124 # r')" for q g1 r'
    using 2(2) [OF that refl refl refl refl] length_parse(2) [OF that] 2(3) by simp
  show ?case
    unfolding p_alt.simps(2) [of n g s] p_alt.simps(2) [of "Suc n" g s] a
    by (auto simp: b simp del: p_alt.simps p_seq.simps p_atom.simps split: option.splits list.splits)
next
  case (4 n g s)
  have a: "p_atom (Suc n) g s = p_atom n g s" if "\<not> (s = [] \<or> hd s = 124 \<or> hd s = 41)"
    using 4(1) [OF that] 4(3) by simp
  have b: "p_seq n g1 r' = p_seq (Suc n) g1 r'"
    if "\<not> (s = [] \<or> hd s = 124 \<or> hd s = 41)" "p_atom n g s = Some (q, g1, r)" "quantified q r = (p', r')" "in_order p'"
    for q g1 r p' r'
    using 4(2) [OF that(1,2) refl refl that(3) [symmetric] that(4)] length_parse(3) [OF that(2)]
      length_quantified [OF that(3)] 4(3) by simp
  show ?case
    unfolding p_seq.simps(2) [of n g s] p_seq.simps(2) [of "Suc n" g s]
    by (cases "s = [] \<or> hd s = 124 \<or> hd s = 41")
      (simp_all add: a b del: p_alt.simps p_seq.simps p_atom.simps split: option.split prod.split)
next
  case (6 n g s)
  have a: "p_alt n g' (snd (group_kind r)) = p_alt (Suc n) g' (snd (group_kind r))"
    if "s = 40 # r" "g' = (if fst (group_kind r) = 0 then g + 1 else g)" for r g'
    using 6(1) [OF that(1) refl] length_group_kind [of r] 6(2) that by simp
  show ?case
    unfolding p_atom.simps(2) [of n g s] p_atom.simps(2) [of "Suc n" g s]
    by (cases s) (simp_all add: a del: p_alt.simps p_seq.simps p_atom.simps)
qed simp_all

lemma p_alt_fuel: "3 * length s + 3 \<le> n \<Longrightarrow> p_alt n g s = p_alt (3 * length s + 3) g s"
  by (induction rule: dec_induct) (simp_all add: parse_fuel_Suc(1) [symmetric] del: p_alt.simps)
subsection \<open>All matches\<close>

text \<open>\<open>s.match(p)\<close> with the flag \<open>g\<close>: the matched texts in order, \<open>[]\<close> for its \<open>null\<close>.\<close>

function match_from :: "bool \<Rightarrow> re \<Rightarrow> jstr \<Rightarrow> jstr \<Rightarrow> jstr list" where
  "match_from ic p b [] = (case re_match ic p (b, [], []) of [] \<Rightarrow> [] | _ # _ \<Rightarrow> [[]])"
| "match_from ic p b (c # r) =
     (case re_match ic p (b, c # r, []) of
        [] \<Rightarrow> match_from ic p (c # b) r
      | (b', r', cs) # _ \<Rightarrow>
          take (length (c # r) - length r') (c # r) #
          (if length r' < length (c # r) then match_from ic p b' r' else match_from ic p (c # b) r))"
  by pat_completeness auto
termination
  by (relation "measure (\<lambda>(ic, p, b, r). length r)") auto

definition re_match_all :: "bool \<Rightarrow> re \<Rightarrow> jstr \<Rightarrow> jstr list" where
  "re_match_all ic p s = match_from ic p [] s"

subsection \<open>Splitting\<close>

text \<open>
  \<open>s.split(p)\<close> for a pattern without groups; \<open>piece\<close> is the piece under way, reversed. An empty match
  where the piece starts is skipped.
\<close>

function split_from :: "re \<Rightarrow> jstr \<Rightarrow> jstr \<Rightarrow> jstr \<Rightarrow> jstr list" where
  "split_from p b piece [] = [rev piece]"
| "split_from p b piece (c # r) =
     (case re_match False p (b, c # r, []) of
        [] \<Rightarrow> split_from p (c # b) (c # piece) r
      | (b', r', cs) # _ \<Rightarrow>
          if length r' < length (c # r) then rev piece # split_from p b' [] r'
          else if piece = [] then split_from p (c # b) [c] r
          else rev piece # split_from p (c # b) [c] r)"
  by pat_completeness auto
termination
  by (relation "measure (\<lambda>(p, b, piece, r). length r)") auto

definition re_split :: "re \<Rightarrow> jstr \<Rightarrow> jstr list" where
  "re_split p s =
     (if s = [] then (if re_match False p ([], [], []) = [] then [[]] else []) else split_from p [] [] s)"

end
