(* ===== verification/ValidateFormats.thy ===== *)
theory ValidateFormats
  imports JsPattern
begin

text \<open>
  The validation methods of \<open>lib/jquery-validation/dist/additional-methods.js\<close> that test a pattern,
  some after stripping the value. \<open>optional\<close> is \<open>this.optional(element)\<close>; a method answers what the
  validator looks at: a marker (\<open>"dependency-mismatch"\<close>, \<open>"pending"\<close>) or the truth of the result. Patterns are
  quoted from the source, with a backquote for each backslash.
\<close>

datatype verdict = Mismatch | Pending | Verdict bool

text \<open>\<open>this.optional( element ) || e\<close>\<close>

definition optional_or :: "bool \<Rightarrow> bool \<Rightarrow> verdict" where
  "optional_or optional e = (if optional then Mismatch else Verdict e)"

text \<open>The pattern that the phone methods strip, \<open>/\(|\)|\s+|-/g\<close>.\<close>

definition strip_phone :: "jstr \<Rightarrow> jstr" where
  "strip_phone s = re_replace_all False (rx ''`(|`)|`s+|-'') (by_text []) s"

definition strip_spaces :: "jstr \<Rightarrow> jstr" where
  "strip_spaces s = re_replace_all False (rx ''`s+'') (by_text []) s"

subsection \<open>Words and characters\<close>

definition alphanumeric :: "bool \<Rightarrow> jstr \<Rightarrow> verdict" where
  "alphanumeric optional v = optional_or optional (re_test True (rx ''^`w+$'') v)"

definition integerMethod :: "bool \<Rightarrow> jstr \<Rightarrow> verdict" where
  "integerMethod optional v = optional_or optional (re_test False (rx ''^-?`d+$'') v)"

definition lettersonly :: "bool \<Rightarrow> jstr \<Rightarrow> verdict" where
  "lettersonly optional v = optional_or optional (re_test True (rx ''^[a-z]+$'') v)"

definition letterswithbasicpunc :: "bool \<Rightarrow> jstr \<Rightarrow> verdict" where
  "letterswithbasicpunc optional v =
     optional_or optional (re_test True (literal (slashed ''^[a-z`-.,()'' @ [39] @ slashed ''\"`s]+$'')) v)"

definition nowhitespace :: "bool \<Rightarrow> jstr \<Rightarrow> verdict" where
  "nowhitespace optional v = optional_or optional (re_test True (rx ''^`S+$'') v)"

text \<open>\<open>pattern\<close> with a text; \<open>None\<close> is the \<open>SyntaxError\<close> of \<open>new RegExp\<close>.\<close>

definition patternMethod :: "bool \<Rightarrow> jstr \<Rightarrow> jstr \<Rightarrow> verdict option" where
  "patternMethod optional v param =
     (if optional then Some (Verdict True)
      else map_option (\<lambda>p. Verdict (re_test False p v)) (parse_pattern (js ''^(?:'' @ param @ js '')$'')))"

subsection \<open>Addresses\<close>

definition ipv4 :: "bool \<Rightarrow> jstr \<Rightarrow> verdict" where
  "ipv4 optional v = optional_or optional (re_test True
     (rx ''^(25[0-5]|2[0-4]`d|[01]?`d`d?)`.(25[0-5]|2[0-4]`d|[01]?`d`d?)`.(25[0-5]|2[0-4]`d|[01]?`d`d?)`.(25[0-5]|2[0-4]`d|[01]?`d`d?)$'') v)"

definition ipv6 :: "bool \<Rightarrow> jstr \<Rightarrow> verdict" where
  "ipv6 optional v = optional_or optional (re_test True
     (rx (''^((([0-9A-Fa-f]{1,4}:){7}[0-9A-Fa-f]{1,4})|(([0-9A-Fa-f]{1,4}:){6}:[0-9A-Fa-f]{1,4})''
        @ ''|(([0-9A-Fa-f]{1,4}:){5}:([0-9A-Fa-f]{1,4}:)?[0-9A-Fa-f]{1,4})''
        @ ''|(([0-9A-Fa-f]{1,4}:){4}:([0-9A-Fa-f]{1,4}:){0,2}[0-9A-Fa-f]{1,4})''
        @ ''|(([0-9A-Fa-f]{1,4}:){3}:([0-9A-Fa-f]{1,4}:){0,3}[0-9A-Fa-f]{1,4})''
        @ ''|(([0-9A-Fa-f]{1,4}:){2}:([0-9A-Fa-f]{1,4}:){0,4}[0-9A-Fa-f]{1,4})''
        @ ''|(([0-9A-Fa-f]{1,4}:){6}((`b((25[0-5])|(1`d{2})|(2[0-4]`d)|(`d{1,2}))`b)`.){3}(`b((25[0-5])|(1`d{2})|(2[0-4]`d)|(`d{1,2}))`b))''
        @ ''|(([0-9A-Fa-f]{1,4}:){0,5}:((`b((25[0-5])|(1`d{2})|(2[0-4]`d)|(`d{1,2}))`b)`.){3}(`b((25[0-5])|(1`d{2})|(2[0-4]`d)|(`d{1,2}))`b))''
        @ ''|(::([0-9A-Fa-f]{1,4}:){0,5}((`b((25[0-5])|(1`d{2})|(2[0-4]`d)|(`d{1,2}))`b)`.){3}(`b((25[0-5])|(1`d{2})|(2[0-4]`d)|(`d{1,2}))`b))''
        @ ''|([0-9A-Fa-f]{1,4}::([0-9A-Fa-f]{1,4}:){0,5}[0-9A-Fa-f]{1,4})''
        @ ''|(::([0-9A-Fa-f]{1,4}:){0,6}[0-9A-Fa-f]{1,4})''
        @ ''|(([0-9A-Fa-f]{1,4}:){1,7}:))$'')) v)"

definition netmask :: "bool \<Rightarrow> jstr \<Rightarrow> verdict" where
  "netmask optional v = optional_or optional (re_test True
     (rx (''^(254|252|248|240|224|192|128)`.0`.0`.0|255`.(254|252|248|240|224|192|128|0)`.0`.0''
        @ ''|255`.255`.(254|252|248|240|224|192|128|0)`.0|255`.255`.255`.(254|252|248|240|224|192|128|0)'')) v)"

text \<open>
  \<open>url2\<close>: its classes hold the backquote itself, so that unit is written as a number between the
  quoted parts.
\<close>

definition url_user_class :: jstr where
  "url_user_class = slashed ''[^`]`[?`/<~#'' @ [96] @ slashed ''!@$^&*()+=}|:\";'' @ [39] @ slashed '',>{ ]''"

definition url2_pattern :: jstr where
  "url2_pattern =
     slashed ''^(?:(?:(?:https?|ftp):)?`/`/)(?:(?:'' @ url_user_class @ slashed ''|%[0-9A-Fa-f]{2})+(?::(?:'' @
     url_user_class @ slashed ''|%[0-9A-Fa-f]{2})*)?@)?'' @
     slashed ''(?:(?!(?:10|127)(?:`.`d{1,3}){3})(?!(?:169`.254|192`.168)(?:`.`d{1,3}){2})(?!172`.(?:1[6-9]|2`d|3[0-1])(?:`.`d{1,3}){2})'' @
     slashed ''(?:[1-9]`d?|1`d`d|2[01]`d|22[0-3])(?:`.(?:1?`d{1,2}|2[0-4]`d|25[0-5])){2}(?:`.(?:[1-9]`d?|1`d`d|2[0-4]`d|25[0-4]))'' @
     slashed ''|(?:(?:[a-z0-9`u00a1-`uffff][a-z0-9`u00a1-`uffff_-]{0,62})?[a-z0-9`u00a1-`uffff]`.)+(?:[a-z`u00a1-`uffff]{2,}`.?)'' @
     slashed ''|(?:(?:[a-z0-9`u00a1-`uffff][a-z0-9`u00a1-`uffff_-]{0,62})?[a-z0-9`u00a1-`uffff])'' @
     slashed ''|(?:(?:[a-z0-9`u00a1-`uffff][a-z0-9`u00a1-`uffff_-]{0,62}`.)))(?::`d{2,5})?(?:[/?#]`S*)?$''"

definition url2 :: "bool \<Rightarrow> jstr \<Rightarrow> verdict" where
  "url2 optional v = optional_or optional (re_test True (literal url2_pattern) v)"

subsection \<open>Postal codes\<close>

definition postalcodeBR :: "bool \<Rightarrow> jstr \<Rightarrow> verdict" where
  "postalcodeBR optional v = optional_or optional (re_test False (rx ''^`d{2}.`d{3}-`d{3}?$|^`d{5}-?`d{3}?$'') v)"

definition postalCodeCA :: "bool \<Rightarrow> jstr \<Rightarrow> verdict" where
  "postalCodeCA optional v = optional_or optional
     (re_test True (rx ''^[ABCEGHJKLMNPRSTVXY]`d[ABCEGHJKLMNPRSTVWXYZ] *`d[ABCEGHJKLMNPRSTVWXYZ]`d$'') v)"

definition postalcodeIT :: "bool \<Rightarrow> jstr \<Rightarrow> verdict" where
  "postalcodeIT optional v = optional_or optional (re_test False (rx ''^`d{5}$'') v)"

definition postalcodeNL :: "bool \<Rightarrow> jstr \<Rightarrow> verdict" where
  "postalcodeNL optional v = optional_or optional (re_test False (rx ''^[1-9][0-9]{3}`s?[a-zA-Z]{2}$'') v)"

definition postcodeUK :: "bool \<Rightarrow> jstr \<Rightarrow> verdict" where
  "postcodeUK optional v = optional_or optional (re_test True
     (rx (''^((([A-PR-UWYZ][0-9])|([A-PR-UWYZ][0-9][0-9])|([A-PR-UWYZ][A-HK-Y][0-9])|([A-PR-UWYZ][A-HK-Y][0-9][0-9])''
        @ ''|([A-PR-UWYZ][0-9][A-HJKSTUW])|([A-PR-UWYZ][A-HK-Y][0-9][ABEHMNPRVWXY]))`s?([0-9][ABD-HJLNP-UW-Z]{2})''
        @ ''|(GIR)`s?(0AA))$'')) v)"

definition zipcodeUS :: "bool \<Rightarrow> jstr \<Rightarrow> verdict" where
  "zipcodeUS optional v = optional_or optional (re_test False (rx ''^`d{5}(-`d{4})?$'') v)"

definition ziprange :: "bool \<Rightarrow> jstr \<Rightarrow> verdict" where
  "ziprange optional v = optional_or optional (re_test False (rx ''^90[2-5]`d`{2`}-`d{4}$'') v)"

subsection \<open>Telephone numbers\<close>

definition mobileNL :: "bool \<Rightarrow> jstr \<Rightarrow> verdict" where
  "mobileNL optional v = optional_or optional (re_test False
     (rx ''^((`+|00(`s|`s?`-`s?)?)31(`s|`s?`-`s?)?(`(0`)[`-`s]?)?|0)6((`s|`s?`-`s?)?[0-9]){8}$'') v)"

definition phoneNL :: "bool \<Rightarrow> jstr \<Rightarrow> verdict" where
  "phoneNL optional v = optional_or optional (re_test False
     (rx ''^((`+|00(`s|`s?`-`s?)?)31(`s|`s?`-`s?)?(`(0`)[`-`s]?)?|0)[1-9]((`s|`s?`-`s?)?[0-9]){8}$'') v)"

definition mobileRU :: "bool \<Rightarrow> jstr \<Rightarrow> verdict" where
  "mobileRU optional v =
     (let ruPhone_number = strip_phone v in
      optional_or optional (length ruPhone_number > 9 \<and> re_test False (rx ''^((`+7|7|8)+([0-9]){10})$'') ruPhone_number))"

definition mobileUK :: "bool \<Rightarrow> jstr \<Rightarrow> verdict" where
  "mobileUK optional v =
     (let phone_number = strip_phone v in
      optional_or optional (length phone_number > 9 \<and>
        re_test False (rx ''^(?:(?:(?:00`s?|`+)44`s?|0)7(?:[1345789]`d{2}|624)`s?`d{3}`s?`d{3})$'') phone_number))"

definition phonesUK :: "bool \<Rightarrow> jstr \<Rightarrow> verdict" where
  "phonesUK optional v =
     (let phone_number = strip_phone v in
      optional_or optional (length phone_number > 9 \<and>
        re_test False (rx ''^(?:(?:(?:00`s?|`+)44`s?|0)(?:1`d{8,9}|[23]`d{9}|7(?:[1345789]`d{8}|624`d{6})))$'') phone_number))"

definition phoneUK :: "bool \<Rightarrow> jstr \<Rightarrow> verdict" where
  "phoneUK optional v =
     (let phone_number = strip_phone v in
      optional_or optional (length phone_number > 9 \<and>
        re_test False (rx (''^(?:(?:(?:00`s?|`+)44`s?)|(?:`(?0))(?:`d{2}`)?`s?`d{4}`s?`d{4}|`d{3}`)?`s?`d{3}`s?`d{3,4}''
          @ ''|`d{4}`)?`s?(?:`d{5}|`d{3}`s?`d{3})|`d{5}`)?`s?`d{4,5})$'')) phone_number))"

definition phoneUS :: "bool \<Rightarrow> jstr \<Rightarrow> verdict" where
  "phoneUS optional v =
     (let phone_number = strip_spaces v in
      optional_or optional (length phone_number > 9 \<and>
        re_test False (rx ''^(`+?1-?)?(`([2-9]([02-9]`d|1[02-9])`)|[2-9]([02-9]`d|1[02-9]))-?[2-9]`d{2}-?`d{4}$'') phone_number))"

definition phonePL :: "bool \<Rightarrow> jstr \<Rightarrow> verdict" where
  "phonePL optional v =
     (let phone_number = strip_spaces v in
      optional_or optional (re_test False
        (rx ''^(?:(?:(?:`+|00)?48)|(?:`(`+?48`)))?(?:1[2-8]|2[2-69]|3[2-49]|4[1-68]|5[0-9]|6[0-35-9]|[7-8][1-9]|9[145])`d{7}$'')
        phone_number))"

subsection \<open>Dates, times, states, codes\<close>

definition dateFA :: "bool \<Rightarrow> jstr \<Rightarrow> verdict" where
  "dateFA optional v = optional_or optional (re_test False
     (rx ''^[1-4]`d{3}`/((0?[1-6]`/((3[0-1])|([1-2][0-9])|(0?[1-9])))|((1[0-2]|(0?[7-9]))`/(30|([1-2][0-9])|(0?[1-9]))))$'') v)"

definition dateNL :: "bool \<Rightarrow> jstr \<Rightarrow> verdict" where
  "dateNL optional v = optional_or optional (re_test False
     (rx ''^(0?[1-9]|[12]`d|3[01])[`.`/`-](0?[1-9]|1[012])[`.`/`-]([12]`d)?(`d`d)$'') v)"

definition timeMethod :: "bool \<Rightarrow> jstr \<Rightarrow> verdict" where
  "timeMethod optional v = optional_or optional (re_test False (rx ''^([01]`d|2[0-3]|[0-9])(:[0-5]`d){1,2}$'') v)"

definition time12h :: "bool \<Rightarrow> jstr \<Rightarrow> verdict" where
  "time12h optional v = optional_or optional (re_test True (rx ''^((0?[1-9]|1[012])(:[0-5]`d){1,2}(` ?[AP]M))$'') v)"

definition bic :: "bool \<Rightarrow> jstr \<Rightarrow> verdict" where
  "bic optional v = optional_or optional
     (re_test False (rx ''^([A-Z]{6}[A-Z2-9][A-NP-Z1-9])(X{3}|[A-WY-Z0-9][A-Z0-9]{2})?$'') (js_upper v))"

definition giroaccountNL :: "bool \<Rightarrow> jstr \<Rightarrow> verdict" where
  "giroaccountNL optional v = optional_or optional (re_test False (rx ''^[0-9]{1,7}$'') v)"

text \<open>The options of \<open>stateUS\<close>; an absent one is \<open>None\<close>.\<close>

record state_options =
  caseSensitive :: "bool option"
  includeTerritories :: "bool option"
  includeMilitary :: "bool option"

definition stateUS :: "bool \<Rightarrow> jstr \<Rightarrow> state_options option \<Rightarrow> verdict" where
  "stateUS optional v options =
     (let setting = (\<lambda>f. case options of None \<Rightarrow> False | Some opts \<Rightarrow> (case f opts of None \<Rightarrow> False | Some b \<Rightarrow> b));
          territories = setting includeTerritories; military = setting includeMilitary;
          regex =
            (if \<not> territories \<and> \<not> military then
               ''^(A[KLRZ]|C[AOT]|D[CE]|FL|GA|HI|I[ADLN]|K[SY]|LA|M[ADEINOST]|N[CDEHJMVY]|O[HKR]|PA|RI|S[CD]|T[NX]|UT|V[AT]|W[AIVY])$''
             else if territories \<and> military then
               ''^(A[AEKLPRSZ]|C[AOT]|D[CE]|FL|G[AU]|HI|I[ADLN]|K[SY]|LA|M[ADEINOPST]|N[CDEHJMVY]|O[HKR]|P[AR]|RI|S[CD]|T[NX]|UT|V[AIT]|W[AIVY])$''
             else if territories then
               ''^(A[KLRSZ]|C[AOT]|D[CE]|FL|G[AU]|HI|I[ADLN]|K[SY]|LA|M[ADEINOPST]|N[CDEHJMVY]|O[HKR]|P[AR]|RI|S[CD]|T[NX]|UT|V[AIT]|W[AIVY])$''
             else
               ''^(A[AEKLPRZ]|C[AOT]|D[CE]|FL|GA|HI|I[ADLN]|K[SY]|LA|M[ADEINOST]|N[CDEHJMVY]|O[HKR]|PA|RI|S[CD]|T[NX]|UT|V[AT]|W[AIVY])$'')
      in optional_or optional (re_test (\<not> setting caseSensitive) (rx regex) v))"

text \<open>\<open>currency\<close> with a text or with a symbol and a flag; the symbol becomes part of a class.\<close>

datatype currency_param = SymbolText jstr | SymbolSoft jstr bool

definition currency :: "bool \<Rightarrow> jstr \<Rightarrow> currency_param \<Rightarrow> verdict option" where
  "currency optional v param =
     (let (symbol, soft) = (case param of SymbolText s \<Rightarrow> (s, True) | SymbolSoft s b \<Rightarrow> (s, b));
          symbol = re_replace_all False (rx '','') (by_text []) symbol;
          symbol = symbol @ (if soft then js '']'' else js '']?'')
      in map_option (\<lambda>p. optional_or optional (re_test False p v))
           (parse_pattern (js ''^['' @ symbol @ slashed
              ''([1-9]{1}[0-9]{0,2}(`,[0-9]{3})*(`.[0-9]{0,2})?|[1-9]{1}[0-9]{0,}(`.[0-9]{0,2})?|0(`.[0-9]{0,2})?|(`.[0-9]{1,2})?)$'')))"

text \<open>\<open>extension\<close>: the file name ends in one of the extensions of a comma-separated list.\<close>

definition extension :: "bool \<Rightarrow> jstr \<Rightarrow> jstr option \<Rightarrow> verdict option" where
  "extension optional v param =
     (let exts = (case param of Some s \<Rightarrow> re_replace_all False (rx '','') (by_text (js ''|'')) s | None \<Rightarrow> js ''png|jpe?g|gif'')
      in if optional then Some Mismatch
         else map_option (\<lambda>p. Verdict (re_test True p v)) (parse_pattern (slashed ''`.('' @ exts @ js '')$'')))"

end
