(* ===== verification/ValidateChecks.thy ===== *)
theory ValidateChecks
  imports ValidateFormats
begin

text \<open>
  The validation methods of \<open>lib/jquery-validation/dist/additional-methods.js\<close> that compute: check
  digits of account, tax and vehicle numbers, the IBAN, credit cards. A JavaScript number that may be
  \<open>NaN\<close> is an \<open>int option\<close>, \<open>None\<close> for \<open>NaN\<close>; every number that occurs is an integer below
  \<open>2 ^ 53\<close>.
\<close>

subsection \<open>Numbers from text\<close>

type_synonym num_or_nan = "int option"

definition nadd :: "num_or_nan \<Rightarrow> num_or_nan \<Rightarrow> num_or_nan" where
  "nadd x y = (case (x, y) of (Some a, Some b) \<Rightarrow> Some (a + b) | _ \<Rightarrow> None)"

definition nmul :: "num_or_nan \<Rightarrow> num_or_nan \<Rightarrow> num_or_nan" where
  "nmul x y = (case (x, y) of (Some a, Some b) \<Rightarrow> Some (a * b) | _ \<Rightarrow> None)"

text \<open>\<open>parseInt( c, 10 )\<close> and \<open>Number( c )\<close> of one unit.\<close>

definition parse_unit :: "cunit \<Rightarrow> num_or_nan" where
  "parse_unit c = (if is_digit c then Some (int c - 48) else None)"

definition number_unit :: "cunit \<Rightarrow> num_or_nan" where
  "number_unit c = (if is_digit c then Some (int c - 48) else if is_space c then Some 0 else None)"

text \<open>\<open>parseInt( s, 10 )\<close>: leading white space, a sign, then the longest run of digits.\<close>

definition parse_int :: "jstr \<Rightarrow> num_or_nan" where
  "parse_int s =
     (let t = dropWhile is_space s;
          (neg, u) = (case t of c # r \<Rightarrow> if c = 45 then (True, r) else if c = 43 then (False, r) else (False, t) | [] \<Rightarrow> (False, []));
          ds = takeWhile is_digit u
      in if ds = [] then None else Some (if neg then - int (dec_value ds) else int (dec_value ds)))"

text \<open>\<open>s.charAt( i )\<close> and \<open>s.substring( i, j )\<close> with \<open>i \<le> j\<close>.\<close>

definition char_at :: "jstr \<Rightarrow> nat \<Rightarrow> jstr" where
  "char_at s i = (if i < length s then [s ! i] else [])"

definition substring :: "jstr \<Rightarrow> nat \<Rightarrow> nat \<Rightarrow> jstr" where
  "substring s i j = take (j - i) (drop i s)"

text \<open>The class that the Brazilian methods strip, every ASCII punctuation unit but the quote, and space.\<close>

definition strip_special :: "jstr \<Rightarrow> jstr" where
  "strip_special s = re_replace_all False
     (literal (slashed ''([~!@#$%^&*()_+='' @ [96] @ slashed ''{}`[`]`-|``:;'' @ [39] @ slashed ''<>,.`/? ])+'')) (by_text []) s"

subsection \<open>Routing numbers\<close>

fun aba_checksum :: "num_or_nan \<Rightarrow> jstr \<Rightarrow> num_or_nan" where
  "aba_checksum checksum (a # b # c # rest) =
     aba_checksum (nadd checksum (nadd (nadd (nmul (parse_unit a) (Some 3)) (nmul (parse_unit b) (Some 7))) (parse_unit c))) rest"
| "aba_checksum checksum _ = checksum"

definition abaRoutingNumber :: "jstr \<Rightarrow> bool" where
  "abaRoutingNumber v =
     (if length v \<noteq> 9 then False
      else (case aba_checksum (Some 0) v of None \<Rightarrow> False | Some checksum \<Rightarrow> checksum \<noteq> 0 \<and> checksum mod 10 = 0))"

subsection \<open>Dutch accounts\<close>

fun account_sum :: "num_or_nan \<Rightarrow> jstr \<Rightarrow> num_or_nan" where
  "account_sum acc [] = acc"
| "account_sum acc (c # cs) = account_sum (nadd acc (nmul (Some (int (length (c # cs)))) (number_unit c))) cs"

definition bankaccountNL :: "bool \<Rightarrow> jstr \<Rightarrow> bool" where
  "bankaccountNL optional v =
     (if optional then True
      else if \<not> re_test False (rx ''^[0-9]{9}|([0-9]{2} ){3}[0-9]{3}$'') v then False
      else (case account_sum (Some 0) (re_replace_all False (rx '' '') (by_text []) v) of
              None \<Rightarrow> False | Some acc \<Rightarrow> acc mod 11 = 0))"

definition truth :: "verdict \<Rightarrow> bool" where
  "truth r = (case r of Mismatch \<Rightarrow> True | Pending \<Rightarrow> True | Verdict b \<Rightarrow> b)"

definition bankorgiroaccountNL :: "bool \<Rightarrow> jstr \<Rightarrow> verdict" where
  "bankorgiroaccountNL optional v =
     (if optional then Mismatch
      else if bankaccountNL optional v then Verdict True
      else giroaccountNL optional v)"

subsection \<open>Spanish numbers\<close>

text \<open>The loop of \<open>cifES\<close>: \<open>even_sum\<close> and \<open>odd_sum\<close> over the seven digits from index \<open>i\<close>.\<close>

fun cif_sums :: "nat \<Rightarrow> int \<Rightarrow> int \<Rightarrow> jstr \<Rightarrow> int \<times> int" where
  "cif_sums i even_sum odd_sum [] = (even_sum, odd_sum)"
| "cif_sums i even_sum odd_sum (c # cs) =
     (let n = int c - 48 in
      if i mod 2 = 0
      then (let n2 = n * 2 in cif_sums (i + 1) even_sum (odd_sum + (if n2 < 10 then n2 else n2 - 9)) cs)
      else cif_sums (i + 1) (even_sum + n) odd_sum cs)"

definition cifES :: "bool \<Rightarrow> jstr \<Rightarrow> bool" where
  "cifES optional v =
     (if optional then True
      else
        (let letter = substring v 0 1; number = substring v 1 8; control = substring v 8 9 in
         if length v \<noteq> 9 \<or> \<not> re_test True (rx ''^([ABCDEFGHJKLMNPQRSUVW])(`d{7})([0-9A-J])$'') v then False
         else
           (let (even_sum, odd_sum) = cif_sums 0 0 0 number;
                all_sum = even_sum + odd_sum;
                digit = 10 - all_sum mod 10;
                control_digit = (if digit > 9 then 0 else digit);
                control_letter = char_at (js ''JABCDEFGHI'') (nat control_digit)
            in if re_test False (rx ''[ABEH]'') letter then control = js_nat (nat control_digit)
               else if re_test False (rx ''[KPQS]'') letter then control = control_letter
               else control = js_nat (nat control_digit) \<or> control = control_letter)))"

text \<open>\<open>charAt\<close> of \<open>NaN\<close> is \<open>charAt( 0 )\<close>.\<close>

definition char_at_num :: "jstr \<Rightarrow> num_or_nan \<Rightarrow> jstr" where
  "char_at_num s x = (case x of None \<Rightarrow> char_at s 0 | Some n \<Rightarrow> if n < 0 then [] else char_at s (nat n))"

text \<open>The remainder of JavaScript keeps the sign of the dividend; all dividends here are at least 0.\<close>

definition nmod :: "num_or_nan \<Rightarrow> int \<Rightarrow> num_or_nan" where
  "nmod x m = map_option (\<lambda>n. n mod m) x"

definition nieES :: "bool \<Rightarrow> jstr \<Rightarrow> bool" where
  "nieES optional v0 =
     (if optional then True
      else
        (let letter = js_upper (substring v0 (length v0 - 1) (length v0)); v = js_upper v0 in
         if length v > 10 \<or> length v < 9
            \<or> \<not> re_test True (rx ''^[MXYZ]{1}[0-9]{7,8}[TRWAGMYFPDXBNJZSQVHLCKET]{1}$'') v then False
         else
           (let v = re_replace False (rx ''^[Z]'') (by_text (js ''2''))
                     (re_replace False (rx ''^[Y]'') (by_text (js ''1''))
                       (re_replace False (rx ''^[X]'') (by_text (js ''0'')) v));
                number = (if length v = 9 then substring v 0 8 else substring v 0 9)
            in char_at_num (js ''TRWAGMYFPDXBNJZSQVHLCKET'') (nmod (parse_int number) 23) = letter)))"

definition nifES :: "bool \<Rightarrow> jstr \<Rightarrow> bool" where
  "nifES optional v0 =
     (if optional then True
      else
        (let v = js_upper v0 in
         if \<not> re_test False (rx ''((^[A-Z]{1}[0-9]{7}[A-Z0-9]{1}$|^[T]{1}[A-Z0-9]{8}$)|^[0-9]{8}[A-Z]{1}$)'') v then False
         else if re_test False (rx ''^[0-9]{8}[A-Z]{1}$'') v
         then char_at (js ''TRWAGMYFPDXBNJZSQVHLCKE'') (dec_value (substring v 0 8) mod 23) = char_at v 8
         else if re_test False (rx ''^[KLM]{1}'') v
         then char_at v 8 = char_at (js ''TRWAGMYFPDXBNJZSQVHLCKE'') (dec_value (substring v 1 8) mod 23)
         else False))"

subsection \<open>Brazilian numbers\<close>

text \<open>A weighted sum over the first units: \<open>weights\<close> in the order of the loop.\<close>

fun weighted :: "(cunit \<Rightarrow> num_or_nan) \<Rightarrow> num_or_nan \<Rightarrow> int list \<Rightarrow> jstr \<Rightarrow> num_or_nan" where
  "weighted value acc (w # ws) (c # cs) = weighted value (nadd acc (nmul (value c) (Some w))) ws cs"
| "weighted value acc _ _ = acc"

definition num_text :: "num_or_nan \<Rightarrow> jstr" where
  "num_text x = (case x of None \<Rightarrow> js ''NaN'' | Some n \<Rightarrow> if n < 0 then 45 # js_nat (nat (- n)) else js_nat (nat n))"

definition at_least :: "num_or_nan \<Rightarrow> int \<Rightarrow> bool" where
  "at_least x k = (case x of None \<Rightarrow> False | Some n \<Rightarrow> k \<le> n)"

definition cnhBR :: "jstr \<Rightarrow> bool" where
  "cnhBR v0 =
     (let v = strip_special v0 in
      if length v \<noteq> 11 then False
      else if replicate 11 (hd v) = v then False
      else
        (let r1 = nmod (weighted number_unit (Some 0) [9, 8, 7, 6, 5, 4, 3, 2, 1] v) 11;
             (firstCN, dsc) = (if at_least r1 10 then (Some 0, 2) else (r1, 0));
             r2 = nmod (weighted number_unit (Some 0) [1, 2, 3, 4, 5, 6, 7, 8, 9] v) 11;
             secondCN = (if at_least r2 10 then Some 0 else nadd r2 (Some (- dsc)))
         in num_text firstCN @ num_text secondCN = drop 9 v))"

text \<open>The loop of \<open>cnpjBR\<close>: \<open>pos\<close> counts down and starts again at 9.\<close>

fun cnpj_sum :: "int \<Rightarrow> int \<Rightarrow> jstr \<Rightarrow> int" where
  "cnpj_sum soma pos [] = soma"
| "cnpj_sum soma pos (c # cs) =
     cnpj_sum (soma + (int c - 48) * pos) (if pos - 1 < 2 then 9 else pos - 1) cs"

definition cnpj_digit :: "int \<Rightarrow> int" where
  "cnpj_digit soma = (if soma mod 11 < 2 then 0 else 11 - soma mod 11)"

definition cnpjBR :: "bool \<Rightarrow> jstr \<Rightarrow> bool" where
  "cnpjBR optional v0 =
     (if optional then True
      else
        (let v = re_replace_all False (rx ''[^`d]+'') (by_text []) v0 in
         if length v \<noteq> 14 then False
         else if list_ex (\<lambda>d. v = replicate 14 d) [48..<58] then False
         else if cnpj_digit (cnpj_sum 0 5 (substring v 0 12)) \<noteq> int (v ! 12) - 48 then False
         else if cnpj_digit (cnpj_sum 0 6 (substring v 0 13)) \<noteq> int (v ! 13) - 48 then False
         else True))"

definition cpf_result :: "num_or_nan \<Rightarrow> num_or_nan \<Rightarrow> bool" where
  "cpf_result acc cn =
     (case nmod (nmul acc (Some 10)) 11 of
        None \<Rightarrow> False
      | Some r \<Rightarrow> (let result = (if r = 10 \<or> r = 11 then 0 else r) in cn = Some result))"

definition cpfBR :: "bool \<Rightarrow> jstr \<Rightarrow> bool" where
  "cpfBR optional v0 =
     (if optional then True
      else
        (let v = strip_special v0 in
         if length v \<noteq> 11 then False
         else
           (let firstCN = parse_unit (v ! 9); secondCN = parse_unit (v ! 10) in
            if v = [] \<or> list_ex (\<lambda>d. v = replicate 11 d) [48..<58] then False
            else if cpf_result (weighted parse_unit (Some 0) [10, 9, 8, 7, 6, 5, 4, 3, 2] v) firstCN
            then cpf_result (weighted parse_unit (Some 0) [11, 10, 9, 8, 7, 6, 5, 4, 3, 2] v) secondCN
            else False)))"

text \<open>
  The loop of \<open>nisBR\<close> reads the digits from the last to the first; dividing by 10 and \<open>parseInt\<close> drop
  the last digit, and \<open>NaN\<close> stays \<open>NaN\<close>.
\<close>

fun nis_sum :: "num_or_nan \<Rightarrow> num_or_nan \<Rightarrow> int list \<Rightarrow> num_or_nan" where
  "nis_sum acc number [] = acc"
| "nis_sum acc number (m # ms) =
     nis_sum (nadd acc (nmul (nmod number 10) (Some m))) (map_option (\<lambda>n. n div 10) number) ms"

definition nisBR :: "jstr \<Rightarrow> bool" where
  "nisBR v0 =
     (let v = strip_special v0 in
      if length v \<noteq> 11 then False
      else
        (let cn = parse_int (substring v 10 11); number = parse_int (substring v 0 10);
             dv = nmod (nis_sum (Some 0) number [2, 3, 4, 5, 6, 7, 8, 9, 2, 3]) 11;
             dv = (if at_least dv 2 then map_option (\<lambda>d. 11 - d) dv else Some 0)
         in cn \<noteq> None \<and> cn = dv))"

subsection \<open>Polish tax numbers\<close>

definition nipPL :: "jstr \<Rightarrow> bool" where
  "nipPL v0 =
     (let v = re_replace_all False (rx ''[^0-9]'') (by_text []) v0 in
      if length v \<noteq> 10 then False
      else
        (let int2 = nmod (weighted number_unit (Some 0) [6, 5, 7, 2, 3, 4, 5, 6, 7] v) 11;
             intControlNr = (if int2 = Some 10 then Some 0 else int2)
         in intControlNr = parse_unit (v ! 9)))"

subsection \<open>Credit cards\<close>

text \<open>The loop of \<open>creditcard\<close> over the digits from the last to the first.\<close>

fun luhn_sum :: "bool \<Rightarrow> int \<Rightarrow> jstr \<Rightarrow> int" where
  "luhn_sum bEven nCheck [] = nCheck"
| "luhn_sum bEven nCheck (c # cs) =
     (let nDigit = int c - 48;
          nDigit = (if bEven then (if nDigit * 2 > 9 then nDigit * 2 - 9 else nDigit * 2) else nDigit)
      in luhn_sum (\<not> bEven) (nCheck + nDigit) cs)"

definition creditcard :: "bool \<Rightarrow> jstr \<Rightarrow> verdict" where
  "creditcard optional v0 =
     (if optional then Mismatch
      else if re_test False (rx ''[^0-9 `-]+'') v0 then Verdict False
      else
        (let v = re_replace_all False (rx ''`D'') (by_text []) v0 in
         if length v < 13 \<or> length v > 19 then Verdict False
         else Verdict (luhn_sum False 0 (rev v) mod 10 = 0)))"

record card_types =
  mastercard :: bool
  visa :: bool
  amex :: bool
  dinersclub :: bool
  enroute :: bool
  discover :: bool
  jcb :: bool
  unknown :: bool
  all_types :: bool

text \<open>The bit mask \<open>validTypes\<close>, the \<open>|=\<close> of the source being \<open>or\<close>.\<close>

definition card_mask :: "card_types \<Rightarrow> nat" where
  "card_mask param =
     (if all_types param then or 1 (or 2 (or 4 (or 8 (or 16 (or 32 (or 64 128))))))
      else or (or (or (or (or (or (or
        (if mastercard param then 1 else 0) (if visa param then 2 else 0)) (if amex param then 4 else 0))
        (if dinersclub param then 8 else 0)) (if enroute param then 16 else 0)) (if discover param then 32 else 0))
        (if jcb param then 64 else 0)) (if unknown param then 128 else 0))"

definition creditcardtypes :: "jstr \<Rightarrow> card_types \<Rightarrow> bool" where
  "creditcardtypes v0 param =
     (if re_test False (rx ''[^0-9`-]+'') v0 then False
      else
        (let v = re_replace_all False (rx ''`D'') (by_text []) v0;
             mask = card_mask param;
             has = (\<lambda>b :: nat. and mask b \<noteq> 0)
         in if has 1 \<and> (re_test False (rx ''^(5[12345])'') v \<or> re_test False (rx ''^(2[234567])'') v) then length v = 16
            else if has 2 \<and> re_test False (rx ''^(4)'') v then length v = 16
            else if has 4 \<and> re_test False (rx ''^(3[47])'') v then length v = 15
            else if has 8 \<and> re_test False (rx ''^(3(0[012345]|[68]))'') v then length v = 14
            else if has 16 \<and> re_test False (rx ''^(2(014|149))'') v then length v = 15
            else if has 32 \<and> re_test False (rx ''^(6011)'') v then length v = 16
            else if has 64 \<and> re_test False (rx ''^(3)'') v then length v = 16
            else if has 64 \<and> re_test False (rx ''^(2131|1800)'') v then length v = 15
            else has 128))"

subsection \<open>IBAN\<close>

definition bban_patterns :: "(string \<times> string) list" where
  "bban_patterns = [
    (''AL'', ''`d{8}[`dA-Z]{16}''), (''AD'', ''`d{8}[`dA-Z]{12}''), (''AT'', ''`d{16}''),
    (''AZ'', ''[`dA-Z]{4}`d{20}''), (''BE'', ''`d{12}''), (''BH'', ''[A-Z]{4}[`dA-Z]{14}''),
    (''BA'', ''`d{16}''), (''BR'', ''`d{23}[A-Z][`dA-Z]''), (''BG'', ''[A-Z]{4}`d{6}[`dA-Z]{8}''),
    (''CR'', ''`d{17}''), (''HR'', ''`d{17}''), (''CY'', ''`d{8}[`dA-Z]{16}''), (''CZ'', ''`d{20}''),
    (''DK'', ''`d{14}''), (''DO'', ''[A-Z]{4}`d{20}''), (''EE'', ''`d{16}''), (''FO'', ''`d{14}''),
    (''FI'', ''`d{14}''), (''FR'', ''`d{10}[`dA-Z]{11}`d{2}''), (''GE'', ''[`dA-Z]{2}`d{16}''),
    (''DE'', ''`d{18}''), (''GI'', ''[A-Z]{4}[`dA-Z]{15}''), (''GR'', ''`d{7}[`dA-Z]{16}''),
    (''GL'', ''`d{14}''), (''GT'', ''[`dA-Z]{4}[`dA-Z]{20}''), (''HU'', ''`d{24}''), (''IS'', ''`d{22}''),
    (''IE'', ''[`dA-Z]{4}`d{14}''), (''IL'', ''`d{19}''), (''IT'', ''[A-Z]`d{10}[`dA-Z]{12}''),
    (''KZ'', ''`d{3}[`dA-Z]{13}''), (''KW'', ''[A-Z]{4}[`dA-Z]{22}''), (''LV'', ''[A-Z]{4}[`dA-Z]{13}''),
    (''LB'', ''`d{4}[`dA-Z]{20}''), (''LI'', ''`d{5}[`dA-Z]{12}''), (''LT'', ''`d{16}''),
    (''LU'', ''`d{3}[`dA-Z]{13}''), (''MK'', ''`d{3}[`dA-Z]{10}`d{2}''),
    (''MT'', ''[A-Z]{4}`d{5}[`dA-Z]{18}''), (''MR'', ''`d{23}''), (''MU'', ''[A-Z]{4}`d{19}[A-Z]{3}''),
    (''MC'', ''`d{10}[`dA-Z]{11}`d{2}''), (''MD'', ''[`dA-Z]{2}`d{18}''), (''ME'', ''`d{18}''),
    (''NL'', ''[A-Z]{4}`d{10}''), (''NO'', ''`d{11}''), (''PK'', ''[`dA-Z]{4}`d{16}''),
    (''PS'', ''[`dA-Z]{4}`d{21}''), (''PL'', ''`d{24}''), (''PT'', ''`d{21}''),
    (''RO'', ''[A-Z]{4}[`dA-Z]{16}''), (''SM'', ''[A-Z]`d{10}[`dA-Z]{12}''),
    (''SA'', ''`d{2}[`dA-Z]{18}''), (''RS'', ''`d{18}''), (''SK'', ''`d{20}''), (''SI'', ''`d{15}''),
    (''ES'', ''`d{20}''), (''SE'', ''`d{20}''), (''CH'', ''`d{5}[`dA-Z]{12}''), (''TN'', ''`d{20}''),
    (''TR'', ''`d{5}[`dA-Z]{17}''), (''AE'', ''`d{3}`d{16}''), (''GB'', ''[A-Z]{4}`d{14}''),
    (''VG'', ''[`dA-Z]{4}`d{16}'')]"

definition iban_alphabet :: jstr where
  "iban_alphabet = js ''0123456789ABCDEFGHIJKLMNOPQRSTUVWXYZ''"

text \<open>\<open>"" + "012...XYZ".indexOf( charAt )\<close>, \<open>-1\<close> for a unit that is not there.\<close>

definition index_text :: "cunit \<Rightarrow> jstr" where
  "index_text c = (let i = js_find_index (\<lambda>d. d = c) iban_alphabet in
     if i < 0 then 45 # js_nat 1 else js_nat (nat i))"

fun iban_digits :: "bool \<Rightarrow> jstr \<Rightarrow> jstr" where
  "iban_digits leadingZeroes [] = []"
| "iban_digits leadingZeroes (c # cs) =
     (let leadingZeroes = (if c \<noteq> 48 then False else leadingZeroes) in
      (if \<not> leadingZeroes then index_text c else []) @ iban_digits leadingZeroes cs)"

text \<open>
  \<open>cRest\<close> is a text or a number; as an operand of \<open>+\<close> it is its text. \<open>Number\<close> of the texts that occur
  (digits, perhaps with a minus sign or \<open>NaN\<close> in front of a last unit) is a number only for digits.
\<close>

definition number_text :: "jstr \<Rightarrow> num_or_nan" where
  "number_text s = (if s \<noteq> [] \<and> list_all is_digit s then Some (int (dec_value s)) else None)"

fun iban_rest :: "jstr \<Rightarrow> jstr \<Rightarrow> jstr" where
  "iban_rest cRest [] = cRest"
| "iban_rest cRest (cChar # cs) =
     (let cOperator = cRest @ [cChar] in iban_rest (num_text (nmod (number_text cOperator) 97)) cs)"

text \<open>The country's format; a country that is not in the table is not checked.\<close>

definition bban_ok :: "jstr \<Rightarrow> bool" where
  "bban_ok s =
     (case List.find (\<lambda>(code, _). js code = substring s 0 2) bban_patterns of
        None \<Rightarrow> True
      | Some (_, bbanpattern) \<Rightarrow>
          re_test False (literal (slashed ''^[A-Z]{2}`d{2}'' @ slashed bbanpattern @ slashed ''$'')) s)"

definition iban :: "bool \<Rightarrow> jstr \<Rightarrow> bool" where
  "iban optional v =
     (if optional then True
      else
        (let s = js_upper (re_replace_all False (rx '' '') (by_text []) v) in
         if length s < 5 then False
         else if \<not> bban_ok s then False
         else (let ibancheck = substring s 4 (length s) @ substring s 0 4;
                   ibancheckdigits = iban_digits True ibancheck
               in ibancheckdigits \<noteq> [] \<and> iban_rest [] ibancheckdigits = js_nat 1)))"

subsection \<open>Vehicle identification numbers\<close>

definition vin_letters :: jstr where
  "vin_letters = js ''ABCDEFGHJKLMNPRSTUVWXYZ''"

definition vin_values :: "nat list" where
  "vin_values = [1, 2, 3, 4, 5, 6, 7, 8, 1, 2, 3, 4, 5, 7, 9, 2, 3, 4, 5, 6, 7, 8, 9]"

definition vin_weights :: "nat list" where
  "vin_weights = [8, 7, 6, 5, 4, 3, 2, 10, 0, 9, 8, 7, 6, 5, 4, 3, 2]"

text \<open>
  \<open>rs\<close> is a number until a unit that is neither a number nor a letter of the table makes it a text;
  from then on \<open>+=\<close> appends. \<open>isNaN\<close> of one unit is false for digits and white space.
\<close>

datatype running = Num nat | Text jstr

definition running_text :: "running \<Rightarrow> jstr" where
  "running_text rs = (case rs of Num n \<Rightarrow> js_nat n | Text s \<Rightarrow> s)"

definition add_num :: "running \<Rightarrow> nat \<Rightarrow> running" where
  "add_num rs n = (case rs of Num m \<Rightarrow> Num (m + n) | Text s \<Rightarrow> Text (s @ js_nat n))"

text \<open>\<open>isNaN( cdv )\<close>; before index 8 \<open>cdv\<close> is \<open>undefined\<close>.\<close>

definition is_nan :: "cunit option \<Rightarrow> bool" where
  "is_nan cdv = (case cdv of None \<Rightarrow> True | Some c \<Rightarrow> number_unit c = None)"

fun vin_loop :: "nat \<Rightarrow> running \<Rightarrow> cunit option \<Rightarrow> jstr \<Rightarrow> running \<times> cunit option" where
  "vin_loop i rs cdv [] = (rs, cdv)"
| "vin_loop i rs cdv (d # ds) =
     (let f = vin_weights ! i; cdv = (if i = 8 then Some d else cdv) in
      case number_unit d of
        Some n \<Rightarrow> vin_loop (i + 1) (add_num rs (nat n * f)) cdv ds
      | None \<Rightarrow>
          (let n = js_find_index (\<lambda>l. js_upper [d] = [l]) vin_letters in
           if n < 0 then vin_loop (i + 1) (Text (running_text rs @ [d])) cdv ds
           else vin_loop (i + 1) (add_num rs (vin_values ! nat n * f))
                  (if is_nan cdv \<and> n = 8 then Some (vin_letters ! 8) else cdv) ds))"

text \<open>
  The final comparison is between the number or \<open>"X"\<close> and the text \<open>cdv\<close>, so a number never equals it.
  A text \<open>rs\<close> is read by \<open>Number\<close>: as a decimal number, which is 10 modulo 11 only with zeros after its
  point (17 units are too few for a fraction that a double rounds away), or, since \<open>o\<close> is no letter of the
  table, as an octal literal \<open>0o...\<close>, rounded to 53 bits.
\<close>

fun bit_length :: "nat \<Rightarrow> nat" where
  "bit_length n = (if n = 0 then 0 else Suc (bit_length (n div 2)))"

declare bit_length.simps [simp del]

definition to_double :: "nat \<Rightarrow> nat" where
  "to_double n =
     (if n < 2 ^ 53 then n
      else (let e = bit_length n - 53; q = n div 2 ^ e; r = n mod 2 ^ e in
            if 2 * r < 2 ^ e \<or> (2 * r = 2 ^ e \<and> even q) then q * 2 ^ e else (q + 1) * 2 ^ e))"

definition octal_value :: "jstr \<Rightarrow> nat" where
  "octal_value s = foldl (\<lambda>v c. 8 * v + (c - 48)) 0 s"

definition running_mod11 :: "running \<Rightarrow> num_or_nan" where
  "running_mod11 rs =
     (case rs of
        Num n \<Rightarrow> Some (int (n mod 11))
      | Text s \<Rightarrow>
          (let whole = takeWhile is_digit s; rest = dropWhile is_digit s in
           if rest = [] then (if whole = [] then None else Some (int (dec_value whole mod 11)))
           else if take 2 s = js ''0o'' \<or> take 2 s = js ''0O''
           then (if drop 2 s \<noteq> [] \<and> list_all (\<lambda>c. 48 \<le> c \<and> c \<le> 55) (drop 2 s)
                 then Some (int (to_double (octal_value (drop 2 s)) mod 11)) else None)
           else if hd rest = 46 \<and> whole \<noteq> [] \<and> list_all (\<lambda>c. c = 48) (tl rest) then Some (int (dec_value whole mod 11))
           else None))"

definition vinUS :: "jstr \<Rightarrow> bool" where
  "vinUS v =
     (if length v \<noteq> 17 then False
      else (case vin_loop 0 (Num 0) None v of
              (rs, cdv) \<Rightarrow> running_mod11 rs = Some 10 \<and> cdv = Some (of_char CHR ''X'')))"

end
