(* ===== verification/JsLanguage.thy ===== *)
theory JsLanguage
  imports JsPattern
begin

text \<open>
  What the matcher accepts, as a language: for a pattern without assertions the texts that \<open>re_match\<close>
  can consume are those that the pattern describes, whatever the order in which it tries them and
  although it drops empty iterations. A pattern \<open>^p$\<close> so accepts exactly the language of \<open>p\<close>.
\<close>

subsection \<open>The language of a pattern\<close>

inductive reads :: "bool \<Rightarrow> re \<Rightarrow> jstr \<Rightarrow> bool"
and reads_times :: "bool \<Rightarrow> re \<Rightarrow> nat \<Rightarrow> jstr \<Rightarrow> bool" for ic where
  "reads ic Eps []"
| "in_cls ic neg items c \<Longrightarrow> reads ic (Cls neg items) [c]"
| "\<not> is_line_end c \<Longrightarrow> reads ic AnyChar [c]"
| "reads ic p u \<Longrightarrow> reads ic q v \<Longrightarrow> reads ic (Seq p q) (u @ v)"
| "reads ic p u \<Longrightarrow> reads ic (Alt p q) u"
| "reads ic q u \<Longrightarrow> reads ic (Alt p q) u"
| "reads_times ic p n u \<Longrightarrow> lo \<le> n \<Longrightarrow> (case hi of None \<Rightarrow> True | Some h \<Rightarrow> n \<le> h) \<Longrightarrow> reads ic (Rep g lo hi p) u"
| "reads ic p u \<Longrightarrow> reads ic (Group k p) u"
| "reads_times ic p 0 []"
| "reads ic p u \<Longrightarrow> reads_times ic p n v \<Longrightarrow> reads_times ic p (Suc n) (u @ v)"

inductive_simps reads_simps [simp]:
  "reads ic Eps u" "reads ic (Cls neg items) u" "reads ic AnyChar u" "reads ic (Seq p q) u"
  "reads ic (Alt p q) u" "reads ic (Group k p) u"
  "reads ic Bol u" "reads ic Eol u" "reads ic WordB u" "reads ic NotWordB u" "reads ic (Look n p) u"
  "reads_times ic p 0 u"

inductive_simps reads_Rep: "reads ic (Rep g lo hi p) u"
inductive_simps reads_times_Suc: "reads_times ic p (Suc n) u"

text \<open>Patterns without assertions whose bounds are in order.\<close>

primrec pure :: "re \<Rightarrow> bool" where
  "pure Eps = True"
| "pure (Cls _ _) = True"
| "pure AnyChar = True"
| "pure (Seq p q) = (pure p \<and> pure q)"
| "pure (Alt p q) = (pure p \<and> pure q)"
| "pure (Rep _ lo hi p) = (pure p \<and> (case hi of None \<Rightarrow> True | Some h \<Rightarrow> lo \<le> h))"
| "pure (Group _ p) = pure p"
| "pure Bol = False"
| "pure Eol = False"
| "pure WordB = False"
| "pure NotWordB = False"
| "pure (Look _ _) = False"

subsection \<open>The matcher reads nothing else\<close>

definition only_reads :: "(mst \<Rightarrow> mst list) \<Rightarrow> (jstr \<Rightarrow> bool) \<Rightarrow> bool" where
  "only_reads f L \<longleftrightarrow> (\<forall>b s cs st. st \<in> set (f (b, s, cs)) \<longrightarrow>
     (\<exists>u cs'. s = u @ fst (snd st) \<and> st = (rev u @ b, fst (snd st), cs') \<and> L u))"

lemma only_readsD:
  "only_reads f L \<Longrightarrow> st \<in> set (f (b, s, cs)) \<Longrightarrow>
     \<exists>u cs'. s = u @ fst (snd st) \<and> st = (rev u @ b, fst (snd st), cs') \<and> L u"
  unfolding only_reads_def by blast

lemma rep_only_reads:
  assumes "only_reads f (reads ic p)"
  shows "st \<in> set (rep f g n lo hi (b, s, cs)) \<Longrightarrow> (case hi of None \<Rightarrow> True | Some h \<Rightarrow> lo \<le> h) \<Longrightarrow>
    \<exists>u cs' k. s = u @ fst (snd st) \<and> st = (rev u @ b, fst (snd st), cs') \<and> reads_times ic p k u
      \<and> lo \<le> k \<and> (case hi of None \<Rightarrow> True | Some h \<Rightarrow> k \<le> h)"
proof (induction n arbitrary: lo hi b s cs)
  case (Suc n)
  from Suc.prems(1) consider (stop) "st = (b, s, cs)" "lo = 0 \<or> hi = Some 0"
    | (more) st' where "hi \<noteq> Some 0" "st' \<in> set (f (b, s, cs))"
        "st \<in> set (rep f g n (lo - 1) (map_option (\<lambda>h. h - 1) hi) st')"
    by (auto simp: Let_def split: if_splits)
  then show ?case
  proof cases
    case stop
    with Suc.prems(2) show ?thesis
      by (intro exI [of _ "[]"] exI [of _ cs] exI [of _ 0]) (auto split: option.splits)
  next
    case more
    obtain u cs' where u: "s = u @ fst (snd st')" "st' = (rev u @ b, fst (snd st'), cs')" "reads ic p u"
      using only_readsD [OF assms more(2)] by blast
    have "case map_option (\<lambda>h. h - 1) hi of None \<Rightarrow> True | Some h \<Rightarrow> lo - 1 \<le> h"
      using Suc.prems(2) by (cases hi) auto
    moreover have "st \<in> set (rep f g n (lo - 1) (map_option (\<lambda>h. h - 1) hi) (rev u @ b, fst (snd st'), cs'))"
      using more(3) u(2) by simp
    ultimately obtain v cs'' k where v: "fst (snd st') = v @ fst (snd st)"
      "st = (rev v @ rev u @ b, fst (snd st), cs'')" "reads_times ic p k v" "lo - 1 \<le> k"
      "case map_option (\<lambda>h. h - 1) hi of None \<Rightarrow> True | Some h \<Rightarrow> k \<le> h"
      using Suc.IH [of "lo - 1" "map_option (\<lambda>h. h - 1) hi"] by blast
    have "reads_times ic p (Suc k) (u @ v)"
      using u(3) v(3) by (rule reads_reads_times.intros)
    moreover have "lo \<le> Suc k" using v(4) by simp
    moreover have "case hi of None \<Rightarrow> True | Some h \<Rightarrow> Suc k \<le> h"
      using v(5) more(1) by (cases hi) (auto simp: not_less_eq_eq)
    ultimately show ?thesis
      using u v by (intro exI [of _ "u @ v"] exI [of _ cs''] exI [of _ "Suc k"]) auto
  qed
qed simp

lemma re_match_only_reads: "pure p \<Longrightarrow> only_reads (re_match ic p) (reads ic p)"
proof (induction p)
  case (Seq p q)
  show ?case
    unfolding only_reads_def
  proof (intro allI impI)
    fix b s cs st
    assume "st \<in> set (re_match ic (Seq p q) (b, s, cs))"
    then obtain m where m: "m \<in> set (re_match ic p (b, s, cs))" "st \<in> set (re_match ic q m)"
      by (auto simp del: split_paired_Ex)
    then obtain u cs' where u: "s = u @ fst (snd m)" "m = (rev u @ b, fst (snd m), cs')" "reads ic p u"
      using Seq only_readsD [of "re_match ic p"] by (metis pure.simps(4))
    have "st \<in> set (re_match ic q (rev u @ b, fst (snd m), cs'))" using m(2) u(2) by simp
    then obtain v cs'' where v: "fst (snd m) = v @ fst (snd st)" "st = (rev v @ rev u @ b, fst (snd st), cs'')" "reads ic q v"
      using Seq only_readsD [of "re_match ic q"] by (metis pure.simps(4))
    with u show "\<exists>w cs''. s = w @ fst (snd st) \<and> st = (rev w @ b, fst (snd st), cs'') \<and> reads ic (Seq p q) w"
      by (intro exI [of _ "u @ v"] exI [of _ cs'']) auto
  qed
next
  case (Rep g lo hi p)
  have f: "only_reads (\<lambda>s. re_match ic p (clear_caps (groups p) s)) (reads ic p)"
    using Rep unfolding only_reads_def by (simp add: clear_caps_def)
  show ?case
    unfolding only_reads_def
  proof (intro allI impI)
    fix b s cs st
    assume "st \<in> set (re_match ic (Rep g lo hi p) (b, s, cs))"
    then have "st \<in> set (rep (\<lambda>s. re_match ic p (clear_caps (groups p) s)) g (Suc (lo + length s)) lo hi (b, s, cs))"
      by (simp only: re_match.simps fst_conv snd_conv)
    from rep_only_reads [OF f this] Rep.prems show
      "\<exists>u cs'. s = u @ fst (snd st) \<and> st = (rev u @ b, fst (snd st), cs') \<and> reads ic (Rep g lo hi p) u"
      by (fastforce simp: reads_Rep)
  qed
next
  case (Alt p q)
  then have "only_reads (re_match ic p) (reads ic p)" "only_reads (re_match ic q) (reads ic q)" by simp_all
  then show ?case
    unfolding only_reads_def re_match.simps set_append reads_simps by blast
next
  case (Group n p)
  show ?case
    unfolding only_reads_def
  proof (intro allI impI)
    fix b s cs st
    assume "st \<in> set (re_match ic (Group n p) (b, s, cs))"
    then obtain m where m: "m \<in> set (re_match ic p (b, s, cs))" "fst st = fst m" "fst (snd st) = fst (snd m)"
      by (auto split: prod.splits)
    then obtain u cs' where "s = u @ fst (snd m)" "m = (rev u @ b, fst (snd m), cs')" "reads ic p u"
      using Group only_readsD [of "re_match ic p"] by (metis pure.simps(7))
    with m show "\<exists>w cs''. s = w @ fst (snd st) \<and> st = (rev w @ b, fst (snd st), cs'') \<and> reads ic (Group n p) w"
      by (intro exI [of _ u] exI [of _ "snd (snd st)"]) (metis fst_conv prod.collapse reads_simps(6))
  qed
qed (auto simp: only_reads_def re_match.simps(2) split: list.splits if_splits)

subsection \<open>The matcher reads all of it\<close>

definition can_read :: "(mst \<Rightarrow> mst list) \<Rightarrow> jstr \<Rightarrow> bool" where
  "can_read f u \<longleftrightarrow> (\<forall>b r cs. \<exists>cs'. (rev u @ b, r, cs') \<in> set (f (b, u @ r, cs)))"

lemma can_readI: "(\<And>b r cs. \<exists>cs'. (rev u @ b, r, cs') \<in> set (f (b, u @ r, cs))) \<Longrightarrow> can_read f u"
  by (simp add: can_read_def)

lemma can_readE:
  assumes "can_read f u"
  obtains cs' where "(rev u @ b, r, cs') \<in> set (f (b, u @ r, cs))"
  using assms unfolding can_read_def by blast

lemma can_read_Rep:
  assumes "\<And>u. reads ic p u \<Longrightarrow> can_read (re_match ic p) u"
  shows "reads_times ic p n u \<Longrightarrow> lo \<le> n \<Longrightarrow> (case hi of None \<Rightarrow> True | Some h \<Rightarrow> n \<le> h) \<Longrightarrow>
    \<exists>cs'. (rev u @ b, r, cs') \<in> set (re_match ic (Rep g lo hi p) (b, u @ r, cs))"
proof (induction n arbitrary: lo hi u b cs)
  case 0
  then have "(b, r, cs) \<in> set (re_match ic (Rep g lo hi p) (b, r, cs))"
    by (subst re_match_Rep) (auto simp: Let_def)
  with 0 show ?case by auto
next
  case (Suc n)
  obtain v w where u: "u = v @ w" "reads ic p v" "reads_times ic p n w"
    using Suc.prems(1) by (auto simp: reads_times_Suc)
  have hi: "hi \<noteq> Some 0" using Suc.prems(3) by auto
  show ?case
  proof (cases "lo = 0 \<and> v = []")
    case True
    with Suc.prems(3) u Suc.IH [of w lo hi] show ?thesis
      by (auto split: option.splits)
  next
    case False
    obtain cs1 where cs1: "clear_caps (groups p) (b, u @ r, cs) = (b, u @ r, cs1)"
      by (simp add: clear_caps_def)
    obtain cs2 where m: "(rev v @ b, w @ r, cs2) \<in> set (re_match ic p (b, v @ w @ r, cs1))"
      using can_readE [OF assms [OF u(2)], where b = b and r = "w @ r" and cs = cs1] by blast
    have "lo - 1 \<le> n" "case map_option (\<lambda>h. h - 1) hi of None \<Rightarrow> True | Some h \<Rightarrow> n \<le> h"
      using Suc.prems by (auto split: option.splits)
    then obtain cs3 where "(rev w @ rev v @ b, r, cs3) \<in>
        set (re_match ic (Rep g (lo - 1) (map_option (\<lambda>h. h - 1) hi) p) (rev v @ b, w @ r, cs2))"
      using Suc.IH [OF u(3)] by blast
    moreover have "\<not> (lo = 0 \<and> length (w @ r) = length (u @ r))" using False u(1) by auto
    ultimately have "(rev u @ b, r, cs3) \<in> set (re_match ic (Rep g lo hi p) (b, u @ r, cs))"
      using hi m cs1 u(1) by (subst re_match_Rep) (force simp: Let_def)
    then show ?thesis ..
  qed
qed

lemma reads_can_read: "reads ic p u \<Longrightarrow> can_read (re_match ic p) u"
proof (induction p arbitrary: u)
  case (Seq p q)
  then obtain v w where u: "u = v @ w" "reads ic p v" "reads ic q w" by auto
  show ?case
  proof (rule can_readI)
    fix b r cs
    obtain cs1 where "(rev v @ b, w @ r, cs1) \<in> set (re_match ic p (b, v @ w @ r, cs))"
      using can_readE [OF Seq.IH(1) [OF u(2)]] by blast
    moreover obtain cs2 where "(rev w @ rev v @ b, r, cs2) \<in> set (re_match ic q (rev v @ b, w @ r, cs1))"
      using can_readE [OF Seq.IH(2) [OF u(3)]] by blast
    ultimately show "\<exists>cs'. (rev u @ b, r, cs') \<in> set (re_match ic (Seq p q) (b, u @ r, cs))"
      using u(1) by (intro exI [of _ cs2]) force
  qed
next
  case (Alt p q)
  then have "can_read (re_match ic p) u \<or> can_read (re_match ic q) u" by auto
  then show ?case unfolding can_read_def re_match.simps set_append by blast
next
  case (Rep g lo hi p)
  then show ?case
    by (intro can_readI) (auto simp: reads_Rep intro: can_read_Rep)
next
  case (Group n p)
  show ?case
  proof (rule can_readI)
    fix b r cs
    obtain cs1 where "(rev u @ b, r, cs1) \<in> set (re_match ic p (b, u @ r, cs))"
      using can_readE [OF Group.IH] Group.prems by (metis reads_simps(6))
    then show "\<exists>cs'. (rev u @ b, r, cs') \<in> set (re_match ic (Group n p) (b, u @ r, cs))"
      by force
  qed
next
  case AnyChar
  then obtain c where "u = [c]" "\<not> is_line_end c" by auto
  then show ?case by (simp add: can_read_def)
qed (auto simp: can_read_def re_match.simps(2))

subsection \<open>Whole-text patterns\<close>

text \<open>\<open>p\<close> of a pattern \<open>^p$\<close> as the parser returns it.\<close>

fun before_Eol :: "re \<Rightarrow> re option" where
  "before_Eol (Seq p q) = (if p = Eol \<and> q = Eps then Some Eps else map_option (Seq p) (before_Eol q))"
| "before_Eol _ = None"

fun whole_text :: "re \<Rightarrow> re option" where
  "whole_text (Seq Bol p) = before_Eol p"
| "whole_text _ = None"

lemma filter_concat_map: "concat (map (\<lambda>x. filter P (f x)) xs) = filter P (concat (map f xs))"
  by (induction xs) simp_all

lemma re_match_before_Eol:
  "before_Eol p = Some q \<Longrightarrow> re_match ic p st = filter (\<lambda>s. fst (snd s) = []) (re_match ic q st)"
proof (induction p arbitrary: q st)
  case (Seq p1 p2)
  show ?case
  proof (cases "p1 = Eol \<and> p2 = Eps")
    case True
    with Seq.prems show ?thesis by (cases st) auto
  next
    case False
    with Seq.prems obtain q2 where q: "before_Eol p2 = Some q2" "q = Seq p1 q2" by auto
    have "re_match ic p2 = (\<lambda>st. filter (\<lambda>s. fst (snd s) = []) (re_match ic q2 st))"
      using Seq.IH(2) [OF q(1)] by auto
    then show ?thesis by (simp add: q(2) filter_concat_map)
  qed
qed auto

text \<open>The pattern \<open>^q$\<close> accepts the language of \<open>q\<close>.\<close>

lemma re_test_whole:
  assumes "whole_text p = Some q" "pure q"
  shows "re_test ic p s \<longleftrightarrow> reads ic q s"
proof -
  obtain p' where p: "p = Seq Bol p'" "before_Eol p' = Some q"
    using assms(1) by (cases p rule: whole_text.cases) auto
  have "re_test ic p s \<longleftrightarrow> (\<exists>st\<in>set (re_match ic q ([], s, [])). fst (snd st) = [])"
    unfolding p(1) re_test_Bol re_match_before_Eol [OF p(2)] by (auto simp: filter_empty_conv)
  also have "\<dots> \<longleftrightarrow> reads ic q s"
  proof
    assume "\<exists>st\<in>set (re_match ic q ([], s, [])). fst (snd st) = []"
    then obtain st where st: "st \<in> set (re_match ic q ([], s, []))" "fst (snd st) = []" by blast
    obtain u where "s = u @ fst (snd st)" "reads ic q u"
      using only_readsD [OF re_match_only_reads [OF assms(2)] st(1)] by blast
    with st(2) show "reads ic q s" by simp
  next
    assume "reads ic q s"
    then obtain cs where "(rev s @ [], [], cs) \<in> set (re_match ic q ([], s @ [], []))"
      by (rule can_readE [OF reads_can_read])
    then show "\<exists>st\<in>set (re_match ic q ([], s, [])). fst (snd st) = []"
      by (intro bexI [of _ "(rev s, [], cs)"]) simp_all
  qed
  finally show ?thesis .
qed

end
