(* ===== verification/ValidateDigits.thy ===== *)
theory ValidateDigits
  imports ValidateChecks JsLanguage
begin

text \<open>
  What the computing validation methods accept: the octets of \<open>ipv4\<close>, the error detection of the Luhn
  and routing checksums, the remainder of \<open>iban\<close>, and the inputs on which \<open>vinUS\<close>, \<open>nisBR\<close> and
  \<open>ziprange\<close> do not do what their messages say.
\<close>

subsection \<open>Literals as patterns\<close>

lemma re_match_Seq_Eps [simp]: "re_match ic (Seq p Eps) = re_match ic p"
proof
  fix st
  have "concat (map (re_match ic Eps) xs) = xs" for xs
    by (induction xs) auto
  then show "re_match ic (Seq p Eps) st = re_match ic p st" by simp
qed

lemma re_replace_from_cong:
  assumes "re_match ic p = re_match ic q"
  shows "re_replace_from ic p f b s = re_replace_from ic q f b s"
proof (induction s arbitrary: b rule: length_induct)
  case (1 s)
  show ?case
  proof (cases s)
    case (Cons c r)
    have "re_replace_from ic p f b' t = re_replace_from ic q f b' t" if "length t < length (c # r)" for b' t
      using 1 [rule_format, of t b'] Cons that by simp
    then show ?thesis
      unfolding Cons re_replace_from.simps(2) assms by (auto split: list.split prod.split)
  qed (simp add: re_replace_from.simps assms)
qed

lemma re_replace_all_Seq_Eps [simp]: "re_replace_all ic (Seq p Eps) f s = re_replace_all ic p f s"
  unfolding re_replace_all_def by (rule re_replace_from_cong) simp

text \<open>A run of a class is found exactly when a unit of it occurs.\<close>

lemma re_match_plus_cls_empty:
  "re_match ic (plus1 (Cls neg items)) (b, r, cs) = [] \<longleftrightarrow> (r = [] \<or> \<not> in_cls ic neg items (hd r))"
  by (cases r) (simp_all add: re_match_plus_cls re_match_star_cls)

lemma re_test_plus_cls: "re_test ic (plus1 (Cls neg items)) s \<longleftrightarrow> list_ex (in_cls ic neg items) s"
proof -
  have "re_search ic (plus1 (Cls neg items)) b s \<noteq> None \<longleftrightarrow> list_ex (in_cls ic neg items) s" for b
  proof (induction s arbitrary: b)
    case Nil
    have "re_match ic (plus1 (Cls neg items)) (b, [], []) = []"
      by (simp add: re_match_plus_cls_empty)
    then show ?case by simp
  next
    case (Cons c s)
    show ?case
    proof (cases "in_cls ic neg items c")
      case True
      then have "re_match ic (plus1 (Cls neg items)) (b, c # s, []) \<noteq> []"
        by (simp add: re_match_plus_cls_empty)
      with True show ?thesis by (auto split: list.splits)
    next
      case False
      then have "re_match ic (plus1 (Cls neg items)) (b, c # s, []) = []"
        by (simp add: re_match_plus_cls_empty)
      with False Cons.IH show ?thesis by simp
    qed
  qed
  then show ?thesis by (simp add: re_test_def)
qed

lemma re_test_cong: "re_match ic p = re_match ic q \<Longrightarrow> re_test ic p s = re_test ic q s"
proof -
  assume "re_match ic p = re_match ic q"
  then have "re_search ic p b s = re_search ic q b s" for b
    by (induction s arbitrary: b) (simp_all split: list.split)
  then show ?thesis by (simp add: re_test_def)
qed

lemma re_test_Seq_Eps [simp]: "re_test ic (Seq p Eps) s = re_test ic p s"
  by (rule re_test_cong) simp

lemma reads_opt [simp]: "reads ic (Rep g 0 (Some (Suc 0)) p) u \<longleftrightarrow> u = [] \<or> reads ic p u"
proof -
  have "(\<exists>n\<le>Suc 0. reads_times ic p n u) \<longleftrightarrow> reads_times ic p 0 u \<or> reads_times ic p (Suc 0) u"
    by (metis le_Suc_eq le_zero_eq)
  then show ?thesis
    by (auto simp: reads_Rep reads_times_Suc)
qed

text \<open>Sequences read unit by unit.\<close>

lemma reads_Seq_Cls: "reads ic (Seq (Cls neg its) q) u \<longleftrightarrow> (\<exists>c v. u = c # v \<and> in_cls ic neg its c \<and> reads ic q v)"
  by (auto intro: exI [of _ "[_]"])

lemma reads_Seq_opt: "reads ic (Seq (Rep g 0 (Some (Suc 0)) p) q) u \<longleftrightarrow> reads ic q u \<or> reads ic (Seq p q) u"
  by auto

lemma reads_Seq_Eps: "reads ic (Seq p Eps) u \<longleftrightarrow> reads ic p u"
  by auto

lemmas reads_seqs = reads_Seq_Eps reads_Seq_Cls reads_Seq_opt

text \<open>Digits have no other case.\<close>

lemma in_cls_digits:
  "in_cls ic False [Digit] = is_digit"
  "48 \<le> lo \<Longrightarrow> hi \<le> 57 \<Longrightarrow> in_cls ic False [Range lo hi] c \<longleftrightarrow> lo \<le> c \<and> c \<le> hi"
  "in_cls ic False [Range 48 48, Range 49 49] c \<longleftrightarrow> c = 48 \<or> c = 49"
  by (auto simp: in_cls_def case_variants_def is_digit_def fun_eq_iff)

subsection \<open>Internet addresses\<close>

definition octet :: "jstr \<Rightarrow> bool" where
  "octet x \<longleftrightarrow> x \<noteq> [] \<and> length x \<le> 3 \<and> list_all is_digit x \<and> dec_value x \<le> 255"

definition octet_re :: "nat \<Rightarrow> re" where
  "octet_re n = Group n
     (Alt (Seq (ch 50) (Seq (ch 53) (Seq (Cls False [Range 48 53]) Eps)))
     (Alt (Seq (ch 50) (Seq (Cls False [Range 48 52]) (Seq (Cls False [Digit]) Eps)))
       (Seq (opt (Cls False [Range 48 48, Range 49 49])) (Seq (Cls False [Digit]) (Seq (opt (Cls False [Digit])) Eps)))))"

lemma octet_simps:
  "octet [] \<longleftrightarrow> False" "octet [a] \<longleftrightarrow> is_digit a" "octet [a, b] \<longleftrightarrow> is_digit a \<and> is_digit b"
  "octet [a, b, c] \<longleftrightarrow> is_digit a \<and> is_digit b \<and> is_digit c \<and> 100 * (a - 48) + 10 * (b - 48) + (c - 48) \<le> 255"
  "octet (a # b # c # d # x) \<longleftrightarrow> False"
  by (auto simp: octet_def is_digit_def)

lemma octet_cases:
  "octet x \<longleftrightarrow>
     (\<exists>a. x = [a] \<and> is_digit a) \<or> (\<exists>a b. x = [a, b] \<and> is_digit a \<and> is_digit b)
     \<or> (\<exists>a b c. x = [a, b, c] \<and> is_digit a \<and> is_digit b \<and> is_digit c \<and> 100 * (a - 48) + 10 * (b - 48) + (c - 48) \<le> 255)"
proof (cases x)
  case (Cons a y)
  note a = this
  show ?thesis
  proof (cases y)
    case (Cons b z)
    note b = this
    show ?thesis
    proof (cases z)
      case (Cons c w)
      then show ?thesis by (cases w) (simp_all add: a b octet_simps)
    qed (simp add: a b octet_simps)
  qed (simp add: a octet_simps)
qed (simp add: octet_simps)

lemma reads_octet: "reads ic (octet_re n) x \<longleftrightarrow> octet x"
  unfolding octet_cases octet_re_def
  by (simp add: in_cls_digits reads_seqs del: reads_simps(4)) (auto simp: is_digit_def)

lemma ipv4_pattern:
  "whole_text (rx ''^(25[0-5]|2[0-4]`d|[01]?`d`d?)`.(25[0-5]|2[0-4]`d|[01]?`d`d?)`.(25[0-5]|2[0-4]`d|[01]?`d`d?)`.(25[0-5]|2[0-4]`d|[01]?`d`d?)$'')
   = Some (Seq (octet_re 1) (Seq (ch 46) (Seq (octet_re 2) (Seq (ch 46) (Seq (octet_re 3) (Seq (ch 46) (Seq (octet_re 4) Eps)))))))"
  by code_simp

lemma octet_no_dot: "octet x \<Longrightarrow> 46 \<notin> set x"
  by (auto simp: octet_def is_digit_def list_all_iff)

lemma in_cls_dot: "in_cls ic False [Range 46 46] c \<longleftrightarrow> c = 46"
  by (auto simp: in_cls_def case_variants_def)

lemma js_split_four:
  "(\<exists>a b c d. v = a @ 46 # b @ 46 # c @ 46 # d \<and> octet a \<and> octet b \<and> octet c \<and> octet d)
   \<longleftrightarrow> length (js_split 46 v) = 4 \<and> list_all octet (js_split 46 v)"
proof
  assume "\<exists>a b c d. v = a @ 46 # b @ 46 # c @ 46 # d \<and> octet a \<and> octet b \<and> octet c \<and> octet d"
  then show "length (js_split 46 v) = 4 \<and> list_all octet (js_split 46 v)"
    by (auto simp: octet_no_dot js_split_append_sep js_split_no_sep)
next
  assume *: "length (js_split 46 v) = 4 \<and> list_all octet (js_split 46 v)"
  then obtain a b c d where "js_split 46 v = [a, b, c, d]"
    by (auto simp: length_Suc_conv numeral_eq_Suc)
  with * js_join_split [of 46 v] show "\<exists>a b c d. v = a @ 46 # b @ 46 # c @ 46 # d \<and> octet a \<and> octet b \<and> octet c \<and> octet d"
    by auto
qed

text \<open>
  The method \<open>ipv4\<close> accepts exactly four parts between dots, each one to three digits with a value up
  to 255.
\<close>

theorem ipv4_iff:
  "ipv4 False v = Verdict (length (js_split 46 v) = 4 \<and> list_all octet (js_split 46 v))"
proof -
  have "reads True (Seq (octet_re 1) (Seq (ch 46) (Seq (octet_re 2) (Seq (ch 46) (Seq (octet_re 3) (Seq (ch 46) (Seq (octet_re 4) Eps))))))) v
    \<longleftrightarrow> (\<exists>a b c d. v = a @ 46 # b @ 46 # c @ 46 # d \<and> octet a \<and> octet b \<and> octet c \<and> octet d)"
    by (auto simp: reads_octet in_cls_dot reads_Seq_Cls simp del: append_assoc) (metis append_Cons append_assoc append_Nil)
  then show ?thesis
    using re_test_whole [OF ipv4_pattern, of True v]
    by (simp add: ipv4_def optional_or_def js_split_four octet_re_def)
qed

subsection \<open>Credit cards\<close>

definition luhn_digit :: "bool \<Rightarrow> cunit \<Rightarrow> int" where
  "luhn_digit bEven c = (let n = int c - 48 in if bEven then if n * 2 > 9 then n * 2 - 9 else n * 2 else n)"

lemma luhn_sum_add: "luhn_sum b n s = n + luhn_sum b 0 s"
proof (induction s arbitrary: b n)
  case (Cons c s)
  show ?case
    unfolding luhn_sum.simps Let_def by (subst (1 2) Cons.IH) simp
qed simp

lemma luhn_sum_Cons: "luhn_sum b 0 (c # s) = luhn_digit b c + luhn_sum (\<not> b) 0 s"
  unfolding luhn_sum.simps Let_def luhn_digit_def by (subst luhn_sum_add) simp

lemma luhn_sum_append: "luhn_sum b 0 (s @ t) = luhn_sum b 0 s + luhn_sum (b = even (length s)) 0 t"
proof (induction s arbitrary: b)
  case (Cons c s)
  have "((\<not> b) = even (length s)) = (b = even (length (c # s)))" by auto
  then show ?case by (simp only: append_Cons luhn_sum_Cons Cons.IH add.assoc)
qed simp

text \<open>Two digits that differ have Luhn values that differ modulo 10.\<close>

lemma luhn_digit_range: "is_digit c \<Longrightarrow> 0 \<le> luhn_digit b c \<and> luhn_digit b c \<le> 9"
  by (auto simp: luhn_digit_def is_digit_def Let_def)

lemma luhn_digit_inj: "is_digit c \<Longrightarrow> is_digit d \<Longrightarrow> luhn_digit b c = luhn_digit b d \<Longrightarrow> c = d"
  by (auto simp: luhn_digit_def is_digit_def Let_def split: if_splits; presburger)

lemma mod_shift_unique:
  fixes a b x :: int
  assumes "0 \<le> a" "a < m" "0 \<le> b" "b < m" "(x + a) mod m = (x + b) mod m"
  shows "a = b"
proof -
  from assms(5) have "m dvd (x + a) - (x + b)" by (simp only: mod_eq_dvd_iff)
  then have "m dvd a - b" by simp
  moreover have "\<bar>a - b\<bar> < m" using assms(1-4) by linarith
  ultimately show ?thesis using zdvd_not_zless [of "\<bar>a - b\<bar>" m] by auto
qed

lemma luhn_sum_replace:
  assumes "is_digit c" "is_digit d" "c \<noteq> d"
  shows "luhn_sum b 0 (u @ c # w) mod 10 \<noteq> luhn_sum b 0 (u @ d # w) mod 10"
proof
  let ?e = "b = even (length u)" and ?x = "luhn_sum b 0 u + luhn_sum (\<not> (b = even (length u))) 0 w"
  have s: "luhn_sum b 0 (u @ k # w) = ?x + luhn_digit ?e k" for k
    by (simp only: luhn_sum_append luhn_sum_Cons add.assoc)
  assume "luhn_sum b 0 (u @ c # w) mod 10 = luhn_sum b 0 (u @ d # w) mod 10"
  then have x: "(?x + luhn_digit ?e c) mod 10 = (?x + luhn_digit ?e d) mod 10" by (simp only: s)
  note r = luhn_digit_range [OF assms(1), of ?e] luhn_digit_range [OF assms(2), of ?e]
  have "luhn_digit ?e c = luhn_digit ?e d"
    by (rule mod_shift_unique [OF _ _ _ _ x]) (use r in linarith)+
  with assms luhn_digit_inj show False by blast
qed

text \<open>The patterns of \<open>creditcard\<close>: what it refuses, and what it strips.\<close>

lemma creditcard_patterns:
  "rx ''[^0-9 `-]+'' = Seq (plus1 (Cls True [Range 48 57, Range 32 32, Range 45 45])) Eps"
  "rx ''`D'' = Seq (Cls False [NotDigit]) Eps"
  by code_simp+

lemma strip_nondigits: "re_replace_all False (rx ''`D'') (by_text []) v = filter is_digit v"
proof -
  have "concat (map (\<lambda>c. if in_cls False False [NotDigit] c then [] else [c]) v) = filter is_digit v"
    by (induction v) (auto simp: in_cls_def)
  then show ?thesis
    by (simp only: creditcard_patterns re_replace_all_Seq_Eps re_replace_all_cls by_text_def)
qed

lemma creditcard_iff:
  "creditcard False v = Verdict
     (list_all (\<lambda>c. is_digit c \<or> c = 32 \<or> c = 45) v \<and> 13 \<le> length (filter is_digit v)
      \<and> length (filter is_digit v) \<le> 19 \<and> luhn_sum False 0 (rev (filter is_digit v)) mod 10 = 0)"
proof -
  have "re_test False (rx ''[^0-9 `-]+'') v \<longleftrightarrow> \<not> list_all (\<lambda>c. is_digit c \<or> c = 32 \<or> c = 45) v"
    by (simp only: creditcard_patterns re_test_Seq_Eps re_test_plus_cls)
      (auto simp: in_cls_def is_digit_def list_ex_iff list_all_iff)
  then show ?thesis by (auto simp: creditcard_def strip_nondigits Let_def)
qed

text \<open>
  C40: The Luhn check of \<open>creditcard\<close> detects every mistake in a single digit: from an accepted number no
  change of one digit leads to an accepted number, whatever spaces and dashes it is written with.
\<close>

theorem creditcard_detects:
  assumes "creditcard False (u @ c # w) = Verdict True" "is_digit c" "is_digit d" "d \<noteq> c"
  shows "creditcard False (u @ d # w) = Verdict False"
proof -
  have "luhn_sum False 0 (rev (filter is_digit (u @ k # w))) =
      luhn_sum False 0 (rev (filter is_digit w) @ k # rev (filter is_digit u))" if "is_digit k" for k
    using that by simp
  with luhn_sum_replace [OF assms(2,3) assms(4) [symmetric]] assms show ?thesis
    by (simp add: creditcard_iff del: filter_append rev_append luhn_sum.simps) metis
qed

subsection \<open>Routing numbers\<close>

lemma length_nine: "length v = 9 \<longleftrightarrow> (\<exists>a b c d e f g h i. v = [a, b, c, d, e, f, g, h, i])"
  by (auto simp: length_Suc_conv numeral_eq_Suc)

lemma aba_iff:
  "abaRoutingNumber v \<longleftrightarrow> length v = 9 \<and> list_all is_digit v \<and>
     (let s = sum_list (map2 (\<lambda>w c. w * (int c - 48)) [3, 7, 1, 3, 7, 1, 3, 7, 1] v) in s \<noteq> 0 \<and> s mod 10 = 0)"
  by (auto simp: abaRoutingNumber_def length_nine parse_unit_def nadd_def nmul_def Let_def
      algebra_simps split: if_splits)

lemma sum_list_map2: "length xs = length ys \<Longrightarrow> sum_list (map2 f xs ys) = (\<Sum>j<length ys. f (xs ! j) (ys ! j))"
  by (simp add: sum_list_sum_nth atLeast0LessThan)

text \<open>The weights 3, 7 and 1 have inverses modulo 10.\<close>

lemma weight_digit_unique:
  assumes "w \<in> {3, 7, 1 :: int}" "is_digit c" "is_digit d"
    "(x + w * (int c - 48)) mod 10 = (x + w * (int d - 48)) mod 10"
  shows "c = d"
proof -
  have "(10 :: int) dvd (x + w * (int c - 48)) - (x + w * (int d - 48))"
    using assms(4) by (simp only: mod_eq_dvd_iff)
  then have w: "10 dvd w * (int c - int d)" by (simp add: algebra_simps)
  have "10 dvd a" if "10 dvd 3 * a \<or> 10 dvd 7 * a \<or> 10 dvd 1 * a" for a :: int
    using that by presburger
  with w assms(1) have "10 dvd int c - int d" by blast
  moreover have "\<bar>int c - int d\<bar> < 10" using assms(2,3) by (auto simp: is_digit_def)
  ultimately have "int c - int d = 0" using zdvd_not_zless [of "\<bar>int c - int d\<bar>" 10] by force
  then show ?thesis by simp
qed

text \<open>
  The checksum of \<open>abaRoutingNumber\<close> detects every mistake in a single digit.
\<close>

theorem aba_detects:
  assumes "abaRoutingNumber v" "i < 9" "is_digit d" "d \<noteq> v ! i"
  shows "\<not> abaRoutingNumber (v[i := d])"
proof
  assume new: "abaRoutingNumber (v[i := d])"
  let ?ws = "[3, 7, 1, 3, 7, 1, 3, 7, 1 :: int]"
  let ?x = "\<Sum>j\<in>{..<9} - {i}. ?ws ! j * (int (v ! j) - 48)"
  have len: "length v = 9" and "is_digit (v ! i)"
    using assms by (auto simp: aba_iff list_all_length)
  have s: "sum_list (map2 (\<lambda>w c. w * (int c - 48)) ?ws (v[i := k])) = ?x + ?ws ! i * (int k - 48)" for k
  proof -
    have "sum_list (map2 (\<lambda>w c. w * (int c - 48)) ?ws (v[i := k])) = (\<Sum>j<9. ?ws ! j * (int (v[i := k] ! j) - 48))"
      using sum_list_map2 [of ?ws "v[i := k]"] len by (simp only: length_list_update) simp
    also have "\<dots> = ?ws ! i * (int k - 48) + (\<Sum>j\<in>{..<9} - {i}. ?ws ! j * (int (v[i := k] ! j) - 48))"
      using assms(2) len by (subst sum.remove [of _ i]) auto
    also have "(\<Sum>j\<in>{..<9} - {i}. ?ws ! j * (int (v[i := k] ! j) - 48)) = ?x"
      by (intro sum.cong) auto
    finally show ?thesis by simp
  qed
  have "?ws ! i \<in> {3, 7, 1}" using assms(2) by (auto simp: less_Suc_eq numeral_eq_Suc)
  moreover have "(?x + ?ws ! i * (int (v ! i) - 48)) mod 10 = (?x + ?ws ! i * (int d - 48)) mod 10"
    using assms(1) new s [of "v ! i"] s [of d] by (simp add: aba_iff Let_def)
  ultimately have "v ! i = d"
    using weight_digit_unique \<open>is_digit (v ! i)\<close> assms(3) by blast
  with assms(4) show False by simp
qed

subsection \<open>IBAN\<close>

lemma dec_fold: "foldl (\<lambda>v c. 10 * v + (c - 48)) a s = a * 10 ^ length s + dec_value s"
proof (induction s arbitrary: a)
  case (Cons c s)
  show ?case
    using Cons.IH [of "10 * a + (c - 48)"] Cons.IH [of "c - 48"]
    by (simp add: algebra_simps)
qed simp

lemma dec_value_snoc: "dec_value (s @ [c]) = 10 * dec_value s + (c - 48)"
  by simp

lemma dec_value_Cons: "dec_value (c # s) = (c - 48) * 10 ^ length s + dec_value s"
  using dec_fold [of "c - 48" s] by simp

lemma js_nat_all_digits: "list_all is_digit (js_nat n)"
  using js_nat_digits by (auto simp: list_all_iff is_digit_def)

lemma num_text_mod: "num_text (nmod (Some (int n)) 97) = js_nat (n mod 97)"
proof -
  have "int n mod 97 = int (n mod 97)" by (simp add: zmod_int)
  then show ?thesis by (simp add: nmod_def num_text_def del: of_nat_mod)
qed

lemma iban_step:
  assumes "s = [] \<and> r = 0 \<or> s = js_nat r" "is_digit c"
  shows "num_text (nmod (number_text (s @ [c])) 97) = js_nat ((10 * r + (c - 48)) mod 97)"
proof -
  have "dec_value s = r" "list_all is_digit s"
    using assms(1) dec_value_js_nat [of r] js_nat_all_digits by auto
  then have "number_text (s @ [c]) = Some (int (10 * r + (c - 48)))"
    using assms(2) dec_value_snoc [of s c] by (simp add: number_text_def del: dec_value.simps)
  then show ?thesis by (simp only: num_text_mod)
qed

lemma iban_rest_mod:
  "list_all is_digit ds \<Longrightarrow> ds \<noteq> [] \<Longrightarrow> s = [] \<and> r = 0 \<or> s = js_nat r \<Longrightarrow>
     iban_rest s ds = js_nat ((r * 10 ^ length ds + dec_value ds) mod 97)"
proof (induction ds arbitrary: s r)
  case (Cons c ds)
  let ?r = "(10 * r + (c - 48)) mod 97"
  have step: "iban_rest s (c # ds) = iban_rest (js_nat ?r) ds"
    using iban_step [OF Cons.prems(3)] Cons.prems(1) by simp
  show ?case
  proof (cases "ds = []")
    case True
    then show ?thesis using step by (simp add: algebra_simps)
  next
    case False
    have "iban_rest (js_nat ?r) ds = js_nat ((?r * 10 ^ length ds + dec_value ds) mod 97)"
      using Cons.IH [of "js_nat ?r" ?r] Cons.prems(1) False by simp
    also have "(?r * 10 ^ length ds + dec_value ds) mod 97 = ((10 * r + (c - 48)) * 10 ^ length ds + dec_value ds) mod 97"
      by (metis mod_add_left_eq mod_mult_left_eq)
    also have "(10 * r + (c - 48)) * 10 ^ length ds + dec_value ds = r * 10 ^ length (c # ds) + dec_value (c # ds)"
      by (simp add: dec_value_Cons algebra_simps del: dec_value.simps)
    finally show ?thesis using step by simp
  qed
qed simp

text \<open>The number that the source's comment speaks of: a letter counts as two digits, \<open>A\<close> as 10.\<close>

definition iban_value :: "cunit \<Rightarrow> nat" where
  "iban_value c = (if is_digit c then c - 48 else c - 55)"

definition iban_number :: "jstr \<Rightarrow> nat" where
  "iban_number s = foldl (\<lambda>n c. (if is_digit c then 10 else 100) * n + iban_value c) 0 s"

definition iban_unit :: "cunit \<Rightarrow> bool" where
  "iban_unit c \<longleftrightarrow> is_digit c \<or> (65 \<le> c \<and> c \<le> 90)"

lemma js_nat_small:
  "n < 10 \<Longrightarrow> js_nat n = [48 + n]" "10 \<le> n \<Longrightarrow> n < 100 \<Longrightarrow> js_nat n = [48 + n div 10, 48 + n mod 10]"
  by (simp_all add: js_nat.simps [of n] js_nat.simps [of "n div 10"])

lemma iban_alphabet_index:
  "js_find_index (\<lambda>d. d = c) iban_alphabet = (if iban_unit c then int (iban_value c) else - 1)"
proof -
  have "js_find_index (\<lambda>d. d = c) iban_alphabet = (if c \<in> set iban_alphabet then int (iban_value c) else - 1)"
    by (simp add: iban_alphabet_def js_simps iban_value_def is_digit_def Let_def)
  moreover have "c \<in> set iban_alphabet \<longleftrightarrow> iban_unit c"
  proof -
    have "iban_alphabet = [48..<58] @ [65..<91]" by code_simp
    then have "set iban_alphabet = {48..<58} \<union> {65..<91}" by (metis set_append set_upt)
    then show ?thesis by (auto simp: iban_unit_def is_digit_def)
  qed
  ultimately show ?thesis by simp
qed

lemma index_text_digits: "iban_unit c \<Longrightarrow> list_all is_digit (index_text c) \<and> index_text c \<noteq> []
    \<and> length (index_text c) = (if is_digit c then 1 else 2) \<and> dec_value (index_text c) = iban_value c"
  by (auto simp: index_text_def iban_alphabet_index Let_def iban_unit_def iban_value_def is_digit_def js_nat_small)

lemma index_text_other: "\<not> iban_unit c \<Longrightarrow> 45 \<in> set (index_text c)"
  by (simp add: index_text_def iban_alphabet_index)

lemma dec_value_append: "dec_value (s @ t) = dec_value s * 10 ^ length t + dec_value t"
  using dec_fold [of "dec_value s" t] by simp

lemma iban_number_fold:
  "foldl (\<lambda>n c. (if is_digit c then 10 else 100) * n + iban_value c) a s
    = a * 10 ^ length (concat (map index_text s)) + dec_value (concat (map index_text s))"
  if "list_all iban_unit s"
  using that
proof (induction s arbitrary: a)
  case (Cons c s)
  let ?t = "concat (map index_text s)"
  from Cons.prems have c: "iban_unit c" and s: "list_all iban_unit s" by simp_all
  note i = index_text_digits [OF c]
  have "(if is_digit c then 10 else 100) = (10 :: nat) ^ length (index_text c)" using i by simp
  then show ?case
    using Cons.IH [OF s, of "(if is_digit c then 10 else 100) * a + iban_value c"] i
    by (simp add: dec_value_append power_add algebra_simps del: dec_value.simps)
qed simp

text \<open>Leading zeros are dropped and change nothing.\<close>

lemma iban_digits_False: "iban_digits False s = concat (map index_text s)"
  by (induction s) simp_all

lemma iban_digits_zeros: "iban_digits True s = concat (map index_text (dropWhile (\<lambda>c. c = 48) s))"
  by (induction s) (simp_all add: iban_digits_False)

lemma dropWhile_concat_zeros: "dec_value (concat (map index_text (dropWhile (\<lambda>c. c = 48) s))) = dec_value (concat (map index_text s))"
proof (induction s)
  case (Cons c s)
  have "index_text 48 = [48]" by code_simp
  then show ?case using Cons by (simp add: dec_value_Cons del: dec_value.simps)
qed simp

text \<open>A \<open>NaN\<close> remains one.\<close>

lemma iban_rest_NaN: "iban_rest (js ''NaN'') ds = js ''NaN''"
proof (induction ds)
  case (Cons c ds)
  have "num_text (nmod (number_text (js ''NaN'' @ [c])) 97) = js ''NaN''"
    by (simp add: number_text_def js_simps is_digit_def nmod_def num_text_def)
  with Cons show ?case by simp
qed simp

lemma iban_rest_other: "\<not> list_all is_digit ds \<Longrightarrow> iban_rest s ds = js ''NaN''"
proof (induction ds arbitrary: s)
  case (Cons c ds)
  show ?case
  proof (cases "is_digit c")
    case False
    then have "num_text (nmod (number_text (s @ [c])) 97) = js ''NaN''"
      by (simp add: number_text_def nmod_def num_text_def)
    then show ?thesis by (simp add: iban_rest_NaN)
  qed (use Cons in simp)
qed simp

lemma iban_remainder:
  "iban_digits True s \<noteq> [] \<and> iban_rest [] (iban_digits True s) = js_nat 1
    \<longleftrightarrow> list_all iban_unit s \<and> iban_number s mod 97 = 1"
proof (cases "list_all iban_unit s")
  case True
  let ?ds = "iban_digits True s"
  have u: "list_all iban_unit (dropWhile (\<lambda>c. c = 48) s)"
    using True by (auto simp: list_all_iff dest: set_dropWhileD)
  have digits: "list_all is_digit ?ds"
    unfolding iban_digits_zeros using u index_text_digits by (fastforce simp: list_all_iff)
  have number: "dec_value ?ds = iban_number s"
    using iban_number_fold [OF True, of 0]
    by (simp add: iban_digits_zeros dropWhile_concat_zeros iban_number_def del: dec_value.simps)
  have "js_nat m = js_nat n \<longleftrightarrow> m = n" for m n
    using dec_value_js_nat by metis
  then show ?thesis
    using True digits number iban_rest_mod [OF digits, of "[]" 0]
    by (cases "?ds = []") (auto simp del: dec_value.simps simp: dec_value.simps [of "[]"])
next
  case False
  moreover have "list_all iban_unit (dropWhile (\<lambda>c. c = 48) s) = list_all iban_unit s"
    by (induction s) (auto simp: iban_unit_def [of 48] is_digit_def)
  ultimately obtain c where "c \<in> set (dropWhile (\<lambda>c. c = 48) s)" "\<not> iban_unit c"
    by (auto simp: list_all_iff)
  then have "\<not> list_all is_digit (iban_digits True s)"
    using index_text_other by (force simp: iban_digits_zeros list_all_iff is_digit_def)
  then show ?thesis
    using False iban_rest_other by (simp add: js_simps js_nat_small)
qed

text \<open>
  C39: The loop of \<open>iban\<close>, which divides piece by piece and carries the remainder as text, computes what
  the standard asks for: with the first four units moved to the end and each letter read as two digits,
  the number has remainder 1 modulo 97.
\<close>

theorem iban_iff:
  "iban False v \<longleftrightarrow>
     (let s = js_upper (re_replace_all False (rx '' '') (by_text []) v) in
      5 \<le> length s \<and> bban_ok s \<and> list_all iban_unit s \<and> iban_number (drop 4 s @ take 4 s) mod 97 = 1)"
proof -
  let ?s = "js_upper (re_replace_all False (rx '' '') (by_text []) v)"
  have "list_all iban_unit (drop 4 ?s @ take 4 ?s) \<longleftrightarrow> list_all iban_unit ?s"
    by (metis append_take_drop_id list_all_append)
  then show ?thesis
    using iban_remainder [of "drop 4 ?s @ take 4 ?s"]
    by (auto simp: iban_def Let_def substring_def simp del: iban_rest.simps)
qed

subsection \<open>Vehicle identification numbers\<close>

text \<open>After index 8, \<open>cdv\<close> is the unit there or the letter that the loop puts in its place.\<close>

lemma vin_loop_after: "8 < i \<Longrightarrow> snd (vin_loop i rs cdv ds) \<in> {cdv, Some 74}"
proof (induction i rs cdv ds rule: vin_loop.induct)
  case (2 i rs cdv d ds)
  have l: "vin_letters ! 8 = 74" by code_simp
  show ?case
  proof (cases "number_unit d")
    case None
    with 2 l show ?thesis by (fastforce simp: Let_def)
  next
    case (Some n)
    with 2 show ?thesis by (simp add: Let_def)
  qed
qed simp

lemma vin_loop_unit: "i \<le> 8 \<Longrightarrow> 8 < i + length ds \<Longrightarrow> snd (vin_loop i rs cdv ds) \<in> {Some (ds ! (8 - i)), Some 74}"
proof (induction i rs cdv ds rule: vin_loop.induct)
  case (2 i rs cdv d ds)
  show ?case
  proof (cases "i = 8")
    case True
    have l: "vin_letters ! 8 = 74" by code_simp
    have "snd (vin_loop 9 rs' cdv' ds) \<in> {cdv', Some 74}" for rs' cdv'
      by (rule vin_loop_after) simp
    with l show ?thesis
      unfolding True by (cases "number_unit d") (fastforce simp: Let_def)+
  next
    case False
    then have n: "(d # ds) ! (8 - i) = ds ! (8 - (i + 1))" using 2(4) by (simp add: nth_Cons')
    show ?thesis
    proof (cases "number_unit d")
      case None
      with 2(1,2) [OF refl refl None refl] 2(4,5) False n show ?thesis by (auto simp: Let_def)
    next
      case (Some k)
      with 2(3) [OF refl refl Some] 2(4,5) False n show ?thesis by (auto simp: Let_def)
    qed
  qed
qed simp

text \<open>
  \<open>vinUS\<close> accepts only numbers whose check unit is \<open>X\<close>: the remainder is a number, the check unit a
  text, and \<open>===\<close> never equates the two, so a number with a check digit is always refused.
\<close>

theorem vinUS_only_X: "vinUS v \<Longrightarrow> length v = 17 \<and> v ! 8 = 88"
  using vin_loop_unit [of 0 v "Num 0" None]
  by (auto simp: vinUS_def split: if_splits prod.splits)

subsection \<open>Social numbers\<close>

lemma nis_sum_NaN: "nis_sum acc None ms = (if ms = [] then acc else None)"
  by (induction ms arbitrary: acc) (simp_all add: nmod_def nmul_def nadd_def split: option.split)

definition is_letter :: "cunit \<Rightarrow> bool" where
  "is_letter c \<longleftrightarrow> 65 \<le> c \<and> c \<le> 90 \<or> 97 \<le> c \<and> c \<le> 122"


lemma is_letter_simps: "is_letter c \<Longrightarrow> \<not> is_digit c" "is_letter c \<Longrightarrow> \<not> is_space c" "is_letter c \<Longrightarrow> c \<noteq> 43" "is_letter c \<Longrightarrow> c \<noteq> 45"
  by (auto simp: is_letter_def is_digit_def is_space_def)

text \<open>The stripped class holds neither letters nor digits.\<close>

lemma strip_special_pattern:
  "literal (slashed ''([~!@#$%^&*()_+='' @ [96] @ slashed ''{}`[`]`-|``:;'' @ [39] @ slashed ''<>,.`/? ])+'')
    = Seq (Rep True (Suc 0) None (Group 1 (Seq (Cls False (units ''~!@#$%^&*()_+='' @ [Range 96 96] @ units ''{}[]-|''
        @ [Range 92 92] @ units '':;'' @ [Range 39 39] @ units ''<>,./? '')) Eps))) Eps"
  by code_simp

lemma strip_special_id: "list_all (\<lambda>c. is_letter c \<or> is_digit c) s \<Longrightarrow> strip_special s = s"
proof -
  assume s: "list_all (\<lambda>c. is_letter c \<or> is_digit c) s"
  let ?its = "units ''~!@#$%^&*()_+='' @ [Range 96 96] @ units ''{}[]-|'' @ [Range 92 92] @ units '':;'' @ [Range 39 39] @ units ''<>,./? ''"
  have none: "\<not> in_cls False False ?its c" if "is_letter c \<or> is_digit c" for c
    using that by (auto simp: in_cls_def units_def is_letter_def is_digit_def)
  have "re_match False (Rep True (Suc 0) None (Group 1 (Seq (Cls False ?its) Eps))) (b, r, []) = []"
    if "suffix r s" for b r
    using that s none by (cases r) (auto simp: re_match_Rep [where lo = "Suc 0"] suffix_def clear_caps_def)
  then show ?thesis
    unfolding strip_special_def strip_special_pattern re_replace_all_Seq_Eps
    unfolding re_replace_all_def by (rule re_replace_from_id)
qed

text \<open>
  \<open>nisBR\<close> accepts ten letters and a zero: \<open>parseInt\<close> answers \<open>NaN\<close>, the sum stays \<open>NaN\<close>, the test
  \<open>dv > 1\<close> fails and the check digit becomes 0.
\<close>

theorem nisBR_letters:
  assumes "length u = 10" "list_all is_letter u"
  shows "nisBR (u @ js ''0'')"
proof -
  have u0: "js ''0'' = [48]" by (simp add: js_simps)
  have "strip_special (u @ [48]) = u @ [48]"
    using assms(2) by (intro strip_special_id) (auto simp: list_all_iff is_digit_def)
  moreover have "parse_int u = None"
  proof -
    obtain a u' where u: "u = a # u'" using assms(1) by (cases u) auto
    then have "is_letter a" using assms(2) by simp
    then show ?thesis by (simp add: u parse_int_def is_letter_simps)
  qed
  moreover have "parse_int [48] = Some 0" by code_simp
  ultimately show ?thesis
    using assms(1) by (simp add: u0 nisBR_def substring_def Let_def nis_sum_NaN nmod_def at_least_def nadd_def nmul_def)
qed

subsection \<open>Postal codes\<close>

lemma ziprange_pattern:
  "whole_text (rx ''^90[2-5]`d`{2`}-`d{4}$'') = Some (Seq (ch 57) (Seq (ch 48) (Seq (Cls False [Range 50 53]) (Seq (Cls False [Digit])
     (Seq (ch 123) (Seq (ch 50) (Seq (ch 125) (Seq (ch 45) (Seq (times 4 (Cls False [Digit])) Eps)))))))))"
  by code_simp

lemma reads_times_cls: "reads_times ic (Cls neg its) n u \<longleftrightarrow> length u = n \<and> list_all (in_cls ic neg its) u"
proof (induction n arbitrary: u)
  case (Suc n)
  have "reads_times ic (Cls neg its) (Suc n) u \<longleftrightarrow>
      (\<exists>c v. u = c # v \<and> in_cls ic neg its c \<and> reads_times ic (Cls neg its) n v)"
    by (auto simp: reads_times_Suc intro: exI [of _ "[_]"])
  with Suc.IH show ?case by (cases u) auto
qed auto

lemma reads_times_exact: "reads ic (times n (Cls neg its)) u \<longleftrightarrow> length u = n \<and> list_all (in_cls ic neg its) u"
  by (auto simp: reads_Rep reads_times_cls)

text \<open>
  \<open>ziprange\<close> escapes the braces of its quantifier, so it accepts no ZIP code but texts with \<open>{2}\<close>
  written in them: \<open>90\<close>, a digit from 2 to 5, a digit, \<open>{2}-\<close> and four digits.
\<close>

theorem ziprange_iff:
  "ziprange False v = Verdict (\<exists>a b ds. v = js ''90'' @ [a, b] @ js ''{2}-'' @ ds \<and> 50 \<le> a \<and> a \<le> 53 \<and> is_digit b
     \<and> length ds = 4 \<and> list_all is_digit ds)"
proof -
  let ?p = "Seq (ch 57) (Seq (ch 48) (Seq (Cls False [Range 50 53]) (Seq (Cls False [Digit])
     (Seq (ch 123) (Seq (ch 50) (Seq (ch 125) (Seq (ch 45) (Seq (times 4 (Cls False [Digit])) Eps))))))))"
  let ?ok = "\<exists>a b ds. v = js ''90'' @ [a, b] @ js ''{2}-'' @ ds \<and> 50 \<le> a \<and> a \<le> 53 \<and> is_digit b
     \<and> length ds = 4 \<and> list_all is_digit ds"
  note simps = reads_seqs reads_times_exact in_cls_digits js_simps
  have "reads False ?p v \<longleftrightarrow> ?ok"
  proof
    assume "reads False ?p v"
    then show ?ok by (simp add: simps del: reads_simps(4)) (elim exE conjE, simp)
  next
    assume ?ok
    then show "reads False ?p v" by (elim exE conjE) (simp add: simps del: reads_simps(4))
  qed
  then show ?thesis
    unfolding ziprange_def optional_or_def using re_test_whole [OF ziprange_pattern, of False v] by simp
qed

subsection \<open>Concrete instances\<close>

theorem creditcard_detects_witness: "creditcard False (js ''4111-1111 1111-1'' @ 50 # js ''11'') = Verdict False"
proof (rule creditcard_detects)
  show "creditcard False (js ''4111-1111 1111-1'' @ 49 # js ''11'') = Verdict True" by code_simp
qed (simp_all add: is_digit_def)

theorem aba_detects_witness: "\<not> abaRoutingNumber ((js ''021000021'')[3 := 55])"
proof (rule aba_detects)
  show "abaRoutingNumber (js ''021000021'')" by code_simp
  show "(55 :: nat) \<noteq> js ''021000021'' ! 3" by code_simp
qed (simp_all add: is_digit_def)

theorem vinUS_only_X_witness: "length (js ''1M8GDM9AXKP042788'') = 17 \<and> js ''1M8GDM9AXKP042788'' ! 8 = 88"
proof (rule vinUS_only_X)
  show "vinUS (js ''1M8GDM9AXKP042788'')" by code_simp
qed

theorem nisBR_letters_witness: "nisBR (js ''abcdefghij'' @ js ''0'')"
proof (rule nisBR_letters)
  show "list_all is_letter (js ''abcdefghij'')" by code_simp
qed simp

end
