(* ===== verification/JsValues.thy ===== *)
theory JsValues
  imports JsPattern JsJson
begin

text \<open>
  The values that form fields and rule parameters hold, their conversion to numbers and the relational
  comparison. A number is a decimal \<open>Fin m p\<close>, \<open>m / 10 ^ p\<close>, compared exactly: decimals that differ only
  beyond the precision of a double are outside the model.
\<close>

subsection \<open>Numbers\<close>

datatype jsnum = Fin int nat | Infinite bool | NaN

text \<open>\<open>Infinite True\<close> is \<open>-Infinity\<close>.\<close>

fun num_le :: "jsnum \<Rightarrow> jsnum \<Rightarrow> bool" where
  "num_le (Fin a p) (Fin b q) = (a * 10 ^ q \<le> b * 10 ^ p)"
| "num_le (Infinite a) (Infinite b) = (a \<or> \<not> b)"
| "num_le (Infinite a) (Fin _ _) = a"
| "num_le (Fin _ _) (Infinite b) = (\<not> b)"
| "num_le NaN _ = False"
| "num_le _ NaN = False"

definition num_lt :: "jsnum \<Rightarrow> jsnum \<Rightarrow> bool" where
  "num_lt x y = (num_le x y \<and> \<not> num_le y x)"

definition radix_value :: "nat \<Rightarrow> jstr \<Rightarrow> jsnum" where
  "radix_value b s =
     (let ds = map hex_value s in
      if s = [] \<or> \<not> list_all (\<lambda>d. case d of None \<Rightarrow> False | Some v \<Rightarrow> v < b) ds then NaN
      else Fin (int (foldl (\<lambda>n d. b * n + the d) 0 ds)) 0)"

text \<open>What follows the mantissa: nothing, or an exponent; \<open>None\<close> for anything else.\<close>

definition exponent :: "jstr \<Rightarrow> int option" where
  "exponent s =
     (case s of
        [] \<Rightarrow> Some 0
      | c # r \<Rightarrow>
          if c = 101 \<or> c = 69 then
            (let (neg, ds) = (case r of d # r' \<Rightarrow> if d = 45 then (True, r') else if d = 43 then (False, r') else (False, r)
                 | [] \<Rightarrow> (False, []))
             in if ds = [] \<or> \<not> list_all is_digit ds then None
                else Some (if neg then - int (dec_value ds) else int (dec_value ds)))
          else None)"

definition scaled :: "int \<Rightarrow> nat \<Rightarrow> int \<Rightarrow> jsnum" where
  "scaled m p e =
     (if e \<le> int p then Fin m (nat (int p - e)) else Fin (m * 10 ^ nat (e - int p)) 0)"

definition unsigned_number :: "jstr \<Rightarrow> jsnum" where
  "unsigned_number s =
     (if s = js ''Infinity'' then Infinite False
      else (let ds = takeWhile is_digit s; r = dropWhile is_digit s;
                (fs, r') = (case r of c # r1 \<Rightarrow> if c = 46 then (takeWhile is_digit r1, dropWhile is_digit r1) else ([], r)
                   | [] \<Rightarrow> ([], []))
            in if ds = [] \<and> fs = [] then NaN
               else (case exponent r' of None \<Rightarrow> NaN | Some e \<Rightarrow> scaled (int (dec_value (ds @ fs))) (length fs) e)))"

definition negated :: "jsnum \<Rightarrow> jsnum" where
  "negated x = (case x of Fin m p \<Rightarrow> Fin (- m) p | Infinite b \<Rightarrow> Infinite (\<not> b) | NaN \<Rightarrow> NaN)"

text \<open>\<open>Number( s )\<close>\<close>

definition js_number :: "jstr \<Rightarrow> jsnum" where
  "js_number s =
     (case js_trim s of
        [] \<Rightarrow> Fin 0 0
      | c # r \<Rightarrow>
          if c = 48 \<and> r \<noteq> [] \<and> hd r \<in> {120, 88} then radix_value 16 (tl r)
          else if c = 48 \<and> r \<noteq> [] \<and> hd r \<in> {111, 79} then radix_value 8 (tl r)
          else if c = 48 \<and> r \<noteq> [] \<and> hd r \<in> {98, 66} then radix_value 2 (tl r)
          else if c = 45 then negated (unsigned_number r)
          else if c = 43 then unsigned_number r
          else unsigned_number (c # r))"

text \<open>\<open>"" + x\<close>: plain digits from \<open>1e-6\<close> up to below \<open>1e21\<close>, otherwise with an exponent.\<close>

function lowest :: "int \<Rightarrow> nat \<Rightarrow> int \<times> nat" where
  "lowest m p = (if p = 0 \<or> m mod 10 \<noteq> 0 then (m, p) else lowest (m div 10) (p - 1))"
  by pat_completeness auto
termination by (relation "measure snd") auto

fun zeros_off :: "jstr \<Rightarrow> jstr" where
  "zeros_off s = (if s \<noteq> [] \<and> last s = 48 then zeros_off (butlast s) else s)"

declare lowest.simps [simp del] zeros_off.simps [simp del]

definition plain_digits :: "nat \<Rightarrow> nat \<Rightarrow> jstr" where
  "plain_digits m p =
     (if p = 0 then js_nat m
      else (let ds = js_nat m; ds = replicate (Suc p - length ds) 48 @ ds; k = length ds - p
            in take k ds @ [46] @ drop k ds))"

definition exponent_digits :: "nat \<Rightarrow> nat \<Rightarrow> jstr" where
  "exponent_digits m p =
     (let ds = js_nat m; e = int (length ds) - 1 - int p; fs = zeros_off (tl ds)
      in hd ds # (if fs = [] then [] else 46 # fs) @ [101] @ (if e < 0 then 45 # js_nat (nat (- e)) else 43 # js_nat (nat e)))"

definition js_num_text :: "jsnum \<Rightarrow> jstr" where
  "js_num_text x =
     (case x of
        NaN \<Rightarrow> js ''NaN''
      | Infinite b \<Rightarrow> (if b then js ''-Infinity'' else js ''Infinity'')
      | Fin m p \<Rightarrow>
          (case lowest m p of
             (m', p') \<Rightarrow>
               (let n = nat \<bar>m'\<bar> in
                (if m' < 0 then [45] else []) @
                (if n = 0 \<or> 10 ^ p' \<le> n * 10 ^ 6 \<and> n < 10 ^ (21 + p') then plain_digits n p' else exponent_digits n p'))))"

subsection \<open>Values\<close>

datatype jsval = VUndef | VNull | VBool bool | VNum jsnum | VText jstr | VMany "jstr list"

definition val_truthy :: "jsval \<Rightarrow> bool" where
  "val_truthy v =
     (case v of VUndef \<Rightarrow> False | VNull \<Rightarrow> False | VBool b \<Rightarrow> b
      | VNum x \<Rightarrow> (case x of Fin m _ \<Rightarrow> m \<noteq> 0 | Infinite _ \<Rightarrow> True | NaN \<Rightarrow> False)
      | VText s \<Rightarrow> s \<noteq> [] | VMany _ \<Rightarrow> True)"

definition val_text :: "jsval \<Rightarrow> jstr" where
  "val_text v =
     (case v of VUndef \<Rightarrow> js ''undefined'' | VNull \<Rightarrow> js ''null'' | VBool b \<Rightarrow> (if b then js ''true'' else js ''false'')
      | VNum x \<Rightarrow> js_num_text x | VText s \<Rightarrow> s | VMany xs \<Rightarrow> js_join (js '','') xs)"

definition to_number :: "jsval \<Rightarrow> jsnum" where
  "to_number v =
     (case v of VUndef \<Rightarrow> NaN | VNull \<Rightarrow> Fin 0 0 | VBool b \<Rightarrow> Fin (if b then 1 else 0) 0
      | VNum x \<Rightarrow> x | VText s \<Rightarrow> js_number s | VMany xs \<Rightarrow> js_number (js_join (js '','') xs))"

fun text_less :: "jstr \<Rightarrow> jstr \<Rightarrow> bool" where
  "text_less s [] = False"
| "text_less [] (d # ds) = True"
| "text_less (c # cs) (d # ds) = (c < d \<or> c = d \<and> text_less cs ds)"

text \<open>\<open>a < b\<close> and \<open>a <= b\<close>: two texts by their units, everything else as numbers. An array is its text.\<close>

definition prim_text :: "jsval \<Rightarrow> jstr option" where
  "prim_text v = (case v of VText s \<Rightarrow> Some s | VMany xs \<Rightarrow> Some (js_join (js '','') xs) | _ \<Rightarrow> None)"

definition js_lt :: "jsval \<Rightarrow> jsval \<Rightarrow> bool" where
  "js_lt a b = (case (prim_text a, prim_text b) of
     (Some s, Some t) \<Rightarrow> text_less s t | _ \<Rightarrow> num_lt (to_number a) (to_number b))"

definition js_le :: "jsval \<Rightarrow> jsval \<Rightarrow> bool" where
  "js_le a b = (case (prim_text a, prim_text b) of
     (Some s, Some t) \<Rightarrow> \<not> text_less t s | _ \<Rightarrow> num_le (to_number a) (to_number b))"

definition count_val :: "nat \<Rightarrow> jsval" where
  "count_val n = VNum (Fin (int n) 0)"

lemma js_le_count [simp]: "js_le (count_val m) (count_val n) \<longleftrightarrow> m \<le> n"
  by (simp add: js_le_def count_val_def prim_text_def to_number_def)

lemma num_le_total: "x \<noteq> NaN \<Longrightarrow> y \<noteq> NaN \<Longrightarrow> num_le x y \<or> num_le y x"
  by (cases x; cases y) auto

lemma num_le_refl: "x \<noteq> NaN \<Longrightarrow> num_le x x"
  by (cases x) auto

end
