(* ===== verification/JsObject.thy ===== *)
theory JsObject
  imports JsValues
begin

text \<open>
  Objects used as dictionaries: association lists in the order in which the keys were created, which is
  the order of \<open>for ... in\<close> for the keys that occur (none is a number). Assigning to a key that exists
  keeps its place. The operator \<open>in\<close> also finds what every object inherits.
\<close>

type_synonym 'a obj = "(jstr \<times> 'a) list"

definition keys :: "'a obj \<Rightarrow> jstr list" where
  "keys ob = map fst ob"

fun put :: "jstr \<Rightarrow> 'a \<Rightarrow> 'a obj \<Rightarrow> 'a obj" where
  "put k v [] = [(k, v)]"
| "put k v ((k', v') # ob) = (if k = k' then (k, v) # ob else (k', v') # put k v ob)"

definition remove :: "jstr \<Rightarrow> 'a obj \<Rightarrow> 'a obj" where
  "remove k ob = filter (\<lambda>(k', _). k' \<noteq> k) ob"

text \<open>\<open>$.extend( a, b )\<close>\<close>

definition extend_obj :: "'a obj \<Rightarrow> 'a obj \<Rightarrow> 'a obj" where
  "extend_obj a b = foldl (\<lambda>ob (k, v). put k v ob) a b"

definition inherited :: "jstr list" where
  "inherited = map js [''constructor'', ''__defineGetter__'', ''__defineSetter__'', ''hasOwnProperty'',
     ''__lookupGetter__'', ''__lookupSetter__'', ''isPrototypeOf'', ''propertyIsEnumerable'', ''toString'',
     ''valueOf'', ''__proto__'', ''toLocaleString'']"

definition has_key :: "jstr \<Rightarrow> 'a obj \<Rightarrow> bool" where
  "has_key k ob = (k \<in> set (keys ob) \<or> k \<in> set inherited)"

lemma keys_simps [simp]: "keys [] = []" "keys (x # ob) = fst x # keys ob"
  by (simp_all add: keys_def)

lemma keys_append [simp]: "keys (a @ b) = keys a @ keys b"
  by (simp add: keys_def)

lemma in_keys: "k \<in> set (keys ob) \<longleftrightarrow> (\<exists>v. (k, v) \<in> set ob)"
  by (induction ob) auto

lemma map_of_None: "map_of ob k = None \<longleftrightarrow> k \<notin> set (keys ob)"
  by (induction ob) auto

lemma map_of_put [simp]: "map_of (put k v ob) = (map_of ob)(k \<mapsto> v)"
  by (induction ob) auto

lemma set_keys_put [simp]: "set (keys (put k v ob)) = insert k (set (keys ob))"
  by (induction k v ob rule: put.induct) (simp_all add: insert_commute)

lemma distinct_put: "distinct (keys ob) \<Longrightarrow> distinct (keys (put k v ob))"
  by (induction ob) auto

lemma put_new: "k \<notin> set (keys ob) \<Longrightarrow> put k v ob = ob @ [(k, v)]"
  by (induction ob) auto

lemma length_put: "length (put k v ob) = (if k \<in> set (keys ob) then length ob else Suc (length ob))"
  by (induction ob) auto

lemma set_keys_remove [simp]: "set (keys (remove k ob)) = set (keys ob) - {k}"
proof (induction ob)
  case (Cons x ob)
  then show ?case by (cases "fst x = k") (simp_all add: remove_def split_beta insert_Diff_if)
qed (simp add: remove_def)

lemma distinct_remove: "distinct (keys ob) \<Longrightarrow> distinct (keys (remove k ob))"
  by (induction ob) (auto simp: remove_def in_keys)

lemma remove_absent: "k \<notin> set (keys ob) \<Longrightarrow> remove k ob = ob"
  by (auto simp: remove_def in_keys intro!: filter_True)

lemma length_remove: "distinct (keys ob) \<Longrightarrow> k \<in> set (keys ob) \<Longrightarrow> Suc (length (remove k ob)) = length ob"
proof (induction ob)
  case (Cons x ob)
  then show ?case
    by (cases "fst x = k") (auto simp: remove_absent [unfolded remove_def] remove_def)
qed simp

lemma map_of_remove: "map_of (remove k ob) k' = (if k' = k then None else map_of ob k')"
  by (induction ob) (auto simp: remove_def)

lemma extend_Nil [simp]: "extend_obj a [] = a"
  by (simp add: extend_obj_def)

lemma extend_Cons [simp]: "extend_obj a ((k, v) # b) = extend_obj (put k v a) b"
  by (simp add: extend_obj_def)

lemma map_of_extend: "distinct (keys b) \<Longrightarrow> map_of (extend_obj a b) k = (case map_of b k of None \<Rightarrow> map_of a k | Some v \<Rightarrow> Some v)"
proof (induction b arbitrary: a)
  case (Cons x b)
  obtain k' v' where x: "x = (k', v')" by (cases x)
  from Cons.prems x have k': "map_of b k' = None" and d: "distinct (keys b)" by (auto simp: map_of_None)
  have IH: "map_of (extend_obj (put k' v' a) b) k = (case map_of b k of None \<Rightarrow> map_of (put k' v' a) k | Some w \<Rightarrow> Some w)"
    by (rule Cons.IH [OF d])
  show ?case
  proof (cases "k' = k")
    case True
    with IH k' show ?thesis by (simp add: x)
  next
    case False
    with IH show ?thesis by (cases "map_of b k") (simp_all add: x)
  qed
qed simp

lemma set_keys_extend [simp]: "set (keys (extend_obj a b)) = set (keys a) \<union> set (keys b)"
proof (induction b arbitrary: a)
  case (Cons x b)
  then show ?case by (cases x) auto
qed simp

lemma distinct_extend: "distinct (keys a) \<Longrightarrow> distinct (keys (extend_obj a b))"
proof (induction b arbitrary: a)
  case (Cons x b)
  then show ?case by (cases x) (simp add: distinct_put)
qed simp

end
