(* ===== verification/ValidateFields.thy ===== *)
theory ValidateFields
  imports ValidateChecks JsValues
begin

text \<open>
  The fields of a form as the validation plugin sees them, what it reads from them
  (\<open>lib/jquery-validation/dist/jquery.validate.js\<close>), its built-in methods, and the methods of
  \<open>additional-methods.js\<close> that look at more than the text of one field. A form is the list of its
  elements in document order.
\<close>

record upload =
  up_type :: jstr
  up_size :: nat

text \<open>
  \<open>el_val\<close> is \<open>$( element ).val()\<close>, \<open>el_chosen\<close> the number of selected options, \<open>el_text\<close> the text of a
  content-editable element, \<open>el_bad\<close> the flag \<open>validity.badInput\<close> where there is a \<open>validity\<close>. \<open>el_skip\<close>:
  it is a submit, reset or image button or disabled; \<open>el_ignored\<close>: it matches the setting \<open>ignore\<close>;
  \<open>el_own\<close>: its form is the validated one.
\<close>

record input =
  el_name :: jstr
  el_id :: jstr
  el_node :: jstr
  el_type :: jstr
  el_attr_type :: "jstr option"
  el_val :: jsval
  el_checked :: bool
  el_chosen :: nat
  el_text :: "jstr option"
  el_bad :: "bool option"
  el_files :: "upload list option"
  el_skip :: bool
  el_ignored :: bool
  el_own :: bool

subsection \<open>Reading a field\<close>

definition trim :: "jstr \<Rightarrow> jstr" where
  "trim s = re_replace_all False (rx ''^[`s`uFEFF`xA0]+|[`s`uFEFF`xA0]+$'') (by_text []) s"

definition blankSelector :: "input \<Rightarrow> bool" where
  "blankSelector el = (trim (val_text (el_val el)) = [])"

definition filledSelector :: "input \<Rightarrow> bool" where
  "filledSelector el = (el_val el \<noteq> VNull \<and> trim (val_text (el_val el)) \<noteq> [])"

definition uncheckedSelector :: "input \<Rightarrow> bool" where
  "uncheckedSelector el = (\<not> el_checked el)"

definition checkable :: "input \<Rightarrow> bool" where
  "checkable el = re_test True (rx ''radio|checkbox'') (el_type el)"

definition findByName :: "input list \<Rightarrow> jstr \<Rightarrow> input list" where
  "findByName form n = filter (\<lambda>el. el_name el = n) form"

definition escapeCssMeta :: "jstr \<Rightarrow> jstr" where
  "escapeCssMeta s = re_replace_all False
     (literal (slashed ''([``!\"#$%&'' @ [39] @ slashed ''()*+,./:;<=>?@`[`]^'' @ [96] @ slashed ''{|}~])''))
     (\<lambda>m cs. 92 # by_group 1 m cs) s"

text \<open>\<open>s.lastIndexOf( c )\<close> as the number of units up to and with it.\<close>

definition after_last :: "cunit \<Rightarrow> jstr \<Rightarrow> jstr option" where
  "after_last c s = (if c \<in> set s then Some (rev (takeWhile (\<lambda>d. d \<noteq> c) (rev s))) else None)"

definition elementValue :: "input list \<Rightarrow> input \<Rightarrow> jsval" where
  "elementValue form el =
     (if el_type el = js ''radio'' \<or> el_type el = js ''checkbox''
      then (case filter el_checked (findByName form (el_name el)) of [] \<Rightarrow> VUndef | c # _ \<Rightarrow> el_val c)
      else if el_type el = js ''number'' \<and> el_bad el \<noteq> None
      then (if el_bad el = Some True then VText (js ''NaN'') else el_val el)
      else
        (let val = (case el_text el of Some t \<Rightarrow> VText t | None \<Rightarrow> el_val el) in
         case val of
           VText s \<Rightarrow>
             if el_type el = js ''file'' then
               (if substring s 0 12 = slashed ''C:`fakepath`'' then VText (drop 12 s)
                else (case after_last 47 s of
                        Some t \<Rightarrow> VText t
                      | None \<Rightarrow> (case after_last 92 s of Some t \<Rightarrow> VText t | None \<Rightarrow> VText s)))
             else VText (filter (\<lambda>c. c \<noteq> 13) s)
         | _ \<Rightarrow> val))"

text \<open>\<open>value.length\<close>; reading it of \<open>null\<close> or \<open>undefined\<close> throws.\<close>

definition val_length :: "jsval \<Rightarrow> jsval result" where
  "val_length v =
     (case v of VUndef \<Rightarrow> Inl TypeError | VNull \<Rightarrow> Inl TypeError | VText s \<Rightarrow> Inr (count_val (length s))
      | VMany xs \<Rightarrow> Inr (count_val (length xs)) | _ \<Rightarrow> Inr VUndef)"

definition getLength :: "input list \<Rightarrow> jsval \<Rightarrow> input \<Rightarrow> jsval result" where
  "getLength form v el =
     (if js_lower (el_node el) = js ''select'' then Inr (count_val (el_chosen el))
      else if js_lower (el_node el) = js ''input'' \<and> checkable el
      then Inr (count_val (length (filter el_checked (findByName form (el_name el)))))
      else val_length v)"

text \<open>
  A parameter of \<open>required\<close>: a flag, a selector with the number of elements it selects, a function with
  its answer, or anything else.
\<close>

datatype dependency = Flag bool | Selects nat | Answers jsval | Always

definition depend :: "dependency \<Rightarrow> bool" where
  "depend param =
     (case param of Flag b \<Rightarrow> b | Selects n \<Rightarrow> n \<noteq> 0 | Answers v \<Rightarrow> val_truthy v | Always \<Rightarrow> True)"

definition required :: "input list \<Rightarrow> jsval \<Rightarrow> input \<Rightarrow> dependency \<Rightarrow> verdict result" where
  "required form v el param =
     (if \<not> depend param then Inr Mismatch
      else if js_lower (el_node el) = js ''select''
      then (if val_truthy (el_val el)
            then rbind (val_length (el_val el)) (\<lambda>n. Inr (Verdict (js_lt (count_val 0) n)))
            else Inr (Verdict False))
      else if checkable el
      then rbind (getLength form v el) (\<lambda>n. Inr (Verdict (js_lt (count_val 0) n)))
      else if v = VUndef \<or> v = VNull then Inr (Verdict False)
      else rbind (val_length v) (\<lambda>n. Inr (Verdict (js_lt (count_val 0) n))))"

text \<open>\<open>this.optional( element )\<close>: no value where the parameter is absent.\<close>

definition optional_of :: "input list \<Rightarrow> input \<Rightarrow> bool result" where
  "optional_of form el =
     rbind (required form (elementValue form el) el Always) (\<lambda>r. Inr (r = Verdict False))"

text \<open>\<open>this.optional( element ) || e\<close> with an \<open>e\<close> that may throw.\<close>

definition optional_orelse :: "input list \<Rightarrow> input \<Rightarrow> bool result \<Rightarrow> verdict result" where
  "optional_orelse form el e =
     rbind (optional_of form el) (\<lambda>opt. if opt then Inr Mismatch else rbind e (\<lambda>b. Inr (Verdict b)))"

subsection \<open>The built-in methods\<close>

definition email :: "bool \<Rightarrow> jstr \<Rightarrow> verdict" where
  "email optional v = optional_or optional (re_test False
     (literal (slashed ''^[a-zA-Z0-9.!#$%&'' @ [39] @ slashed ''*+`/=?^_'' @ [96] @ slashed ''{|}~-]+@[a-zA-Z0-9](?:[a-zA-Z0-9-]{0,61}[a-zA-Z0-9])?(?:`.[a-zA-Z0-9](?:[a-zA-Z0-9-]{0,61}[a-zA-Z0-9])?)*$'')) v)"

definition url_pattern :: jstr where
  "url_pattern =
     slashed ''^(?:(?:(?:https?|ftp):)?`/`/)(?:(?:'' @ url_user_class @ slashed ''|%[0-9A-Fa-f]{2})+(?::(?:'' @
     url_user_class @ slashed ''|%[0-9A-Fa-f]{2})*)?@)?'' @
     slashed ''(?:(?!(?:10|127)(?:`.`d{1,3}){3})(?!(?:169`.254|192`.168)(?:`.`d{1,3}){2})(?!172`.(?:1[6-9]|2`d|3[0-1])(?:`.`d{1,3}){2})'' @
     slashed ''(?:[1-9]`d?|1`d`d|2[01]`d|22[0-3])(?:`.(?:1?`d{1,2}|2[0-4]`d|25[0-5])){2}(?:`.(?:[1-9]`d?|1`d`d|2[0-4]`d|25[0-4]))'' @
     slashed ''|(?:(?:[a-z0-9`u00a1-`uffff][a-z0-9`u00a1-`uffff_-]{0,62})?[a-z0-9`u00a1-`uffff]`.)+(?:[a-z`u00a1-`uffff]{2,}`.?))(?::`d{2,5})?(?:[/?#]`S*)?$''"

definition url :: "bool \<Rightarrow> jstr \<Rightarrow> verdict" where
  "url optional v = optional_or optional (re_test True (literal url_pattern) v)"

text \<open>\<open>date\<close>: \<open>date_text\<close> is \<open>new Date( value ).toString()\<close>.\<close>

definition dateMethod :: "bool \<Rightarrow> jstr \<Rightarrow> verdict" where
  "dateMethod optional date_text = optional_or optional (\<not> re_test False (rx ''Invalid|NaN'') date_text)"

definition dateISO :: "bool \<Rightarrow> jstr \<Rightarrow> verdict" where
  "dateISO optional v = optional_or optional
     (re_test False (rx ''^`d{4}[`/`-](0?[1-9]|1[012])[`/`-](0?[1-9]|[12][0-9]|3[01])$'') v)"

definition numberMethod :: "bool \<Rightarrow> jstr \<Rightarrow> verdict" where
  "numberMethod optional v = optional_or optional
     (re_test False (rx ''^(?:-?`d+|-?`d{1,3}(?:,`d{3})+)?(?:`.`d+)?$'') v)"

definition digitsMethod :: "bool \<Rightarrow> jstr \<Rightarrow> verdict" where
  "digitsMethod optional v = optional_or optional (re_test False (rx ''^`d+$'') v)"

definition measured :: "input list \<Rightarrow> jsval \<Rightarrow> input \<Rightarrow> jsval result" where
  "measured form v el = (case v of VMany xs \<Rightarrow> Inr (count_val (length xs)) | _ \<Rightarrow> getLength form v el)"

definition minlength :: "input list \<Rightarrow> jsval \<Rightarrow> input \<Rightarrow> jsval \<Rightarrow> verdict result" where
  "minlength form v el param =
     rbind (measured form v el) (\<lambda>n. optional_orelse form el (Inr (js_le param n)))"

definition maxlength :: "input list \<Rightarrow> jsval \<Rightarrow> input \<Rightarrow> jsval \<Rightarrow> verdict result" where
  "maxlength form v el param =
     rbind (measured form v el) (\<lambda>n. optional_orelse form el (Inr (js_le n param)))"

definition rangelength :: "input list \<Rightarrow> jsval \<Rightarrow> input \<Rightarrow> jsval \<times> jsval \<Rightarrow> verdict result" where
  "rangelength form v el param =
     rbind (measured form v el) (\<lambda>n. optional_orelse form el (Inr (js_le (fst param) n \<and> js_le n (snd param))))"

definition minMethod :: "bool \<Rightarrow> jsval \<Rightarrow> jsval \<Rightarrow> verdict" where
  "minMethod optional v param = optional_or optional (js_le param v)"

definition maxMethod :: "bool \<Rightarrow> jsval \<Rightarrow> jsval \<Rightarrow> verdict" where
  "maxMethod optional v param = optional_or optional (js_le v param)"

definition rangeMethod :: "bool \<Rightarrow> jsval \<Rightarrow> jsval \<times> jsval \<Rightarrow> verdict" where
  "rangeMethod optional v param = optional_or optional (js_le (fst param) v \<and> js_le v (snd param))"

text \<open>The decimal places of a text, and \<open>Math.round( num * 10 ^ decimals )\<close>, \<open>None\<close> for \<open>NaN\<close> and infinities.\<close>

definition decimalPlaces :: "jsval \<Rightarrow> nat" where
  "decimalPlaces num =
     (case re_exec False (rx ''(?:`.(`d+))?$'') (val_text num) of
        None \<Rightarrow> 0
      | Some cs \<Rightarrow> (case cap cs 1 of None \<Rightarrow> 0 | Some ds \<Rightarrow> length ds))"

definition toInt :: "nat \<Rightarrow> jsval \<Rightarrow> int option" where
  "toInt decimals num =
     (case to_number num of Fin m p \<Rightarrow> Some ((2 * m * 10 ^ decimals + 10 ^ p) div (2 * 10 ^ p)) | _ \<Rightarrow> None)"

text \<open>
  \<open>step\<close>, for a step that is a finite number: a type that does not support steps throws. The types
  tried are those of \<open>[ "text", "number", "range" ]\<close> joined by commas.
\<close>

definition stepMethod :: "bool \<Rightarrow> jsval \<Rightarrow> jstr option \<Rightarrow> jsval \<Rightarrow> verdict result" where
  "stepMethod optional v type param =
     (case parse_pattern (slashed ''`b'' @ (case type of None \<Rightarrow> js ''undefined'' | Some t \<Rightarrow> t) @ slashed ''`b'') of
        None \<Rightarrow> Inl (Error (js ''SyntaxError''))
      | Some re \<Rightarrow>
          if (case type of None \<Rightarrow> False | Some t \<Rightarrow> t \<noteq> [] \<and> \<not> re_test False re (js ''text,number,range''))
          then Inl (Error (js ''Step attribute on input type '' @ the type @ js '' is not supported.''))
          else
            (let decimals = decimalPlaces param;
                 valid = (\<not> (decimalPlaces v > decimals
                   \<or> (case (toInt decimals v, toInt decimals param) of
                        (Some a, Some b) \<Rightarrow> b = 0 \<or> a mod b \<noteq> 0
                      | _ \<Rightarrow> True)))
             in Inr (optional_or optional valid)))"

subsection \<open>Comparison with another field\<close>

text \<open>\<open>a === b\<close>; two arrays are two objects.\<close>

definition strict_eq :: "jsval \<Rightarrow> jsval \<Rightarrow> bool" where
  "strict_eq a b =
     (case (a, b) of
        (VMany _, _) \<Rightarrow> False
      | (VNum x, VNum y) \<Rightarrow> num_le x y \<and> num_le y x
      | _ \<Rightarrow> a = b)"

text \<open>
  The method marks its targets with a class of its own and gives them a handler that validates the
  element again when the target loses the focus, unless every target is marked. Targets and elements are
  positions in the form.
\<close>

datatype comparison = EqualTo | GreaterThan | GreaterThanEqual | LessThan | LessThanEqual

record blur_state =
  marked :: "(comparison \<times> nat) list"
  on_blur :: "(comparison \<times> nat \<times> nat) list"

definition bind_blur :: "comparison \<Rightarrow> bool \<Rightarrow> nat list \<Rightarrow> nat \<Rightarrow> blur_state \<Rightarrow> blur_state" where
  "bind_blur kind onfocusout targets e s =
     (if onfocusout \<and> filter (\<lambda>t. (kind, t) \<notin> set (marked s)) targets \<noteq> []
      then s\<lparr>marked := marked s @ map (\<lambda>t. (kind, t)) targets,
             on_blur := on_blur s @ map (\<lambda>t. (kind, t, e)) targets\<rparr>
      else s)"

definition target_val :: "input list \<Rightarrow> nat list \<Rightarrow> jsval" where
  "target_val form targets =
     (case targets of [] \<Rightarrow> VUndef | t # _ \<Rightarrow> if t < length form then el_val (form ! t) else VUndef)"

definition equalTo :: "input list \<Rightarrow> bool \<Rightarrow> nat list \<Rightarrow> nat \<Rightarrow> jsval \<Rightarrow> blur_state \<Rightarrow> bool \<times> blur_state" where
  "equalTo form onfocusout targets e v s =
     (strict_eq v (target_val form targets), bind_blur EqualTo onfocusout targets e s)"

definition notEqualTo :: "input list \<Rightarrow> bool \<Rightarrow> nat list \<Rightarrow> nat \<Rightarrow> jsval \<Rightarrow> blur_state \<Rightarrow> (verdict \<times> blur_state) result" where
  "notEqualTo form onfocusout targets e v s =
     rbind (optional_of form (form ! e)) (\<lambda>opt.
       if opt then Inr (Mismatch, s)
       else (case equalTo form onfocusout targets e v s of (b, s') \<Rightarrow> Inr (Verdict (\<not> b), s')))"

definition greaterThan :: "input list \<Rightarrow> bool \<Rightarrow> nat list \<Rightarrow> nat \<Rightarrow> jsval \<Rightarrow> blur_state \<Rightarrow> bool \<times> blur_state" where
  "greaterThan form onfocusout targets e v s =
     (js_lt (target_val form targets) v, bind_blur GreaterThan onfocusout targets e s)"

definition greaterThanEqual :: "input list \<Rightarrow> bool \<Rightarrow> nat list \<Rightarrow> nat \<Rightarrow> jsval \<Rightarrow> blur_state \<Rightarrow> bool \<times> blur_state" where
  "greaterThanEqual form onfocusout targets e v s =
     (js_le (target_val form targets) v, bind_blur GreaterThanEqual onfocusout targets e s)"

definition lessThan :: "input list \<Rightarrow> bool \<Rightarrow> nat list \<Rightarrow> nat \<Rightarrow> jsval \<Rightarrow> blur_state \<Rightarrow> bool \<times> blur_state" where
  "lessThan form onfocusout targets e v s =
     (js_lt v (target_val form targets), bind_blur LessThan onfocusout targets e s)"

definition lessThanEqual :: "input list \<Rightarrow> bool \<Rightarrow> nat list \<Rightarrow> nat \<Rightarrow> jsval \<Rightarrow> blur_state \<Rightarrow> bool \<times> blur_state" where
  "lessThanEqual form onfocusout targets e v s =
     (js_le v (target_val form targets), bind_blur LessThanEqual onfocusout targets e s)"

subsection \<open>Words\<close>

definition stripHtml :: "jstr \<Rightarrow> jstr" where
  "stripHtml s =
     re_replace_all False (literal (slashed ''[.(),;:!?%#$'' @ [39] @ slashed ''`\"_+=`/`-'' @ [0x201C, 0x201D, 0x2019] @ slashed '']*'')) (by_text [])
       (re_replace_all True (rx ''&nbsp;|&#160;'') (by_text (js '' ''))
         (re_replace_all False (rx ''<.[^<>]*?>'') (by_text (js '' '')) s))"

text \<open>\<open>match( /\b\w+\b/g ).length\<close>: without a word \<open>match\<close> answers \<open>null\<close> and reading its length throws.\<close>

definition word_count :: "jstr \<Rightarrow> jsval result" where
  "word_count s = (case re_match_all False (rx ''`b`w+`b'') s of [] \<Rightarrow> Inl TypeError | ws \<Rightarrow> Inr (count_val (length ws)))"

definition maxWords :: "bool \<Rightarrow> jstr \<Rightarrow> jsval \<Rightarrow> verdict result" where
  "maxWords optional v params =
     (if optional then Inr Mismatch else rbind (word_count (stripHtml v)) (\<lambda>n. Inr (Verdict (js_le n params))))"

definition minWords :: "bool \<Rightarrow> jstr \<Rightarrow> jsval \<Rightarrow> verdict result" where
  "minWords optional v params =
     (if optional then Inr Mismatch else rbind (word_count (stripHtml v)) (\<lambda>n. Inr (Verdict (js_le params n))))"

definition rangeWords :: "bool \<Rightarrow> jstr \<Rightarrow> jsval \<times> jsval \<Rightarrow> verdict result" where
  "rangeWords optional v params =
     (let valueStripped = stripHtml v in
      if optional then Inr Mismatch
      else rbind (word_count valueStripped) (\<lambda>n.
        if js_le (fst params) n then rbind (word_count valueStripped) (\<lambda>n'. Inr (Verdict (js_le n' (snd params))))
        else Inr (Verdict False)))"

subsection \<open>Files\<close>

text \<open>The parameter is a text or not (\<open>None\<close>); a list that makes no pattern is a \<open>SyntaxError\<close>.\<close>

definition accept_pattern :: "jstr option \<Rightarrow> jstr" where
  "accept_pattern param =
     (let typeParam = (case param of Some s \<Rightarrow> re_replace_all False (rx ''`s'') (by_text []) s | None \<Rightarrow> js ''image/*'')
      in re_replace_all False (rx ''`/`*'') (by_text (js ''/.*''))
          (re_replace_all False (rx '','') (by_text (js ''|''))
            (re_replace_all False (rx ''[`-`[`]`/`{`}`(`)`+`?`.``^`$`|]'') (\<lambda>m cs. 92 # m) typeParam)))"

definition accept :: "bool \<Rightarrow> input \<Rightarrow> jstr option \<Rightarrow> verdict result" where
  "accept optional el param =
     (if optional then Inr Mismatch
      else if el_attr_type el = Some (js ''file'')
      then (case el_files el of
              None \<Rightarrow> Inr (Verdict True)
            | Some fs \<Rightarrow>
                if fs = [] then Inr (Verdict True)
                else (case parse_pattern (js ''.?('' @ accept_pattern param @ js '')$'') of
                        None \<Rightarrow> Inl (Error (js ''SyntaxError''))
                      | Some regex \<Rightarrow> Inr (Verdict (list_all (\<lambda>u. re_test True regex (up_type u)) fs))))
      else Inr (Verdict True))"

definition maxfiles :: "bool \<Rightarrow> input \<Rightarrow> jsval \<Rightarrow> bool" where
  "maxfiles optional el param =
     (if optional then True
      else if el_attr_type el = Some (js ''file'')
      then (case el_files el of None \<Rightarrow> True | Some fs \<Rightarrow> \<not> js_lt param (count_val (length fs)))
      else True)"

fun each_size :: "jsval \<Rightarrow> upload list \<Rightarrow> bool" where
  "each_size param [] = True"
| "each_size param (u # us) = (if js_lt param (count_val (up_size u)) then False else each_size param us)"

definition maxsize :: "bool \<Rightarrow> input \<Rightarrow> jsval \<Rightarrow> bool" where
  "maxsize optional el param =
     (if optional then True
      else if el_attr_type el = Some (js ''file'')
      then (case el_files el of None \<Rightarrow> True | Some fs \<Rightarrow> each_size param fs)
      else True)"

fun total_size :: "jsval \<Rightarrow> nat \<Rightarrow> upload list \<Rightarrow> bool" where
  "total_size param totalSize [] = True"
| "total_size param totalSize (u # us) =
     (let totalSize = totalSize + up_size u in
      if js_lt param (count_val totalSize) then False else total_size param totalSize us)"

definition maxsizetotal :: "bool \<Rightarrow> input \<Rightarrow> jsval \<Rightarrow> bool" where
  "maxsizetotal optional el param =
     (if optional then True
      else if el_attr_type el = Some (js ''file'')
      then (case el_files el of None \<Rightarrow> True | Some fs \<Rightarrow> total_size param 0 fs)
      else True)"

subsection \<open>Italian dates\<close>

text \<open>
  \<open>new Date( Date.UTC( y, m, d, 12 ) )\<close> read back: months count from 0, a year below 100 counts from
  1900, and months and days beyond the calendar roll over.
\<close>

definition leap_year :: "int \<Rightarrow> bool" where
  "leap_year y = (4 dvd y \<and> (\<not> 100 dvd y \<or> 400 dvd y))"

definition month_days :: "int \<Rightarrow> nat \<Rightarrow> nat" where
  "month_days y m = (if m = 1 then (if leap_year y then 29 else 28) else if m \<in> {3, 5, 8, 10} then 30 else 31)"

function roll_days :: "int \<Rightarrow> nat \<Rightarrow> nat \<Rightarrow> int \<times> nat \<times> nat" where
  "roll_days y m d =
     (if month_days y m < d
      then (if m = 11 then roll_days (y + 1) 0 (d - month_days y m) else roll_days y (m + 1) (d - month_days y m))
      else (y, m, d))"
  by pat_completeness auto
termination
  by (relation "measure (\<lambda>(y, m, d). d)") (auto simp: month_days_def)

declare roll_days.simps [simp del]

definition utc_date :: "int \<Rightarrow> int \<Rightarrow> nat \<Rightarrow> int \<times> nat \<times> nat" where
  "utc_date y m d =
     (let y' = (if 0 \<le> y \<and> y \<le> 99 then 1900 + y else y) + m div 12; m' = nat (m mod 12) in
      if d = 0 then (if m' = 0 then (y' - 1, 11, 31) else (y', m' - 1, month_days y' (m' - 1)))
      else roll_days y' m' d)"

definition dateITA :: "bool \<Rightarrow> jstr \<Rightarrow> verdict" where
  "dateITA optional v =
     (let check =
        (if re_test False (rx ''^`d{1,2}`/`d{1,2}`/`d{4}$'') v
         then (case js_split 47 v of
                 [g, m, a] \<Rightarrow>
                   (case (parse_int g, parse_int m, parse_int a) of
                      (Some gg, Some mm, Some aaaa) \<Rightarrow> utc_date aaaa (mm - 1) (nat gg) = (aaaa, nat (mm - 1), nat gg) \<and> 1 \<le> mm
                    | _ \<Rightarrow> False)
               | _ \<Rightarrow> False)
         else False)
      in optional_or optional check)"

subsection \<open>Messages\<close>

text \<open>\<open>$.validator.format\<close> with its parameters as an array: \<open>{i}\<close> becomes the \<open>i\<close>-th, one after the other.\<close>

fun format_from :: "nat \<Rightarrow> jstr \<Rightarrow> jstr list \<Rightarrow> jstr" where
  "format_from i source [] = source"
| "format_from i source (n # params) =
     format_from (Suc i) (re_replace_all False (lit (123 # js_nat i @ [125])) (by_text n) source) params"

definition format_message :: "jstr \<Rightarrow> jstr list \<Rightarrow> jstr" where
  "format_message source params = format_from 0 source params"

end
