(* ===== verification/ValidatorRules.thy ===== *)
theory ValidatorRules
  imports JsObject ValidateFields
begin

text \<open>
  Which rules an element has: \<open>classRules\<close>, \<open>attributeRules\<close>, \<open>dataRules\<close> and \<open>staticRules\<close> of
  \<open>jquery.validate.js\<close>, their normalisation, and \<open>$( element ).rules()\<close>. What jQuery answers about the
  element (its attributes and data, the number of elements a selector finds) is a record.
\<close>

subsection \<open>Parameters\<close>

text \<open>A parameter ready for a method: a plain value, an array, another object with its plain properties, a field of the form, or a function.\<close>

datatype rule_param = P jsval | PList "jsval list" | PObject "jsval obj" | PField nat | PFun

text \<open>What a comparison makes of a parameter; an array counts as its joined text.\<close>

definition param_val :: "rule_param \<Rightarrow> jsval" where
  "param_val p =
     (case p of P v \<Rightarrow> v | PList vs \<Rightarrow> VMany (map val_text vs) | _ \<Rightarrow> VText (js ''[object Object]''))"

definition param_truthy :: "rule_param \<Rightarrow> bool" where
  "param_truthy p = (case p of P v \<Rightarrow> val_truthy v | _ \<Rightarrow> True)"

text \<open>
  A parameter as it is written: \<open>Conditional\<close> is an object with \<open>param\<close> (\<open>None\<close> when undefined) and
  \<open>depends\<close>, which is a selector with the number of elements it finds, a function with the truth of its
  answer, something else, or absent; \<open>Evaluated\<close> is a function with its answer for the element.
\<close>

datatype depends = OnSelector nat | OnAnswer bool | OnOther | NoDepends

datatype raw_param = Raw rule_param | Conditional "rule_param option" depends | Evaluated rule_param

type_synonym raw_rules = "raw_param obj"
type_synonym rules = "rule_param obj"

text \<open>Rules are written as an object or as a text of names.\<close>

datatype rule_spec = Names jstr | Rules raw_rules

definition js_split_space :: "jstr \<Rightarrow> jstr list" where
  "js_split_space s = js_split 32 (map (\<lambda>c. if is_space c then 32 else c) s)"

definition normalizeRule :: "rule_spec \<Rightarrow> raw_rules" where
  "normalizeRule spec =
     (case spec of
        Names s \<Rightarrow> foldl (\<lambda>ob k. put k (Raw (P (VBool True))) ob) [] (js_split_space s)
      | Rules rs \<Rightarrow> rs)"

subsection \<open>The four sources\<close>

record element_data =
  class_attr :: "jstr option"
  type_attr :: "jstr option"
  attr_of :: "jstr \<Rightarrow> jstr option"
  data_of :: "jstr \<Rightarrow> jsval"

definition classRuleSettings :: "raw_rules obj" where
  "classRuleSettings = map (\<lambda>k. (js k, [(js k, Raw (P (VBool True)))]))
     [''required'', ''email'', ''url'', ''date'', ''dateISO'', ''number'', ''digits'', ''creditcard'']"

definition addClassRules :: "raw_rules obj \<Rightarrow> jstr \<Rightarrow> raw_rules \<Rightarrow> raw_rules obj" where
  "addClassRules settings className rules = put className rules settings"

text \<open>\<open>addMethod\<close>: names of methods in order, messages, and a class rule for a method of fewer than three arguments.\<close>

definition addMethod :: "jstr list \<times> 'm obj \<times> raw_rules obj \<Rightarrow> jstr \<Rightarrow> nat \<Rightarrow> 'm option \<Rightarrow> jstr list \<times> 'm obj \<times> raw_rules obj" where
  "addMethod registry name arity message =
     (case registry of (methods, messages, settings) \<Rightarrow>
        (if name \<in> set methods then methods else methods @ [name],
         case message of Some m \<Rightarrow> put name m messages | None \<Rightarrow> messages,
         if arity < 3 then addClassRules settings name (normalizeRule (Names name)) else settings))"

definition classRules :: "raw_rules obj \<Rightarrow> element_data \<Rightarrow> raw_rules" where
  "classRules settings el =
     (case class_attr el of
        None \<Rightarrow> []
      | Some classes \<Rightarrow>
          if classes = [] then []
          else foldl (\<lambda>rs c. case map_of settings c of None \<Rightarrow> rs | Some r \<Rightarrow> extend_obj rs r) [] (js_split 32 classes))"

definition normalizeAttributeRule :: "raw_rules \<Rightarrow> jstr option \<Rightarrow> jstr \<Rightarrow> jsval \<Rightarrow> raw_rules" where
  "normalizeAttributeRule rules type method v0 =
     (let v =
        (if re_test False (rx ''min|max|step'') method
            \<and> (case type of None \<Rightarrow> True | Some t \<Rightarrow> re_test False (rx ''number|range|text'') t)
         then (case to_number v0 of NaN \<Rightarrow> VUndef | x \<Rightarrow> VNum x)
         else v0)
      in if val_truthy v \<or> (case v of VNum (Fin m _) \<Rightarrow> m = 0 | _ \<Rightarrow> False) then put method (Raw (P v)) rules
         else if type = Some method \<and> type \<noteq> Some (js ''range'')
         then put (if type = Some (js ''date'') then js ''dateISO'' else method) (Raw (P (VBool True))) rules
         else rules)"

definition attributeRules :: "jstr list \<Rightarrow> element_data \<Rightarrow> raw_rules" where
  "attributeRules methods el =
     (let rules = foldl (\<lambda>rs m.
          normalizeAttributeRule rs (type_attr el) m
            (if m = js ''required'' then VBool (attr_of el m \<noteq> None)
             else (case attr_of el m of None \<Rightarrow> VUndef | Some s \<Rightarrow> VText s))) [] methods
      in case map_of rules (js ''maxlength'') of
           Some (Raw (P v)) \<Rightarrow>
             if val_truthy v \<and> re_test False (rx ''-1|2147483647|524288'') (val_text v)
             then remove (js ''maxlength'') rules else rules
         | _ \<Rightarrow> rules)"

definition dataRules :: "jstr list \<Rightarrow> element_data \<Rightarrow> raw_rules" where
  "dataRules methods el =
     foldl (\<lambda>rs m.
       let v = data_of el (js ''rule'' @ js_upper (take 1 m) @ js_lower (drop 1 m)) in
       normalizeAttributeRule rs (type_attr el) m (if v = VText [] then VBool True else v)) [] methods"

definition staticRules :: "rule_spec obj \<Rightarrow> jstr \<Rightarrow> raw_rules" where
  "staticRules settings_rules n =
     (case map_of settings_rules n of None \<Rightarrow> [] | Some spec \<Rightarrow> normalizeRule spec)"

subsection \<open>Normalisation\<close>

text \<open>
  The dependency check. A rule whose condition fails is dropped and the element's highlighting reset;
  the second component counts the resets. \<open>None\<close> keeps nothing of the entry.
\<close>

definition dependency_check :: "raw_param \<Rightarrow> (raw_param option \<times> nat) result" where
  "dependency_check val =
     (case val of
        Raw (P v) \<Rightarrow>
          if v = VBool False then Inr (None, 0)
          else if v = VUndef \<or> v = VNull then Inl TypeError
          else Inr (Some val, 0)
      | Conditional p d \<Rightarrow>
          if (case p of None \<Rightarrow> False | Some q \<Rightarrow> param_truthy q) \<or> d \<noteq> NoDepends
          then (let keepRule = (case d of OnSelector n \<Rightarrow> n \<noteq> 0 | OnAnswer b \<Rightarrow> b | _ \<Rightarrow> True)
                in if keepRule then Inr (Some (Raw (case p of None \<Rightarrow> P (VBool True) | Some q \<Rightarrow> q)), 0)
                   else Inr (None, 1))
          else Inr (Some (Raw (PObject (case p of Some (P v) \<Rightarrow> [(js ''param'', v)] | _ \<Rightarrow> []))), 0)
      | _ \<Rightarrow> Inr (Some val, 0))"

fun check_dependencies :: "raw_rules \<Rightarrow> (raw_rules \<times> nat) result" where
  "check_dependencies [] = Inr ([], 0)"
| "check_dependencies ((k, v) # rs) =
     rbind (dependency_check v) (\<lambda>(kept, n).
       rbind (check_dependencies rs) (\<lambda>(rs', n').
         Inr ((case kept of None \<Rightarrow> rs' | Some v' \<Rightarrow> (k, v') # rs'), n + n')))"

text \<open>Functions are called, except the normalizer.\<close>

definition evaluated :: "jstr \<Rightarrow> raw_param \<Rightarrow> rule_param" where
  "evaluated k v =
     (case v of Raw p \<Rightarrow> p | Conditional _ _ \<Rightarrow> PObject []
      | Evaluated p \<Rightarrow> if k = js ''normalizer'' then PFun else p)"

definition param_number :: "rule_param \<Rightarrow> jsnum" where
  "param_number p =
     (case p of P v \<Rightarrow> to_number v | PList vs \<Rightarrow> js_number (js_join (js '','') (map val_text vs)) | _ \<Rightarrow> NaN)"

text \<open>\<open>s.split( /[\s,]+/ )\<close>\<close>

fun split_runs :: "jstr \<Rightarrow> jstr \<Rightarrow> bool \<Rightarrow> jstr list" where
  "split_runs acc [] in_run = [rev acc]"
| "split_runs acc (c # cs) in_run =
     (if is_space c \<or> c = 44
      then (if in_run then split_runs acc cs True else rev acc # split_runs [] cs True)
      else split_runs (c # acc) cs False)"

definition part_number :: "jstr list \<Rightarrow> nat \<Rightarrow> jsval" where
  "part_number parts i = VNum (if i < length parts then js_number (parts ! i) else NaN)"

definition clean_range :: "rule_param \<Rightarrow> rule_param" where
  "clean_range p =
     (case p of
        PList vs \<Rightarrow>
          PList (map (\<lambda>i. VNum (if i < length vs then to_number (vs ! i) else NaN)) [0, 1])
      | P (VText s) \<Rightarrow>
          if s = [] then p
          else (let parts = split_runs [] (re_replace_all False (rx ''[`[`]]'') (by_text []) s) False
                in PList [part_number parts 0, part_number parts 1])
      | _ \<Rightarrow> p)"

definition clean_number :: "rule_param \<Rightarrow> rule_param" where
  "clean_number p = (if param_truthy p then P (VNum (param_number p)) else p)"

definition clean_params :: "rules \<Rightarrow> rules" where
  "clean_params rs = map (\<lambda>(k, p).
     (k, if k \<in> {js ''minlength'', js ''maxlength''} then clean_number p
         else if k \<in> {js ''rangelength'', js ''range''} then clean_range p else p)) rs"

text \<open>\<open>rules.a != null && rules.b != null\<close>: one range for two bounds.\<close>

definition present :: "rule_param option \<Rightarrow> bool" where
  "present p = (p \<notin> {None, Some (P VUndef), Some (P VNull)})"

definition pair_param :: "rule_param option \<Rightarrow> rule_param option \<Rightarrow> rule_param" where
  "pair_param a b = PList (map (\<lambda>p. case p of None \<Rightarrow> VUndef | Some q \<Rightarrow> param_val q) [a, b])"

definition auto_range :: "jstr \<Rightarrow> jstr \<Rightarrow> jstr \<Rightarrow> rules \<Rightarrow> rules" where
  "auto_range lo hi both rs =
     (if present (map_of rs lo) \<and> present (map_of rs hi)
      then remove hi (remove lo (put both (pair_param (map_of rs lo) (map_of rs hi)) rs))
      else rs)"

definition normalizeRules :: "bool \<Rightarrow> raw_rules \<Rightarrow> (rules \<times> nat) result" where
  "normalizeRules autoCreateRanges raw =
     rbind (check_dependencies raw) (\<lambda>(kept, resets).
       let rules = clean_params (map (\<lambda>(k, v). (k, evaluated k v)) kept) in
       Inr (if autoCreateRanges
            then auto_range (js ''minlength'') (js ''maxlength'') (js ''rangelength'')
                   (auto_range (js ''min'') (js ''max'') (js ''range'') rules)
            else rules, resets))"

subsection \<open>\<open>$( element ).rules()\<close>\<close>

definition required_first :: "rules \<Rightarrow> rules" where
  "required_first data =
     (case map_of data (js ''required'') of
        Some param \<Rightarrow>
          if param_truthy param then (js ''required'', param) # remove (js ''required'') data else data
      | None \<Rightarrow> data)"

definition remote_last :: "rules \<Rightarrow> rules" where
  "remote_last data =
     (case map_of data (js ''remote'') of
        Some param \<Rightarrow>
          if param_truthy param then remove (js ''remote'') data @ [(js ''remote'', param)] else data
      | None \<Rightarrow> data)"

definition collected :: "jstr list \<Rightarrow> raw_rules obj \<Rightarrow> rule_spec obj \<Rightarrow> jstr \<Rightarrow> element_data \<Rightarrow> raw_rules" where
  "collected methods class_settings settings_rules n el =
     extend_obj (extend_obj (extend_obj (extend_obj [] (classRules class_settings el)) (attributeRules methods el))
       (dataRules methods el)) (staticRules settings_rules n)"

definition element_rules :: "bool \<Rightarrow> jstr list \<Rightarrow> raw_rules obj \<Rightarrow> rule_spec obj \<Rightarrow> jstr \<Rightarrow> element_data \<Rightarrow> (rules \<times> nat) result" where
  "element_rules autoCreateRanges methods class_settings settings_rules n el =
     rbind (normalizeRules autoCreateRanges (collected methods class_settings settings_rules n el))
       (\<lambda>(data, resets). Inr (remote_last (required_first data), resets))"

text \<open>The commands \<open>add\<close> and \<open>remove\<close>; the latter also answers what it removed.\<close>

definition rules_add :: "jstr \<Rightarrow> rule_spec \<Rightarrow> rule_spec obj \<Rightarrow> rule_spec obj" where
  "rules_add n argument settings_rules =
     put n (Rules (remove (js ''messages'') (extend_obj (staticRules settings_rules n) (normalizeRule argument)))) settings_rules"

definition rules_remove :: "jstr \<Rightarrow> jstr option \<Rightarrow> rule_spec obj \<Rightarrow> rule_spec obj \<times> raw_param option obj" where
  "rules_remove n argument settings_rules =
     (let existing = staticRules settings_rules n in
      case argument of
        None \<Rightarrow> (remove n settings_rules, map (\<lambda>(k, v). (k, Some v)) existing)
      | Some names \<Rightarrow>
          if names = [] then (remove n settings_rules, map (\<lambda>(k, v). (k, Some v)) existing)
          else (let ms = js_split_space names in
                (case map_of settings_rules n of
                   Some (Rules rs) \<Rightarrow> put n (Rules (filter (\<lambda>(k, _). k \<notin> set ms) rs)) settings_rules
                 | _ \<Rightarrow> settings_rules,
                 fst (foldl (\<lambda>(filtered, rs) m. (put m (map_of rs m) filtered, remove m rs)) ([], existing) ms))))"

subsection \<open>The order and the origin of the rules\<close>

lemma distinct_foldl_put:
  "(\<And>rs x. distinct (keys rs) \<Longrightarrow> distinct (keys (f rs x))) \<Longrightarrow> distinct (keys rs) \<Longrightarrow> distinct (keys (foldl f rs xs))"
  by (induction xs arbitrary: rs) auto

lemma distinct_normalizeAttributeRule:
  "distinct (keys rs) \<Longrightarrow> distinct (keys (normalizeAttributeRule rs type m v))"
  by (simp add: normalizeAttributeRule_def Let_def distinct_put)

lemma distinct_attributeRules: "distinct (keys (attributeRules methods el))"
proof -
  let ?f = "\<lambda>rs m. normalizeAttributeRule rs (type_attr el) m
      (if m = js ''required'' then VBool (attr_of el m \<noteq> None)
       else (case attr_of el m of None \<Rightarrow> VUndef | Some s \<Rightarrow> VText s))"
  have "distinct (keys (foldl ?f [] methods))"
    by (rule distinct_foldl_put) (simp_all add: distinct_normalizeAttributeRule)
  then show ?thesis
    by (auto simp: attributeRules_def Let_def distinct_remove split: option.split raw_param.split rule_param.split)
qed

lemma distinct_dataRules: "distinct (keys (dataRules methods el))"
  unfolding dataRules_def
  by (rule distinct_foldl_put) (simp_all add: distinct_normalizeAttributeRule Let_def)

definition wf_specs :: "rule_spec obj \<Rightarrow> bool" where
  "wf_specs specs = list_all (\<lambda>(_, s). case s of Names _ \<Rightarrow> True | Rules rs \<Rightarrow> distinct (keys rs)) specs"

lemma distinct_staticRules: "wf_specs specs \<Longrightarrow> distinct (keys (staticRules specs n))"
proof -
  assume wf: "wf_specs specs"
  have names: "distinct (keys (foldl (\<lambda>ob k. put k (Raw (P (VBool True))) ob) [] xs))" for xs
    by (rule distinct_foldl_put) (simp_all add: distinct_put)
  show ?thesis
  proof (cases "map_of specs n")
    case (Some spec)
    with wf have "case spec of Names _ \<Rightarrow> True | Rules rs \<Rightarrow> distinct (keys rs)"
      unfolding wf_specs_def list_all_iff by (blast dest: map_of_SomeD)
    with Some names show ?thesis by (cases spec) (simp_all add: staticRules_def normalizeRule_def)
  qed (simp add: staticRules_def)
qed

lemma distinct_collected: "distinct (keys (collected methods cs specs n el))"
  by (simp add: collected_def distinct_extend)

text \<open>
  Where an element's rule comes from: the settings beat the data attributes, these the HTML
  attributes, and these the classes.
\<close>

theorem rules_precedence:
  assumes "wf_specs specs"
  shows "map_of (collected methods cs specs n el) k =
    (case map_of (staticRules specs n) k of Some p \<Rightarrow> Some p
     | None \<Rightarrow> (case map_of (dataRules methods el) k of Some p \<Rightarrow> Some p
     | None \<Rightarrow> (case map_of (attributeRules methods el) k of Some p \<Rightarrow> Some p
     | None \<Rightarrow> map_of (extend_obj [] (classRules cs el)) k)))"
  using distinct_staticRules [OF assms] distinct_dataRules distinct_attributeRules
  by (simp add: collected_def map_of_extend cong: option.case_cong)

text \<open>Normalising keeps the keys apart.\<close>

lemma check_dependencies_keys: "check_dependencies raw = Inr (kept, n) \<Longrightarrow> distinct (keys raw) \<Longrightarrow>
    distinct (keys kept) \<and> set (keys kept) \<subseteq> set (keys raw)"
proof (induction raw arbitrary: kept n rule: check_dependencies.induct)
  case (2 k v rs)
  then obtain w m rs' m' where a: "dependency_check v = Inr (w, m)" "check_dependencies rs = Inr (rs', m')"
    and b: "kept = (case w of None \<Rightarrow> rs' | Some v' \<Rightarrow> (k, v') # rs')"
    by (auto simp: rbind_Inr_iff)
  from 2(1) [OF a(2)] 2(3) have "distinct (keys rs')" "set (keys rs') \<subseteq> set (keys rs)" by auto
  with 2(3) b show ?case by (auto split: option.split)
qed simp

lemma keys_map_value: "keys (map (\<lambda>(k, v). (k, f k v)) rs) = keys rs"
  by (induction rs) auto

lemma distinct_auto_range: "distinct (keys rs) \<Longrightarrow> distinct (keys (auto_range lo hi both rs))"
  by (simp add: auto_range_def distinct_put distinct_remove)

lemma distinct_normalizeRules:
  assumes "normalizeRules auto raw = Inr (rs, n)" "distinct (keys raw)"
  shows "distinct (keys rs)"
proof -
  obtain kept where "check_dependencies raw = Inr (kept, n)"
    "rs = (let rules = clean_params (map (\<lambda>(k, v). (k, evaluated k v)) kept) in
       if auto then auto_range (js ''minlength'') (js ''maxlength'') (js ''rangelength'')
                   (auto_range (js ''min'') (js ''max'') (js ''range'') rules) else rules)"
    using assms(1) by (auto simp: normalizeRules_def rbind_Inr_iff Let_def)
  moreover from this(1) assms(2) have "distinct (keys (map (\<lambda>(k, v). (k, evaluated k v)) kept))"
    using check_dependencies_keys by (simp add: keys_map_value)
  then have "distinct (keys (clean_params (map (\<lambda>(k, v). (k, evaluated k v)) kept)))"
    unfolding clean_params_def by (simp add: keys_map_value del: map_map)
  ultimately show ?thesis by (simp add: Let_def distinct_auto_range)
qed

lemma remove_Cons: "remove k (x # ob) = (if fst x = k then remove k ob else x # remove k ob)"
  by (simp add: remove_def split_beta)

lemma map_of_append_one: "k \<notin> set (keys ob) \<Longrightarrow> map_of (ob @ [(k, v)]) k' = (if k' = k then Some v else map_of ob k')"
  by (induction ob) auto

lemma required_first_props:
  assumes "distinct (keys data)"
  shows "distinct (keys (required_first data))" "map_of (required_first data) = map_of data"
    "map_of data (js ''required'') = Some p \<Longrightarrow> param_truthy p \<Longrightarrow>
       \<exists>rest. required_first data = (js ''required'', p) # rest"
  using assms by (auto simp: required_first_def distinct_remove map_of_remove split: option.split)

lemma remote_last_props:
  assumes "distinct (keys data)"
  shows "distinct (keys (remote_last data))" "map_of (remote_last data) = map_of data"
    "map_of data (js ''remote'') = Some p \<Longrightarrow> param_truthy p \<Longrightarrow>
       \<exists>rest. remote_last data = rest @ [(js ''remote'', p)]"
  using assms
  by (auto simp: remote_last_def distinct_remove map_of_remove map_of_append_one fun_eq_iff
      simp del: map_of_append split: option.split)

text \<open>The rules between the first and the last.\<close>

definition middle_rules :: "rules \<Rightarrow> rules" where
  "middle_rules rs = filter (\<lambda>(k, _). k \<notin> {js ''required'', js ''remote''}) rs"

lemma middle_reordered: "middle_rules (required_first data) = middle_rules data" "middle_rules (remote_last data) = middle_rules data"
proof -
  have r: "middle_rules (remove k data) = middle_rules data" if "k \<in> {js ''required'', js ''remote''}" for k
    unfolding middle_rules_def remove_def filter_filter by (rule filter_cong) (use that in auto)
  have c: "middle_rules ((js ''required'', p) # xs) = middle_rules xs" "middle_rules (xs @ [(js ''remote'', p)]) = middle_rules xs" for p xs
    by (simp_all add: middle_rules_def)
  show "middle_rules (required_first data) = middle_rules data" "middle_rules (remote_last data) = middle_rules data"
    by (simp_all add: required_first_def remote_last_def r c split: option.split)
qed


definition sample_data :: element_data where
  "sample_data = \<lparr>class_attr = Some (js ''email''), type_attr = Some (js ''text''),
     attr_of = (\<lambda>a. if a = js ''minlength'' then Some (js ''2'') else None),
     data_of = (\<lambda>a. if a = js ''ruleRequired'' then VBool True else VUndef)\<rparr>"

theorem rules_precedence_witness:
  "map_of (collected [js ''required'', js ''email'', js ''minlength''] classRuleSettings
      [(js ''user'', Rules [(js ''minlength'', Raw (P (VText (js ''3''))))])] (js ''user'') sample_data) (js ''minlength'')
    = Some (Raw (P (VText (js ''3''))))"
proof -
  have w: "wf_specs [(js ''user'', Rules [(js ''minlength'', Raw (P (VText (js ''3''))))])]" by code_simp
  have s: "map_of (staticRules [(js ''user'', Rules [(js ''minlength'', Raw (P (VText (js ''3''))))])] (js ''user'')) (js ''minlength'')
      = Some (Raw (P (VText (js ''3''))))" by code_simp
  show ?thesis unfolding rules_precedence [OF w] s by simp
qed

definition sample_specs :: "rule_spec obj" where
  "sample_specs = [(js ''user'', Rules [(js ''remote'', Raw (P (VText (js ''/check'')))), (js ''minlength'', Raw (P (VText (js ''3''))))])]"

definition sample_rules :: rules where
  "sample_rules = [(js ''required'', P (VBool True)), (js ''email'', P (VBool True)),
     (js ''minlength'', P (VNum (Fin 3 0))), (js ''remote'', P (VText (js ''/check'')))]"


end
