(* ===== verification/ValidatorState.thy ===== *)
theory ValidatorState
  imports ValidatorRules
begin

text \<open>
  The object that \<open>new $.validator\<close> makes (\<open>jquery.validate.js\<close>), with the part of the page that it
  changes: the error labels, the classes and aria attributes of the elements, and the containers. An
  element is its position in the form, a label its position in the list of labels.
\<close>

subsection \<open>The page\<close>

text \<open>
  \<open>lb_for\<close> is the attribute \<open>for\<close> of an error element that is a label, \<open>lb_around\<close> the \<open>for\<close> of the labels
  around it. The classes are \<open>errorClass\<close>, \<open>validClass\<close> and the class that the setting \<open>success\<close> names.
\<close>

record label =
  lb_id :: jstr
  lb_for :: "jstr option"
  lb_around :: "jstr list"
  lb_html :: jstr
  lb_error :: bool
  lb_valid :: bool
  lb_success :: bool
  lb_shown :: bool

record look =
  lk_error :: bool
  lk_valid :: bool
  lk_pending :: bool
  aria_invalid :: "bool option"
  describedby :: "jstr option"

datatype part = Label nat | Box nat

text \<open>A message is a text or what \<open>$.validator.format\<close> made of a text.\<close>

datatype message = Plain jstr | Formatter jstr

datatype custom = OneMessage jstr | PerMethod "message obj"

text \<open>
  The jQuery data \<open>previousValue\<close> of an element with a remote rule: an object that a request on its way
  keeps even when the element has lost it, so elements and requests hold its position in \<open>previouses\<close>.
\<close>

record previous =
  old :: "jstr option"
  prev_valid :: bool
  prev_message :: jstr
  originalMessage :: "message option"

text \<open>An entry of \<open>errorList\<close>.\<close>

record error_item =
  ei_element :: "nat option"
  ei_message :: jstr
  ei_method :: "jstr option"

text \<open>
  What the validator does beyond its own state: the event \<open>invalid-form\<close>, the focus, submissions, aborted
  requests, calls of the settings \<open>success\<close> and \<open>submitHandler\<close>, and the hidden input that stands for the
  submit button.
\<close>

datatype action =
  InvalidForm | Focus nat | Submits | Aborts jstr | SuccessCalled nat | HandlerCalled | HiddenAdded nat | HiddenRemoved nat

record vstate =
  submitted :: "jstr obj"
  invalid :: "jsval obj"
  pending :: "bool obj"
  pendingRequest :: int
  successList :: "nat list"
  errorList :: "error_item list"
  errorMap :: "jstr obj"
  toShow :: "part list"
  toHide :: "part list"
  currentElements :: "nat list"
  formSubmitted :: bool
  cancelSubmit :: bool
  submitButton :: "nat option"
  lastActive :: "nat option"
  labels :: "label list"
  looks :: "nat \<Rightarrow> look"
  boxes :: "nat \<Rightarrow> bool"
  previouses :: "previous list"
  previous_of :: "nat \<Rightarrow> nat option"
  customs :: "custom obj"
  inflight :: "(nat \<times> jsval \<times> nat) obj"
  blur :: blur_state
  actions :: "action list"

datatype success = NoSuccess | SuccessClass | SuccessCall

text \<open>
  Settings, and what the page answers: rules, messages, titles. \<open>selects\<close> are the elements that a
  parameter used as a selector finds, \<open>date_text\<close> is \<open>new Date( value ).toString()\<close>, \<open>data_string\<close> is
  what \<open>$.param\<close> makes of the data of a remote request. \<open>custom_methods\<close> are methods that the page adds.
  \<open>placed_in\<close> are the \<open>for\<close> of the labels around the place where a new error element of an element is put.
\<close>

record page =
  form :: "input list"
  rules_of :: "nat \<Rightarrow> rules"
  selects :: "rule_param \<Rightarrow> nat list"
  date_text :: "jsval \<Rightarrow> jstr"
  data_string :: "jsval \<Rightarrow> rule_param \<Rightarrow> jstr"
  custom_methods :: "(jsval \<Rightarrow> nat \<Rightarrow> rule_param \<Rightarrow> verdict result) obj"
  local_normalizer :: "nat \<Rightarrow> jsval \<Rightarrow> jsval"
  global_normalizer :: "(nat \<Rightarrow> jsval \<Rightarrow> jsval) option"
  groups :: "jstr obj"
  containers :: "nat list"
  error_is_label :: bool
  success :: success
  messages :: "message obj"
  data_message :: "nat \<Rightarrow> jstr \<Rightarrow> jstr option"
  title_of :: "nat \<Rightarrow> jstr"
  ignoreTitle :: bool
  element_text :: "nat \<Rightarrow> jstr"
  placed_in :: "nat \<Rightarrow> jstr list"
  focus_invalid :: bool
  visible :: "nat \<Rightarrow> bool"
  revalidates :: bool
  focusCleanup :: bool
  debug :: bool
  submitHandler :: "bool option option"

definition name_of :: "page \<Rightarrow> nat \<Rightarrow> jstr" where
  "name_of pg e = el_name (form pg ! e)"

definition by_name :: "page \<Rightarrow> jstr \<Rightarrow> nat list" where
  "by_name pg n = filter (\<lambda>i. name_of pg i = n) [0..<length (form pg)]"

text \<open>The groups of the settings, name by name; a group written as a text is split at white space.\<close>

definition init_groups :: "(jstr \<times> jstr list) list \<Rightarrow> jstr obj" where
  "init_groups gs = foldl (\<lambda>ob (key, names). foldl (\<lambda>ob n. put n key ob) ob names) [] gs"

definition group_of :: "page \<Rightarrow> nat \<Rightarrow> jstr option" where
  "group_of pg e = (case map_of (groups pg) (name_of pg e) of Some g \<Rightarrow> if g = [] then None else Some g | None \<Rightarrow> None)"

definition idOrName :: "page \<Rightarrow> nat \<Rightarrow> jstr" where
  "idOrName pg e =
     (case group_of pg e of
        Some g \<Rightarrow> g
      | None \<Rightarrow>
          if checkable (form pg ! e) then name_of pg e
          else if el_id (form pg ! e) \<noteq> [] then el_id (form pg ! e) else name_of pg e)"

text \<open>A radio button or checkbox stands for its group; an ignored element is no target.\<close>

definition validationTargetFor :: "page \<Rightarrow> nat \<Rightarrow> nat option" where
  "validationTargetFor pg e =
     (let es = (if checkable (form pg ! e) then by_name pg (name_of pg e) else [e]) in
      case filter (\<lambda>i. \<not> el_ignored (form pg ! i)) es of [] \<Rightarrow> None | i # _ \<Rightarrow> Some i)"

subsection \<open>Counting\<close>

definition counts :: "jsval \<Rightarrow> bool" where
  "counts v = (v \<notin> {VUndef, VNull, VBool False})"

definition objectLength :: "jsval obj \<Rightarrow> nat" where
  "objectLength ob = length (filter (\<lambda>(_, v). counts v) ob)"

definition rules_length :: "rules \<Rightarrow> nat" where
  "rules_length rs = length (filter (\<lambda>(_, p). case p of P v \<Rightarrow> counts v | _ \<Rightarrow> True) rs)"

definition numberOfInvalids :: "vstate \<Rightarrow> nat" where
  "numberOfInvalids st = objectLength (invalid st)"

definition valid :: "vstate \<Rightarrow> bool" where
  "valid st = (length (errorList st) = 0)"

subsection \<open>Error elements\<close>

definition errors :: "vstate \<Rightarrow> nat list" where
  "errors st = filter (\<lambda>i. lb_error (labels st ! i)) [0..<length (labels st)]"

definition space_words :: "jstr \<Rightarrow> jstr list" where
  "space_words s = filter (\<lambda>w. w \<noteq> []) (js_split_space s)"

definition errorsFor :: "page \<Rightarrow> nat \<Rightarrow> vstate \<Rightarrow> nat list" where
  "errorsFor pg e st =
     (let n = idOrName pg e in
      filter (\<lambda>i. let l = labels st ! i in
          lb_for l = Some n \<or> n \<in> set (lb_around l)
          \<or> (case describedby (looks st e) of None \<Rightarrow> False | Some d \<Rightarrow> lb_id l \<in> set (space_words d)))
        (errors st))"

definition update_label :: "nat \<Rightarrow> (label \<Rightarrow> label) \<Rightarrow> vstate \<Rightarrow> vstate" where
  "update_label i f st = st\<lparr>labels := (labels st)[i := f (labels st ! i)]\<rparr>"

definition update_look :: "nat \<Rightarrow> (look \<Rightarrow> look) \<Rightarrow> vstate \<Rightarrow> vstate" where
  "update_look e f st = st\<lparr>looks := (looks st)(e := f (looks st e))\<rparr>"

text \<open>\<open>hideThese\<close> empties and hides; containers keep their text. \<open>.show()\<close> shows.\<close>

definition hide_part :: "page \<Rightarrow> vstate \<Rightarrow> part \<Rightarrow> vstate" where
  "hide_part pg st p =
     (case p of
        Label i \<Rightarrow> update_label i (\<lambda>l. l\<lparr>lb_html := [], lb_shown := False\<rparr>) st
      | Box b \<Rightarrow> st\<lparr>boxes := (boxes st)(b := False)\<rparr>)"

definition hideThese :: "page \<Rightarrow> part list \<Rightarrow> vstate \<Rightarrow> vstate" where
  "hideThese pg ps st = foldl (hide_part pg) st ps"

definition show_part :: "vstate \<Rightarrow> part \<Rightarrow> vstate" where
  "show_part st p =
     (case p of
        Label i \<Rightarrow> update_label i (\<lambda>l. l\<lparr>lb_shown := True\<rparr>) st
      | Box b \<Rightarrow> st\<lparr>boxes := (boxes st)(b := True)\<rparr>)"

definition hideErrors :: "page \<Rightarrow> vstate \<Rightarrow> vstate" where
  "hideErrors pg st = hideThese pg (toHide st) st"

text \<open>jQuery's \<open>add\<close> and \<open>not\<close> on sets of elements.\<close>

definition add_parts :: "part list \<Rightarrow> part list \<Rightarrow> part list" where
  "add_parts ps qs = ps @ filter (\<lambda>q. q \<notin> set ps) qs"

definition not_parts :: "part list \<Rightarrow> part list \<Rightarrow> part list" where
  "not_parts ps qs = filter (\<lambda>p. p \<notin> set qs) ps"

subsection \<open>Highlighting\<close>

definition twins :: "page \<Rightarrow> nat \<Rightarrow> nat list" where
  "twins pg e = (if el_type (form pg ! e) = js ''radio'' then by_name pg (name_of pg e) else [e])"

definition highlight :: "page \<Rightarrow> vstate \<Rightarrow> nat \<Rightarrow> vstate" where
  "highlight pg st e = foldl (\<lambda>st i. update_look i (\<lambda>k. k\<lparr>lk_error := True, lk_valid := False\<rparr>) st) st (twins pg e)"

definition unhighlight :: "page \<Rightarrow> vstate \<Rightarrow> nat \<Rightarrow> vstate" where
  "unhighlight pg st e = foldl (\<lambda>st i. update_look i (\<lambda>k. k\<lparr>lk_error := False, lk_valid := True\<rparr>) st) st (twins pg e)"

definition resetElements :: "page \<Rightarrow> nat list \<Rightarrow> vstate \<Rightarrow> vstate" where
  "resetElements pg es st =
     foldl (\<lambda>st e.
       foldl (\<lambda>st i. update_look i (\<lambda>k. k\<lparr>lk_valid := False\<rparr>) st)
         (foldl (\<lambda>st i. update_look i (\<lambda>k. k\<lparr>lk_error := False\<rparr>) st) st (twins pg e))
         (by_name pg (name_of pg e))) st es"

subsection \<open>Starting over\<close>

definition resetInternals :: "vstate \<Rightarrow> vstate" where
  "resetInternals st = st\<lparr>successList := [], errorList := [], errorMap := [], toShow := [], toHide := []\<rparr>"

definition reset_state :: "vstate \<Rightarrow> vstate" where
  "reset_state st = (resetInternals st)\<lparr>currentElements := []\<rparr>"

definition prepareForm :: "page \<Rightarrow> vstate \<Rightarrow> vstate" where
  "prepareForm pg st =
     (reset_state st)\<lparr>toHide := add_parts (map Label (errors st)) (map Box (containers pg))\<rparr>"

definition prepareElement :: "page \<Rightarrow> nat \<Rightarrow> vstate \<Rightarrow> vstate" where
  "prepareElement pg e st = (reset_state st)\<lparr>toHide := map Label (errorsFor pg e st)\<rparr>"

text \<open>\<open>init\<close> on a page as the server sent it.\<close>

definition init_state :: "custom obj \<Rightarrow> label list \<Rightarrow> (nat \<Rightarrow> look) \<Rightarrow> (nat \<Rightarrow> bool) \<Rightarrow> vstate" where
  "init_state cs ls ks bs =
     \<lparr>submitted = [], invalid = [], pending = [], pendingRequest = 0, successList = [], errorList = [],
      errorMap = [], toShow = [], toHide = [], currentElements = [], formSubmitted = False,
      cancelSubmit = False, submitButton = None, lastActive = None, labels = ls, looks = ks, boxes = bs,
      previouses = [], previous_of = (\<lambda>_. None), customs = cs, inflight = [],
      blur = \<lparr>marked = [], on_blur = []\<rparr>, actions = []\<rparr>"

end
