(* ===== verification/ValidatorMethods.thy ===== *)
theory ValidatorMethods
  imports ValidatorState
begin

text \<open>
  The messages of the validator, the method \<open>remote\<close> with the requests it starts, and the table
  \<open>$.validator.methods\<close> after both libraries are loaded. An operation that may throw answers a \<open>result\<close>
  beside the state it leaves.
\<close>

type_synonym 'a run = "vstate \<times> 'a result"

definition run_bind :: "'a run \<Rightarrow> (vstate \<Rightarrow> 'a \<Rightarrow> 'b run) \<Rightarrow> 'b run" where
  "run_bind r f = (case r of (st, Inl e) \<Rightarrow> (st, Inl e) | (st, Inr x) \<Rightarrow> f st x)"

lemma run_bind_simps [simp]: "run_bind (st, Inl e) f = (st, Inl e)" "run_bind (st, Inr x) f = f st x"
  by (simp_all add: run_bind_def)

lemma run_bind_Inr: "run_bind r f = (st', Inr y) \<longleftrightarrow> (\<exists>st x. r = (st, Inr x) \<and> f st x = (st', Inr y))"
  by (cases r; cases "snd r") auto

subsection \<open>Messages\<close>

definition param_texts :: "rule_param \<Rightarrow> jstr list" where
  "param_texts p = (case p of P v \<Rightarrow> [val_text v] | PList vs \<Rightarrow> map val_text vs | _ \<Rightarrow> [js ''[object Object]''])"

text \<open>The messages that \<open>jquery.validate.js\<close> defines for its own methods.\<close>

definition default_messages :: "message obj" where
  "default_messages =
     map (\<lambda>(k, m). (js k, Plain (js m)))
       [(''required'', ''This field is required.''), (''remote'', ''Please fix this field.''),
        (''email'', ''Please enter a valid email address.''), (''url'', ''Please enter a valid URL.''),
        (''date'', ''Please enter a valid date.''), (''dateISO'', ''Please enter a valid date (ISO).''),
        (''number'', ''Please enter a valid number.''), (''digits'', ''Please enter only digits.''),
        (''equalTo'', ''Please enter the same value again.'')] @
     map (\<lambda>(k, m). (js k, Formatter (js m)))
       [(''maxlength'', ''Please enter no more than {0} characters.''),
        (''minlength'', ''Please enter at least {0} characters.''),
        (''rangelength'', ''Please enter a value between {0} and {1} characters long.''),
        (''range'', ''Please enter a value between {0} and {1}.''),
        (''max'', ''Please enter a value less than or equal to {0}.''),
        (''min'', ''Please enter a value greater than or equal to {0}.''),
        (''step'', ''Please enter a multiple of {0}.'')]"

definition customMessage :: "vstate \<Rightarrow> jstr \<Rightarrow> jstr \<Rightarrow> message option" where
  "customMessage st n method =
     (case map_of (customs st) n of
        None \<Rightarrow> None
      | Some (OneMessage m) \<Rightarrow> Some (Plain m)
      | Some (PerMethod ms) \<Rightarrow> map_of ms method)"

text \<open>\<open>data( "msg" + Method ) || data( "msg" )\<close>\<close>

definition customDataMessage :: "page \<Rightarrow> nat \<Rightarrow> jstr \<Rightarrow> message option" where
  "customDataMessage pg e method =
     (case data_message pg e (js ''msg'' @ js_upper (take 1 method) @ js_lower (drop 1 method)) of
        Some m \<Rightarrow> if m \<noteq> [] then Some (Plain m) else map_option Plain (data_message pg e (js ''msg''))
      | None \<Rightarrow> map_option Plain (data_message pg e (js ''msg'')))"

fun findDefined :: "'a option list \<Rightarrow> 'a option" where
  "findDefined [] = None"
| "findDefined (Some x # xs) = Some x"
| "findDefined (None # xs) = findDefined xs"

definition chosen_message :: "page \<Rightarrow> vstate \<Rightarrow> nat \<Rightarrow> jstr \<Rightarrow> message" where
  "chosen_message pg st e method =
     the (findDefined
       [customMessage st (name_of pg e) method,
        customDataMessage pg e method,
        (if \<not> ignoreTitle pg \<and> title_of pg e \<noteq> [] then Some (Plain (title_of pg e)) else None),
        map_of (messages pg) method,
        Some (Plain (js ''<strong>Warning: No message defined for '' @ name_of pg e @ js ''</strong>''))])"

definition placeholder_re :: re where
  "placeholder_re = rx ''`$?`{(`d+)`}''"

definition defaultMessage :: "page \<Rightarrow> vstate \<Rightarrow> nat \<Rightarrow> jstr \<Rightarrow> rule_param \<Rightarrow> jstr" where
  "defaultMessage pg st e method params =
     (case chosen_message pg st e method of
        Formatter source \<Rightarrow>
          (case params of
             P VUndef \<Rightarrow> source
           | PList vs \<Rightarrow> format_message source (map val_text vs)
           | _ \<Rightarrow> format_message source (param_texts params @ [element_text pg e]))
      | Plain m \<Rightarrow>
          if re_test False placeholder_re m
          then (let source = re_replace_all False placeholder_re (\<lambda>t cs. js ''{'' @ by_group 1 t cs @ js ''}'') m in
                if params = P VUndef then source else format_message source (param_texts params))
          else m)"

subsection \<open>Remote validation\<close>

text \<open>
  \<open>pending\<close> and \<open>pendingRequest\<close> know which fields wait for an answer. The request of a field uses a port
  of its own, on which a new request aborts the one before.
\<close>

definition startRequest :: "page \<Rightarrow> nat \<Rightarrow> vstate \<Rightarrow> vstate" where
  "startRequest pg e st =
     (if has_key (name_of pg e) (pending st) then st
      else update_look e (\<lambda>k. k\<lparr>lk_pending := True\<rparr>)
             (st\<lparr>pendingRequest := pendingRequest st + 1, pending := put (name_of pg e) True (pending st)\<rparr>))"

definition previousValue :: "page \<Rightarrow> nat \<Rightarrow> vstate \<Rightarrow> vstate \<times> nat" where
  "previousValue pg e st =
     (case previous_of st e of
        Some i \<Rightarrow> (st, i)
      | None \<Rightarrow>
          (st\<lparr>previouses := previouses st @
                [\<lparr>old = None, prev_valid = True, prev_message = defaultMessage pg st e (js ''remote'') (P VUndef),
                  originalMessage = None\<rparr>],
              previous_of := (previous_of st)(e \<mapsto> length (previouses st))\<rparr>, length (previouses st)))"

definition update_previous :: "nat \<Rightarrow> (previous \<Rightarrow> previous) \<Rightarrow> vstate \<Rightarrow> vstate" where
  "update_previous i f st = st\<lparr>previouses := (previouses st)[i := f (previouses st ! i)]\<rparr>"

text \<open>
  \<open>this.settings.messages[ name ][ method ]\<close>, read and assigned; a message that is one text for all methods
  has no such property, and assigning one is ignored.
\<close>

definition own_message :: "jstr \<Rightarrow> vstate \<Rightarrow> message option" where
  "own_message n st = (case map_of (customs st) n of Some (PerMethod ms) \<Rightarrow> map_of ms (js ''remote'') | _ \<Rightarrow> None)"

definition set_own_message :: "jstr \<Rightarrow> message option \<Rightarrow> vstate \<Rightarrow> vstate" where
  "set_own_message n m st =
     (case map_of (customs st) n of
        Some (PerMethod ms) \<Rightarrow>
          st\<lparr>customs := put n (PerMethod (case m of None \<Rightarrow> remove (js ''remote'') ms | Some x \<Rightarrow> put (js ''remote'') x ms)) (customs st)\<rparr>
      | _ \<Rightarrow> st)"

definition own_messages :: "jstr \<Rightarrow> vstate \<Rightarrow> vstate" where
  "own_messages n st =
     (if map_of (customs st) n \<in> {None, Some (OneMessage [])} then st\<lparr>customs := put n (PerMethod []) (customs st)\<rparr> else st)"

definition remember_message :: "jstr \<Rightarrow> nat \<Rightarrow> vstate \<Rightarrow> vstate" where
  "remember_message n i st =
     (let st1 = own_messages n st;
          known = originalMessage (previouses st1 ! i);
          original = (if known \<in> {None, Some (Plain [])} then own_message n st1 else known)
      in set_own_message n (Some (Plain (prev_message (previouses st1 ! i))))
           (update_previous i (\<lambda>p. p\<lparr>originalMessage := original\<rparr>) st1))"

text \<open>The prefilter of \<open>$.ajax\<close>: a request on a port aborts the one that is still on its way there.\<close>

definition abort_port :: "jstr \<Rightarrow> vstate \<Rightarrow> vstate" where
  "abort_port n st = (if map_of (inflight st) n = None then st else st\<lparr>actions := actions st @ [Aborts n]\<rparr>)"

definition send_request :: "page \<Rightarrow> nat \<Rightarrow> jsval \<Rightarrow> nat \<Rightarrow> vstate \<Rightarrow> vstate" where
  "send_request pg e v i st =
     (let n = name_of pg e; st1 = abort_port n st in st1\<lparr>inflight := put n (e, v, i) (inflight st1)\<rparr>)"

definition remote :: "page \<Rightarrow> nat \<Rightarrow> jsval \<Rightarrow> rule_param \<Rightarrow> vstate \<Rightarrow> vstate \<times> verdict result" where
  "remote pg e v param st =
     (case optional_of (form pg) (form pg ! e) of
        Inl err \<Rightarrow> (st, Inl err)
      | Inr True \<Rightarrow> (st, Inr Mismatch)
      | Inr False \<Rightarrow>
          (case previousValue pg e st of
             (st0, i) \<Rightarrow>
               (let st1 = remember_message (name_of pg e) i st0; s = data_string pg v param in
                if old (previouses st1 ! i) = Some s
                then (st1, Inr (Verdict (prev_valid (previouses st1 ! i))))
                else (send_request pg e v i (startRequest pg e (update_previous i (\<lambda>p. p\<lparr>old := Some s\<rparr>) st1)),
                      Inr Pending))))"

subsection \<open>The table of methods\<close>

text \<open>
  How a method meets a value that is no text: \<open>tested\<close> methods hand it to \<open>RegExp.test\<close>, which converts
  it; \<open>worked\<close> methods call a text operation on it after \<open>this.optional( element )\<close> and throw; \<open>early\<close>
  methods call it before, and \<open>always\<close> methods do not ask whether the field is optional.
\<close>

type_synonym method_call = "page \<Rightarrow> nat \<Rightarrow> jsval \<Rightarrow> rule_param \<Rightarrow> verdict result"

definition as_text :: "jsval \<Rightarrow> jstr result" where
  "as_text v = (case v of VText s \<Rightarrow> Inr s | _ \<Rightarrow> Inl TypeError)"

definition tested :: "(bool \<Rightarrow> jstr \<Rightarrow> verdict) \<Rightarrow> method_call" where
  "tested f pg e v p = rbind (optional_of (form pg) (form pg ! e)) (\<lambda>optional. Inr (f optional (val_text v)))"

definition worked :: "(bool \<Rightarrow> jstr \<Rightarrow> rule_param \<Rightarrow> verdict result) \<Rightarrow> method_call" where
  "worked f pg e v p =
     rbind (optional_of (form pg) (form pg ! e)) (\<lambda>optional.
       if optional then f True [] p else rbind (as_text v) (\<lambda>s. f False s p))"

definition early :: "(bool \<Rightarrow> jstr \<Rightarrow> rule_param \<Rightarrow> verdict result) \<Rightarrow> method_call" where
  "early f pg e v p =
     rbind (as_text v) (\<lambda>s. rbind (optional_of (form pg) (form pg ! e)) (\<lambda>optional. f optional s p))"

definition always :: "(jstr \<Rightarrow> bool) \<Rightarrow> method_call" where
  "always f pg e v p = rbind (as_text v) (\<lambda>s. Inr (Verdict (f s)))"

definition fielded :: "(bool \<Rightarrow> input \<Rightarrow> rule_param \<Rightarrow> verdict result) \<Rightarrow> method_call" where
  "fielded f pg e v p = rbind (optional_of (form pg) (form pg ! e)) (\<lambda>optional. f optional (form pg ! e) p)"

definition plainly :: "(bool \<Rightarrow> jstr \<Rightarrow> verdict) \<Rightarrow> bool \<Rightarrow> jstr \<Rightarrow> rule_param \<Rightarrow> verdict result" where
  "plainly f optional s p = Inr (f optional s)"

definition flatly :: "(bool \<Rightarrow> jstr \<Rightarrow> bool) \<Rightarrow> bool \<Rightarrow> jstr \<Rightarrow> rule_param \<Rightarrow> verdict result" where
  "flatly f optional s p = Inr (Verdict (f optional s))"

text \<open>\<open>param[ 0 ]\<close> and \<open>param[ 1 ]\<close>\<close>

definition pair_of :: "rule_param \<Rightarrow> jsval \<times> jsval" where
  "pair_of p =
     (let at = (\<lambda>i. case p of
          PList vs \<Rightarrow> if i < length vs then vs ! i else VUndef
        | P (VText s) \<Rightarrow> if i < length s then VText [s ! i] else VUndef
        | _ \<Rightarrow> VUndef)
      in (at 0, at 1))"

definition text_param :: "rule_param \<Rightarrow> jstr option" where
  "text_param p = (case p of P (VText s) \<Rightarrow> Some s | _ \<Rightarrow> None)"

definition own_property :: "rule_param \<Rightarrow> string \<Rightarrow> jsval" where
  "own_property p k =
     (case p of PObject ob \<Rightarrow> (case map_of ob (js k) of None \<Rightarrow> VUndef | Some v \<Rightarrow> v) | _ \<Rightarrow> VUndef)"

definition state_param :: "rule_param \<Rightarrow> state_options" where
  "state_param p =
     (let flag = (\<lambda>k. let v = own_property p k in if v = VUndef then None else Some (val_truthy v)) in
      \<lparr>caseSensitive = flag ''caseSensitive'', includeTerritories = flag ''includeTerritories'',
       includeMilitary = flag ''includeMilitary''\<rparr>)"

definition card_param :: "rule_param \<Rightarrow> card_types" where
  "card_param p =
     (let flag = (\<lambda>k. val_truthy (own_property p k)) in
      \<lparr>mastercard = flag ''mastercard'', visa = flag ''visa'', amex = flag ''amex'', dinersclub = flag ''dinersclub'',
       enroute = flag ''enroute'', discover = flag ''discover'', jcb = flag ''jcb'', unknown = flag ''unknown'',
       all_types = flag ''all''\<rparr>)"

definition bad_pattern :: "verdict option \<Rightarrow> verdict result" where
  "bad_pattern r = (case r of None \<Rightarrow> Inl (Error (js ''SyntaxError'')) | Some x \<Rightarrow> Inr x)"

definition currency_method :: "bool \<Rightarrow> jstr \<Rightarrow> rule_param \<Rightarrow> verdict result" where
  "currency_method optional s p =
     (case p of
        P (VText symbol) \<Rightarrow> bad_pattern (currency optional s (SymbolText symbol))
      | PList (VText symbol # rest) \<Rightarrow>
          bad_pattern (currency optional s (SymbolSoft symbol (case rest of [] \<Rightarrow> False | v # _ \<Rightarrow> val_truthy v)))
      | _ \<Rightarrow> Inl TypeError)"

text \<open>\<open>pattern\<close>: a parameter that is neither a text nor a pattern has no \<open>test\<close>.\<close>

definition pattern_method :: "bool \<Rightarrow> jstr \<Rightarrow> rule_param \<Rightarrow> verdict result" where
  "pattern_method optional s p =
     (if optional then Inr (Verdict True)
      else case text_param p of None \<Rightarrow> Inl TypeError | Some t \<Rightarrow> bad_pattern (patternMethod optional s t))"

definition dependency_of :: "page \<Rightarrow> rule_param \<Rightarrow> dependency" where
  "dependency_of pg p =
     (case p of P (VBool b) \<Rightarrow> Flag b | P (VText s) \<Rightarrow> Selects (length (selects pg p)) | _ \<Rightarrow> Always)"

definition tested_with :: "(bool \<Rightarrow> jstr \<Rightarrow> rule_param \<Rightarrow> verdict result) \<Rightarrow> method_call" where
  "tested_with f pg e v p = rbind (optional_of (form pg) (form pg ! e)) (\<lambda>optional. f optional (val_text v) p)"

definition valued :: "(bool \<Rightarrow> jsval \<Rightarrow> rule_param \<Rightarrow> verdict) \<Rightarrow> method_call" where
  "valued f pg e v p = rbind (optional_of (form pg) (form pg ! e)) (\<lambda>optional. Inr (f optional v p))"

definition measuring :: "(input list \<Rightarrow> jsval \<Rightarrow> input \<Rightarrow> rule_param \<Rightarrow> verdict result) \<Rightarrow> method_call" where
  "measuring f pg e v p = f (form pg) v (form pg ! e) p"

text \<open>Methods that try a pattern on the converted value and only then treat it as a text.\<close>

definition after_test :: "(jstr \<Rightarrow> bool) \<Rightarrow> (jstr \<Rightarrow> verdict) \<Rightarrow> jsval \<Rightarrow> verdict result" where
  "after_test ok f v =
     (case v of VText s \<Rightarrow> Inr (f s) | _ \<Rightarrow> if ok (val_text v) then Inl TypeError else Inr (Verdict False))"

definition account_re :: re where
  "account_re = rx ''^[0-9]{9}|([0-9]{2} ){3}[0-9]{3}$''"

definition creditcard_method :: method_call where
  "creditcard_method pg e v p =
     rbind (optional_of (form pg) (form pg ! e)) (\<lambda>optional.
       if optional then Inr Mismatch
       else after_test (\<lambda>t. \<not> re_test False (rx ''[^0-9 `-]+'') t) (creditcard False) v)"

definition creditcardtypes_method :: method_call where
  "creditcardtypes_method pg e v p =
     after_test (\<lambda>t. \<not> re_test False (rx ''[^0-9`-]+'') t) (\<lambda>s. Verdict (creditcardtypes s (card_param p))) v"

definition bankaccountNL_method :: method_call where
  "bankaccountNL_method pg e v p =
     rbind (optional_of (form pg) (form pg ! e)) (\<lambda>optional.
       if optional then Inr (Verdict True)
       else after_test (re_test False account_re) (\<lambda>s. Verdict (bankaccountNL False s)) v)"

definition bankorgiroaccountNL_method :: method_call where
  "bankorgiroaccountNL_method pg e v p =
     rbind (optional_of (form pg) (form pg ! e)) (\<lambda>optional.
       if optional then Inr Mismatch
       else rbind (after_test (re_test False account_re) (\<lambda>s. Verdict (bankaccountNL False s)) v) (\<lambda>r.
         if r = Verdict True then Inr r else Inr (giroaccountNL False (val_text v))))"

definition dateITA_method :: method_call where
  "dateITA_method pg e v p =
     (case v of
        VText _ \<Rightarrow> tested dateITA pg e v p
      | _ \<Rightarrow> if re_test False (rx ''^`d{1,2}`/`d{1,2}`/`d{4}$'') (val_text v) then Inl TypeError
             else tested dateITA pg e v p)"

text \<open>\<open>v.length\<close> of a value that is no text is not 17, but for 17 chosen options, which are left out.\<close>

definition vinUS_method :: method_call where
  "vinUS_method pg e v p =
     (case v of VText s \<Rightarrow> Inr (Verdict (vinUS s)) | VUndef \<Rightarrow> Inl TypeError | VNull \<Rightarrow> Inl TypeError
      | _ \<Rightarrow> Inr (Verdict False))"

definition core_methods :: "(string \<times> method_call) list" where
  "core_methods =
     [(''required'', \<lambda>pg e v p. required (form pg) v (form pg ! e) (dependency_of pg p)),
      (''email'', tested email), (''url'', tested url),
      (''date'', \<lambda>pg e v p. rbind (optional_of (form pg) (form pg ! e)) (\<lambda>optional. Inr (dateMethod optional (date_text pg v)))),
      (''dateISO'', tested dateISO), (''number'', tested numberMethod), (''digits'', tested digitsMethod),
      (''minlength'', measuring (\<lambda>fm v el p. minlength fm v el (param_val p))),
      (''maxlength'', measuring (\<lambda>fm v el p. maxlength fm v el (param_val p))),
      (''rangelength'', measuring (\<lambda>fm v el p. rangelength fm v el (pair_of p))),
      (''min'', valued (\<lambda>optional v p. minMethod optional v (param_val p))),
      (''max'', valued (\<lambda>optional v p. maxMethod optional v (param_val p))),
      (''range'', valued (\<lambda>optional v p. rangeMethod optional v (pair_of p))),
      (''step'', \<lambda>pg e v p. rbind (optional_of (form pg) (form pg ! e)) (\<lambda>optional.
         stepMethod optional v (el_attr_type (form pg ! e)) (param_val p)))]"

definition additional_methods :: "(string \<times> method_call) list" where
  "additional_methods =
     [(''maxWords'', worked (\<lambda>optional s p. maxWords optional s (param_val p))),
      (''minWords'', worked (\<lambda>optional s p. minWords optional s (param_val p))),
      (''rangeWords'', early (\<lambda>optional s p. rangeWords optional s (pair_of p))),
      (''abaRoutingNumber'', always abaRoutingNumber),
      (''accept'', fielded (\<lambda>optional el p. accept optional el (text_param p))),
      (''alphanumeric'', tested alphanumeric), (''bankaccountNL'', bankaccountNL_method),
      (''bankorgiroaccountNL'', bankorgiroaccountNL_method), (''bic'', worked (plainly bic)),
      (''cifES'', worked (flatly cifES)), (''cnhBR'', always cnhBR), (''cnpjBR'', worked (flatly cnpjBR)),
      (''cpfBR'', worked (flatly cpfBR)), (''creditcard'', creditcard_method),
      (''creditcardtypes'', creditcardtypes_method), (''currency'', tested_with currency_method),
      (''dateFA'', tested dateFA), (''dateITA'', dateITA_method), (''dateNL'', tested dateNL),
      (''extension'', worked (\<lambda>optional s p. bad_pattern (extension optional s (text_param p)))),
      (''giroaccountNL'', tested giroaccountNL), (''iban'', worked (flatly iban)), (''integer'', tested integerMethod),
      (''ipv4'', tested ipv4), (''ipv6'', tested ipv6), (''lettersonly'', tested lettersonly),
      (''letterswithbasicpunc'', tested letterswithbasicpunc),
      (''maxfiles'', fielded (\<lambda>optional el p. Inr (Verdict (maxfiles optional el (param_val p))))),
      (''maxsize'', fielded (\<lambda>optional el p. Inr (Verdict (maxsize optional el (param_val p))))),
      (''maxsizetotal'', fielded (\<lambda>optional el p. Inr (Verdict (maxsizetotal optional el (param_val p))))),
      (''mobileNL'', tested mobileNL), (''mobileRU'', early (plainly mobileRU)), (''mobileUK'', early (plainly mobileUK)),
      (''netmask'', tested netmask), (''nieES'', worked (flatly nieES)), (''nifES'', worked (flatly nifES)),
      (''nipPL'', always nipPL), (''nisBR'', always nisBR), (''nowhitespace'', tested nowhitespace),
      (''pattern'', tested_with pattern_method), (''phoneNL'', tested phoneNL), (''phonePL'', early (plainly phonePL)),
      (''phonesUK'', early (plainly phonesUK)), (''phoneUK'', early (plainly phoneUK)), (''phoneUS'', early (plainly phoneUS)),
      (''postalcodeBR'', tested postalcodeBR), (''postalCodeCA'', tested postalCodeCA), (''postalcodeIT'', tested postalcodeIT),
      (''postalcodeNL'', tested postalcodeNL), (''postcodeUK'', tested postcodeUK),
      (''stateUS'', tested_with (\<lambda>optional s p. Inr (stateUS optional s (Some (state_param p))))),
      (''time'', tested timeMethod), (''time12h'', tested time12h), (''url2'', tested url2), (''vinUS'', vinUS_method),
      (''zipcodeUS'', tested zipcodeUS), (''ziprange'', tested ziprange)]"

text \<open>Methods that look at another field and mark it.\<close>

definition compared :: "(input list \<Rightarrow> bool \<Rightarrow> nat list \<Rightarrow> nat \<Rightarrow> jsval \<Rightarrow> blur_state \<Rightarrow> bool \<times> blur_state) \<Rightarrow>
    page \<Rightarrow> nat \<Rightarrow> jsval \<Rightarrow> rule_param \<Rightarrow> vstate \<Rightarrow> vstate \<times> verdict result" where
  "compared f pg e v p st =
     (case f (form pg) (revalidates pg) (selects pg p) e v (blur st) of (b, s) \<Rightarrow> (st\<lparr>blur := s\<rparr>, Inr (Verdict b)))"

definition notEqualTo_method :: "page \<Rightarrow> nat \<Rightarrow> jsval \<Rightarrow> rule_param \<Rightarrow> vstate \<Rightarrow> vstate \<times> verdict result" where
  "notEqualTo_method pg e v p st =
     (case notEqualTo (form pg) (revalidates pg) (selects pg p) e v (blur st) of
        Inl err \<Rightarrow> (st, Inl err)
      | Inr (r, s) \<Rightarrow> (st\<lparr>blur := s\<rparr>, Inr r))"

definition comparing_methods :: "(string \<times> (page \<Rightarrow> nat \<Rightarrow> jsval \<Rightarrow> rule_param \<Rightarrow> vstate \<Rightarrow> vstate \<times> verdict result)) list" where
  "comparing_methods =
     [(''equalTo'', compared equalTo), (''notEqualTo'', notEqualTo_method), (''greaterThan'', compared greaterThan),
      (''greaterThanEqual'', compared greaterThanEqual), (''lessThan'', compared lessThan),
      (''lessThanEqual'', compared lessThanEqual)]"

definition method_named :: "jstr \<Rightarrow> (string \<times> 'm) list \<Rightarrow> 'm option" where
  "method_named m ms = map_of (map (\<lambda>(k, f). (js k, f)) ms) m"

text \<open>The verdict of a method that only looks; an unknown name has no \<open>call\<close>.\<close>

definition pure_verdict :: "page \<Rightarrow> jstr \<Rightarrow> nat \<Rightarrow> jsval \<Rightarrow> rule_param \<Rightarrow> verdict result" where
  "pure_verdict pg m e v p =
     (case map_of (custom_methods pg) m of
        Some f \<Rightarrow> f v e p
      | None \<Rightarrow>
          (case method_named m (core_methods @ additional_methods) of
             Some f \<Rightarrow> f pg e v p
           | None \<Rightarrow> Inl TypeError))"

text \<open>\<open>$.validator.methods[ method ].call( this, val, element, parameters )\<close>\<close>

definition call_method :: "page \<Rightarrow> jstr \<Rightarrow> nat \<Rightarrow> jsval \<Rightarrow> rule_param \<Rightarrow> vstate \<Rightarrow> vstate \<times> verdict result" where
  "call_method pg m e v p st =
     (if map_of (custom_methods pg) m = None \<and> m = js ''remote'' then remote pg e v p st
      else case (if map_of (custom_methods pg) m = None then method_named m comparing_methods else None) of
             Some f \<Rightarrow> f pg e v p st
           | None \<Rightarrow> (st, pure_verdict pg m e v p))"

end
