(* ===== verification/ValidatorCore.thy ===== *)
theory ValidatorCore
  imports ValidatorMethods
begin

text \<open>
  The operations of the validator: checking an element and a form, messages, showing and hiding errors
  (\<open>jquery.validate.js\<close>, \<open>prototype\<close>). An operation that may throw answers a \<open>result\<close> beside the state it
  leaves.
\<close>

definition formatAndAdd :: "page \<Rightarrow> nat \<Rightarrow> jstr \<Rightarrow> rule_param \<Rightarrow> vstate \<Rightarrow> vstate" where
  "formatAndAdd pg e method params st =
     (let message = defaultMessage pg st e method params in
      st\<lparr>errorList := errorList st @ [\<lparr>ei_element = Some e, ei_message = message, ei_method = Some method\<rparr>],
         errorMap := put (name_of pg e) message (errorMap st),
         submitted := put (name_of pg e) message (submitted st)\<rparr>)"

subsection \<open>Checking an element\<close>

text \<open>How the loop over the rules ends.\<close>

datatype check_outcome = Passed | Skipped | Waiting | Broken jstr rule_param | Raised js_error

fun run_rules :: "page \<Rightarrow> nat \<Rightarrow> jsval \<Rightarrow> nat \<Rightarrow> bool \<Rightarrow> rules \<Rightarrow> vstate \<Rightarrow> vstate \<times> check_outcome" where
  "run_rules pg e v rulesCount dependencyMismatch [] st = (st, if dependencyMismatch then Skipped else Passed)"
| "run_rules pg e v rulesCount dependencyMismatch ((method, params) # rs) st =
     (case call_method pg method e v params st of
        (st', Inl err) \<Rightarrow> (st', Raised err)
      | (st', Inr r) \<Rightarrow>
          if r = Mismatch \<and> rulesCount = 1 then run_rules pg e v rulesCount True rs st'
          else if r = Pending then (st', Waiting)
          else if r = Verdict False then (st', Broken method params)
          else run_rules pg e v rulesCount False rs st')"

definition normalized :: "page \<Rightarrow> nat \<Rightarrow> rules \<times> jsval" where
  "normalized pg e =
     (let rules = rules_of pg e; v = elementValue (form pg) (form pg ! e) in
      if map_of rules (js ''normalizer'') = Some PFun
      then (remove (js ''normalizer'') rules, local_normalizer pg e v)
      else (case global_normalizer pg of
              Some f \<Rightarrow> (remove (js ''normalizer'') rules, f e v)
            | None \<Rightarrow> (rules, v)))"

definition check :: "page \<Rightarrow> nat \<Rightarrow> vstate \<Rightarrow> bool option run" where
  "check pg e0 st =
     (case validationTargetFor pg e0 of
        None \<Rightarrow> (st, Inl TypeError)
      | Some e \<Rightarrow>
          (case normalized pg e of
             (rules, v) \<Rightarrow>
               (case run_rules pg e v (length (rules_of pg e)) False rules st of
                  (st', Raised err) \<Rightarrow> (st', Inl err)
                | (st', Waiting) \<Rightarrow> (st'\<lparr>toHide := not_parts (toHide st') (map Label (errorsFor pg e st'))\<rparr>, Inr None)
                | (st', Broken method params) \<Rightarrow> (formatAndAdd pg e method params st', Inr (Some False))
                | (st', Skipped) \<Rightarrow> (st', Inr None)
                | (st', Passed) \<Rightarrow>
                    (if rules_length rules \<noteq> 0 then st'\<lparr>successList := successList st' @ [e]\<rparr> else st',
                     Inr (Some True)))))"

subsection \<open>Showing the errors\<close>

definition new_label :: "page \<Rightarrow> nat \<Rightarrow> jstr \<Rightarrow> label" where
  "new_label pg e message =
     \<lparr>lb_id = idOrName pg e @ js ''-error'', lb_for = (if error_is_label pg then Some (idOrName pg e) else None),
      lb_around = placed_in pg e, lb_html = message, lb_error = True, lb_valid = False, lb_success = False,
      lb_shown = True\<rparr>"

text \<open>The element names its error element in \<open>aria-describedby\<close>, after what stands there.\<close>

definition described :: "jstr option \<Rightarrow> jstr \<Rightarrow> jstr" where
  "described current errorID =
     (case current of
        None \<Rightarrow> errorID
      | Some d \<Rightarrow>
          if d = [] then errorID
          else (case parse_pattern (slashed ''`b'' @ escapeCssMeta errorID @ slashed ''`b'') of
                  Some re \<Rightarrow> if re_test False re d then d else d @ [32] @ errorID
                | None \<Rightarrow> d @ [32] @ errorID))"

definition describe :: "page \<Rightarrow> nat \<Rightarrow> jstr \<Rightarrow> vstate \<Rightarrow> vstate" where
  "describe pg e errorID st =
     (let st1 = update_look e (\<lambda>k. k\<lparr>describedby := Some (described (describedby k) errorID)\<rparr>) st in
      case group_of pg e of
        None \<Rightarrow> st1
      | Some g \<Rightarrow>
          foldl (\<lambda>st (n, testgroup).
              if testgroup = g
              then foldl (\<lambda>st i. update_look i (\<lambda>k. k\<lparr>describedby := Some errorID\<rparr>) st) st (by_name pg n)
              else st) st1 (groups pg))"

definition showLabel :: "page \<Rightarrow> vstate \<Rightarrow> nat \<Rightarrow> jstr option \<Rightarrow> vstate" where
  "showLabel pg st e message =
     (let old_errors = errorsFor pg e st;
          (st1, error) =
            (if old_errors \<noteq> []
             then (foldl (\<lambda>st i. update_label i (\<lambda>l. l\<lparr>lb_valid := False, lb_error := True,
                     lb_html := (case message of Some m \<Rightarrow> m | None \<Rightarrow> lb_html l)\<rparr>) st) st old_errors, old_errors)
             else
               (let l = new_label pg e (case message of Some m \<Rightarrow> m | None \<Rightarrow> []);
                    st' = st\<lparr>labels := labels st @ [l]\<rparr>
                in (if error_is_label pg \<or> idOrName pg e \<in> set (lb_around l) then st' else describe pg e (lb_id l) st',
                    [length (labels st)])));
          st2 =
            (if (message = None \<or> message = Some []) \<and> success pg \<noteq> NoSuccess
             then foldl (\<lambda>st i. update_label i (\<lambda>l. l\<lparr>lb_html := [],
                    lb_success := (success pg = SuccessClass \<or> lb_success l)\<rparr>) st) st1 error
             else st1);
          st3 = (if (message = None \<or> message = Some []) \<and> success pg = SuccessCall
                 then st2\<lparr>actions := actions st2 @ [SuccessCalled e]\<rparr> else st2)
      in st3\<lparr>toShow := add_parts (toShow st3) (map Label error)\<rparr>)"

definition invalidElements :: "vstate \<Rightarrow> nat list" where
  "invalidElements st = concat (map (\<lambda>it. case ei_element it of None \<Rightarrow> [] | Some e \<Rightarrow> [e]) (errorList st))"

definition validElements :: "vstate \<Rightarrow> nat list" where
  "validElements st = filter (\<lambda>e. e \<notin> set (invalidElements st)) (currentElements st)"

text \<open>An error without an element makes \<open>highlight\<close> throw.\<close>

fun show_items :: "page \<Rightarrow> error_item list \<Rightarrow> vstate \<Rightarrow> unit run" where
  "show_items pg [] st = (st, Inr ())"
| "show_items pg (it # its) st =
     (case ei_element it of
        None \<Rightarrow> (st, Inl TypeError)
      | Some e \<Rightarrow> show_items pg its (showLabel pg (highlight pg st e) e (Some (ei_message it))))"

definition finish_showing :: "page \<Rightarrow> vstate \<Rightarrow> vstate" where
  "finish_showing pg st1 =
     (let st2 = (if errorList st1 \<noteq> [] then st1\<lparr>toShow := add_parts (toShow st1) (map Box (containers pg))\<rparr> else st1);
          st3 = (if success pg \<noteq> NoSuccess then foldl (\<lambda>st e. showLabel pg st e None) st2 (successList st2) else st2);
          st4 = foldl (unhighlight pg) st3 (validElements st3);
          st5 = st4\<lparr>toHide := not_parts (toHide st4) (toShow st4)\<rparr>;
          st6 = hideErrors pg st5
      in foldl show_part st6 (toShow st6))"

definition defaultShowErrors :: "page \<Rightarrow> vstate \<Rightarrow> unit run" where
  "defaultShowErrors pg st =
     run_bind (show_items pg (errorList st) st) (\<lambda>st1 _. (finish_showing pg st1, Inr ()))"

text \<open>\<open>showErrors\<close> without and with messages by name; the setting \<open>showErrors\<close> is the default.\<close>

definition showErrors :: "page \<Rightarrow> jstr obj option \<Rightarrow> vstate \<Rightarrow> unit run" where
  "showErrors pg new st =
     defaultShowErrors pg
       (case new of
          None \<Rightarrow> st
        | Some es \<Rightarrow>
            let m = extend_obj (errorMap st) es in
            st\<lparr>errorMap := m,
               errorList := map (\<lambda>(n, msg). \<lparr>ei_element = (case by_name pg n of [] \<Rightarrow> None | e # _ \<Rightarrow> Some e),
                                              ei_message = msg, ei_method = None\<rparr>) m,
               successList := filter (\<lambda>e. \<not> has_key (name_of pg e) es) (successList st)\<rparr>)"

subsection \<open>Checking a form\<close>

text \<open>The first element of each name that has rules; \<open>in\<close> finds inherited names too.\<close>

fun pick_elements :: "page \<Rightarrow> bool obj \<Rightarrow> nat list \<Rightarrow> nat list" where
  "pick_elements pg rulesCache [] = []"
| "pick_elements pg rulesCache (i # is) =
     (let el = form pg ! i in
      if el_skip el \<or> el_ignored el \<or> \<not> el_own el then pick_elements pg rulesCache is
      else if has_key (el_name el) rulesCache \<or> rules_length (rules_of pg i) = 0 then pick_elements pg rulesCache is
      else i # pick_elements pg (put (el_name el) True rulesCache) is)"

definition elements :: "page \<Rightarrow> nat list" where
  "elements pg = pick_elements pg [] [0..<length (form pg)]"

fun check_all :: "page \<Rightarrow> nat list \<Rightarrow> vstate \<Rightarrow> unit run" where
  "check_all pg [] st = (st, Inr ())"
| "check_all pg (e # es) st = run_bind (check pg e st) (\<lambda>st' _. check_all pg es st')"

definition checkForm :: "page \<Rightarrow> vstate \<Rightarrow> bool run" where
  "checkForm pg st =
     run_bind (check_all pg (elements pg) ((prepareForm pg st)\<lparr>currentElements := elements pg\<rparr>))
       (\<lambda>st' _. (st', Inr (valid st')))"

definition text_vals :: "jstr obj \<Rightarrow> jsval obj" where
  "text_vals ob = map (\<lambda>(k, m). (k, VText m)) ob"

definition note_form :: "vstate \<Rightarrow> vstate" where
  "note_form st1 =
     (let st2 = st1\<lparr>submitted := extend_obj (submitted st1) (errorMap st1), invalid := text_vals (errorMap st1)\<rparr>
      in if valid st2 then st2 else st2\<lparr>actions := actions st2 @ [InvalidForm]\<rparr>)"

definition form_check :: "page \<Rightarrow> vstate \<Rightarrow> bool run" where
  "form_check pg st =
     run_bind (checkForm pg st) (\<lambda>st1 _.
       run_bind (showErrors pg None (note_form st1)) (\<lambda>st2 _. (st2, Inr (valid st2))))"

text \<open>The other elements of the group that are known to be invalid.\<close>

fun check_group :: "page \<Rightarrow> jstr \<Rightarrow> jstr \<Rightarrow> jstr obj \<Rightarrow> bool \<Rightarrow> vstate \<Rightarrow> bool run" where
  "check_group pg g n [] ok st = (st, Inr ok)"
| "check_group pg g n ((m, testgroup) # gs) ok st =
     (if testgroup = g \<and> m \<noteq> n
      then (case by_name pg m of
              [] \<Rightarrow> (st, Inl TypeError)
            | i # _ \<Rightarrow>
                (case validationTargetFor pg i of
                   None \<Rightarrow> check_group pg g n gs ok st
                 | Some c \<Rightarrow>
                     if has_key (name_of pg c) (invalid st)
                     then run_bind (check pg c (st\<lparr>currentElements := currentElements st @ [c]\<rparr>))
                            (\<lambda>st' r. check_group pg g n gs (r = Some True \<and> ok) st')
                     else check_group pg g n gs ok st))
      else check_group pg g n gs ok st)"

definition note_element :: "page \<Rightarrow> nat \<Rightarrow> bool \<Rightarrow> vstate \<Rightarrow> vstate" where
  "note_element pg c rs st =
     (let st1 = st\<lparr>invalid := put (name_of pg c) (VBool (\<not> rs)) (invalid st)\<rparr>
      in if numberOfInvalids st1 = 0 then st1\<lparr>toHide := add_parts (toHide st1) (map Box (containers pg))\<rparr> else st1)"

definition element_check :: "page \<Rightarrow> nat \<Rightarrow> vstate \<Rightarrow> bool run" where
  "element_check pg e st =
     (case validationTargetFor pg e of
        None \<Rightarrow> (st\<lparr>invalid := remove (name_of pg e) (invalid st)\<rparr>, Inr True)
      | Some c \<Rightarrow>
          let st1 = (prepareElement pg c st)\<lparr>currentElements := [c]\<rparr> in
          run_bind (case group_of pg c of
              None \<Rightarrow> (st1, Inr True)
            | Some g \<Rightarrow> check_group pg g (name_of pg c) (groups pg) True st1) (\<lambda>st2 result.
          run_bind (check pg c st2) (\<lambda>st3 r.
          run_bind (showErrors pg None (note_element pg c (r \<noteq> Some False) st3)) (\<lambda>st4 _.
            (update_look e (\<lambda>k. k\<lparr>aria_invalid := Some (r = Some False)\<rparr>) st4, Inr (result \<and> r \<noteq> Some False))))))"

definition resetForm :: "page \<Rightarrow> vstate \<Rightarrow> vstate" where
  "resetForm pg st =
     (let st1 = hideErrors pg (prepareForm pg (st\<lparr>invalid := [], submitted := []\<rparr>));
          es = elements pg;
          st2 = st1\<lparr>previous_of := (\<lambda>e. if e \<in> set es then None else previous_of st1 e),
                     looks := (\<lambda>e. if e \<in> set es then (looks st1 e)\<lparr>aria_invalid := None\<rparr> else looks st1 e)\<rparr>
      in resetElements pg es st2)"

text \<open>\<open>$( elements ).valid()\<close> for a form and for elements.\<close>

fun valid_elements :: "page \<Rightarrow> nat list \<Rightarrow> bool \<Rightarrow> error_item list \<Rightarrow> vstate \<Rightarrow> bool run" where
  "valid_elements pg [] ok acc st = (st\<lparr>errorList := acc\<rparr>, Inr ok)"
| "valid_elements pg (e # es) ok acc st =
     run_bind (element_check pg e st) (\<lambda>st' r.
       let ok' = (r \<and> ok) in
       valid_elements pg es ok' (if ok' then acc else acc @ errorList st') st')"

subsection \<open>Focus\<close>

definition findLastActive :: "page \<Rightarrow> vstate \<Rightarrow> nat option" where
  "findLastActive pg st =
     (case lastActive st of
        None \<Rightarrow> None
      | Some a \<Rightarrow>
          if length (filter (\<lambda>it. map_option (name_of pg) (ei_element it) = Some (name_of pg a)) (errorList st)) = 1
          then Some a else None)"

text \<open>The handlers of the page see an element of the form that is not ignored and of a type they were bound for.\<close>

definition delegated_types :: "jstr list" where
  "delegated_types = map js
     [''password'', ''file'', ''number'', ''search'', ''tel'', ''url'', ''email'', ''datetime'', ''date'', ''month'', ''week'',
      ''time'', ''datetime-local'', ''range'', ''color'', ''radio'', ''checkbox'', ''button'']"

definition attr_type :: "input \<Rightarrow> jstr" where
  "attr_type el = (case el_attr_type el of None \<Rightarrow> [] | Some t \<Rightarrow> js_lower t)"

definition field_delegated :: "input \<Rightarrow> bool" where
  "field_delegated el =
     (let node = js_lower (el_node el) in
      node = js ''input'' \<and> el_type el = js ''text'' \<and> (el_attr_type el = None \<or> attr_type el = js ''text'')
      \<or> attr_type el \<in> set delegated_types \<or> node \<in> {js ''select'', js ''textarea''} \<or> el_text el \<noteq> None)"

definition click_delegated :: "input \<Rightarrow> bool" where
  "click_delegated el = (js_lower (el_node el) = js ''select'' \<or> attr_type el \<in> {js ''radio'', js ''checkbox''})"

definition delegate :: "(input \<Rightarrow> bool) \<Rightarrow> page \<Rightarrow> nat \<Rightarrow> (vstate \<Rightarrow> 'a run) \<Rightarrow> 'a \<Rightarrow> vstate \<Rightarrow> 'a run" where
  "delegate matches pg e handler nothing st =
     (let el = form pg ! e in
      if \<not> matches el then (st, Inr nothing)
      else if \<not> el_own el then (st, Inr nothing)
      else if \<not> el_ignored el then handler st
      else (st, Inr nothing))"

definition onfocusin :: "page \<Rightarrow> nat \<Rightarrow> vstate \<Rightarrow> unit run" where
  "onfocusin pg e st =
     (let st1 = st\<lparr>lastActive := Some e\<rparr>;
          st2 = (if focusCleanup pg
                 then (let st' = unhighlight pg st1 e in hideThese pg (map Label (errorsFor pg e st')) st')
                 else st1)
      in (st2, Inr ()))"

text \<open>
  \<open>focusInvalid\<close> gives the focus to the last active element when it has the only error of its name, or to
  the first element with an error, if that is visible, and triggers \<open>focusin\<close> on it. An error without an
  element makes the search throw, which is caught.
\<close>

definition focusInvalid :: "page \<Rightarrow> vstate \<Rightarrow> vstate" where
  "focusInvalid pg st =
     (if focus_invalid pg \<and> \<not> (lastActive st \<noteq> None \<and> list_ex (\<lambda>it. ei_element it = None) (errorList st))
      then (case (case findLastActive pg st of
                    Some a \<Rightarrow> Some a
                  | None \<Rightarrow> (case errorList st of [] \<Rightarrow> None | it # _ \<Rightarrow> ei_element it)) of
              None \<Rightarrow> st
            | Some e \<Rightarrow>
                if visible pg e
                then fst (delegate field_delegated pg e (onfocusin pg e) () (st\<lparr>actions := actions st @ [Focus e]\<rparr>))
                else st)
      else st)"

end
