(* ===== verification/ValidatorEvents.thy ===== *)
theory ValidatorEvents
  imports ValidatorCore
begin

text \<open>
  What reaches the validator: the focus and the keys on the fields, clicks, submissions of the form and
  the answers to remote requests (\<open>jquery.validate.js\<close>, \<open>validate\<close>, \<open>defaults\<close>, \<open>stopRequest\<close> and the
  callback of \<open>remote\<close>).
\<close>

subsection \<open>Events on fields\<close>

definition focusout_revalidates :: "page \<Rightarrow> nat \<Rightarrow> vstate \<Rightarrow> bool result" where
  "focusout_revalidates pg e st =
     (if checkable (form pg ! e) then Inr False
      else if has_key (name_of pg e) (submitted st) then Inr True
      else rbind (optional_of (form pg) (form pg ! e)) (\<lambda>b. Inr (\<not> b)))"

definition onfocusout :: "page \<Rightarrow> nat \<Rightarrow> vstate \<Rightarrow> bool run" where
  "onfocusout pg e st =
     (case focusout_revalidates pg e st of
        Inl err \<Rightarrow> (st, Inl err)
      | Inr b \<Rightarrow> if b then element_check pg e st else (st, Inr True))"

definition excludedKeys :: "nat list" where
  "excludedKeys = [16, 17, 18, 20, 35, 36, 37, 38, 39, 40, 45, 144, 225]"

definition onkeyup :: "page \<Rightarrow> nat \<Rightarrow> nat \<Rightarrow> vstate \<Rightarrow> bool run" where
  "onkeyup pg e key st =
     (if key = 9 \<and> elementValue (form pg) (form pg ! e) = VText [] \<or> key \<in> set excludedKeys then (st, Inr True)
      else if has_key (name_of pg e) (submitted st) \<or> has_key (name_of pg e) (invalid st) then element_check pg e st
      else (st, Inr True))"

text \<open>
  \<open>onclick\<close> on a control, whose parent is no control and has no name; a click on an option is taken as
  one on its \<open>select\<close>, the parent.
\<close>

definition onclick :: "page \<Rightarrow> nat \<Rightarrow> vstate \<Rightarrow> bool run" where
  "onclick pg e st = (if has_key (name_of pg e) (submitted st) then element_check pg e st else (st, Inr True))"

text \<open>The handler that a comparison method gave its target.\<close>

definition on_target_blur :: "page \<Rightarrow> nat \<Rightarrow> vstate \<Rightarrow> bool run" where
  "on_target_blur pg t st =
     foldl (\<lambda>r (kind, t', e). run_bind r (\<lambda>st' _. if t' = t then valid_elements pg [e] True [] st' else (st', Inr True)))
       (st, Inr True) (on_blur (blur st))"

subsection \<open>Submitting\<close>

text \<open>
  A click on a submit button: \<open>b\<close> is the button, \<open>cancel\<close> tells that it has the class \<open>cancel\<close> or the
  attribute \<open>formnovalidate\<close>.
\<close>

definition submit_click :: "nat \<Rightarrow> bool \<Rightarrow> vstate \<Rightarrow> vstate" where
  "submit_click b cancel st =
     (let st1 = st\<lparr>submitButton := Some b\<rparr> in if cancel then st1\<lparr>cancelSubmit := True\<rparr> else st1)"

text \<open>\<open>handle\<close> answers whether the submission goes on.\<close>

definition handle :: "page \<Rightarrow> vstate \<Rightarrow> vstate \<times> bool" where
  "handle pg st =
     (let hidden = (if submitHandler pg \<noteq> None \<or> formSubmitted st then submitButton st else None);
          st1 = (case hidden of None \<Rightarrow> st | Some b \<Rightarrow> st\<lparr>actions := actions st @ [HiddenAdded b]\<rparr>)
      in case (if debug pg then None else submitHandler pg) of
           Some result \<Rightarrow>
             (st1\<lparr>actions := actions st1 @ [HandlerCalled] @ (case hidden of None \<Rightarrow> [] | Some b \<Rightarrow> [HiddenRemoved b])\<rparr>,
              case result of Some b \<Rightarrow> b | None \<Rightarrow> False)
         | None \<Rightarrow> (st1, True))"

definition submit_handler :: "page \<Rightarrow> vstate \<Rightarrow> bool run" where
  "submit_handler pg st =
     (if cancelSubmit st
      then (case handle pg (st\<lparr>cancelSubmit := False\<rparr>) of (st', b) \<Rightarrow> (st', Inr b))
      else run_bind (form_check pg st) (\<lambda>st1 ok.
        if ok
        then (if pendingRequest st1 \<noteq> 0 then (st1\<lparr>formSubmitted := True\<rparr>, Inr False)
              else (case handle pg st1 of (st', b) \<Rightarrow> (st', Inr b)))
        else (focusInvalid pg st1, Inr False)))"

definition submits :: "vstate \<Rightarrow> vstate" where
  "submits st = st\<lparr>actions := actions st @ [Submits]\<rparr>"

text \<open>
  The browser submits the form unless the handler answered \<open>false\<close> or prevented it; an error thrown by the
  handler does not stop the browser. \<open>debug\<close> prevents the submission before everything else.
\<close>

definition user_submit :: "page \<Rightarrow> vstate \<Rightarrow> vstate" where
  "user_submit pg st =
     (case submit_handler pg st of
        (st1, Inl err) \<Rightarrow> if debug pg then st1 else submits st1
      | (st1, Inr go) \<Rightarrow> if go \<and> \<not> debug pg then submits st1 else st1)"

text \<open>\<open>trigger( "submit" )\<close> runs the handler in its own call, so an error leaves \<open>trigger\<close> and nothing is submitted.\<close>

definition trigger_submit :: "page \<Rightarrow> vstate \<Rightarrow> unit run" where
  "trigger_submit pg st =
     run_bind (submit_handler pg st) (\<lambda>st1 go. (if go \<and> \<not> debug pg then submits st1 else st1, Inr ()))"

subsection \<open>Answers to remote requests\<close>

definition stopRequest :: "page \<Rightarrow> nat \<Rightarrow> bool \<Rightarrow> vstate \<Rightarrow> unit run" where
  "stopRequest pg e ok st =
     (let n = pendingRequest st - 1;
          st1 = update_look e (\<lambda>k. k\<lparr>lk_pending := False\<rparr>)
                  (st\<lparr>pendingRequest := (if n < 0 then 0 else n), pending := remove (name_of pg e) (pending st)\<rparr>)
      in if ok \<and> pendingRequest st1 = 0 \<and> formSubmitted st1
         then run_bind (form_check pg st1) (\<lambda>st2 fine.
           if fine \<and> pendingRequest st2 = 0
           then run_bind (trigger_submit pg st2) (\<lambda>st3 _.
             (st3\<lparr>actions := actions st3 @ (case submitButton st3 of None \<Rightarrow> [] | Some b \<Rightarrow> [HiddenRemoved b]),
                  formSubmitted := False\<rparr>, Inr ()))
           else (st2, Inr ()))
         else if \<not> ok \<and> pendingRequest st1 = 0 \<and> formSubmitted st1
         then (st1\<lparr>actions := actions st1 @ [InvalidForm], formSubmitted := False\<rparr>, Inr ())
         else (st1, Inr ()))"

text \<open>
  The JSON of an answer: \<open>true\<close>, a text, or a value that counts as false. Answers that count as true and are no texts
  (numbers, lists, objects), which the plugin would show as messages, are left out.
\<close>

datatype response = RTrue | RText jstr | RFalsy

definition accepts :: "response \<Rightarrow> bool" where
  "accepts r = (r = RTrue \<or> r = RText (js ''true''))"

definition response_message :: "page \<Rightarrow> nat \<Rightarrow> jsval \<Rightarrow> response \<Rightarrow> vstate \<Rightarrow> jstr" where
  "response_message pg e v r st =
     (case r of
        RText s \<Rightarrow> if s = [] then defaultMessage pg st e (js ''remote'') (P v) else s
      | _ \<Rightarrow> defaultMessage pg st e (js ''remote'') (P v))"

definition remote_success :: "page \<Rightarrow> jstr \<Rightarrow> response \<Rightarrow> vstate \<Rightarrow> unit run" where
  "remote_success pg n response st =
     (case map_of (inflight st) n of
        None \<Rightarrow> (st, Inr ())
      | Some (e, v, i) \<Rightarrow>
          let st0 = st\<lparr>inflight := remove n (inflight st)\<rparr>;
              ok = accepts response;
              st1 = set_own_message n (originalMessage (previouses st0 ! i)) st0;
              shown =
                (if ok
                 then (let st2 = resetInternals st1;
                           st3 = st2\<lparr>toHide := map Label (errorsFor pg e st2),
                                     successList := successList st2 @ [e],
                                     invalid := put n (VBool False) (invalid st2)\<rparr>
                       in showErrors pg None st3)
                 else (let message = response_message pg e v response st1;
                           st2 = update_previous i (\<lambda>p. p\<lparr>prev_message := message\<rparr>) st1;
                           st3 = st2\<lparr>invalid := put n (VBool True) (invalid st2)\<rparr>
                       in showErrors pg (Some [(n, message)]) st3))
          in run_bind shown (\<lambda>st4 _.
               stopRequest pg e ok (update_previous i (\<lambda>p. p\<lparr>prev_valid := ok\<rparr>) st4)))"

text \<open>A request that fails or times out calls nothing back: the request is gone and its field stays pending.\<close>

definition remote_failure :: "jstr \<Rightarrow> vstate \<Rightarrow> vstate" where
  "remote_failure n st = st\<lparr>inflight := remove n (inflight st)\<rparr>"

subsection \<open>Taking the plugin away\<close>

text \<open>
  \<open>destroy\<close> resets the form and takes off the handlers of the form. The chain of \<open>find\<close> looks for each
  further class below the elements of the class before, and fields hold no fields, so only the marks of
  \<open>equalTo\<close> inside the form go.
\<close>

definition destroy :: "page \<Rightarrow> vstate \<Rightarrow> vstate" where
  "destroy pg st =
     (let st1 = resetForm pg st;
          found = (\<lambda>(kind, t). kind = EqualTo \<and> t < length (form pg))
      in st1\<lparr>blur := \<lparr>marked = filter (\<lambda>m. \<not> found m) (marked (blur st1)),
                      on_blur = filter (\<lambda>(kind, t, e). \<not> (found (kind, t) \<and> (kind, t) \<in> set (marked (blur st1)))) (on_blur (blur st1))\<rparr>\<rparr>)"

subsection \<open>The validator as a machine\<close>

datatype event =
    FocusIn nat | FocusOut nat | KeyUp nat nat | Click nat | TargetBlur nat
  | SubmitClick nat bool | Submit | Response jstr response | Failure jstr | ResetForm

text \<open>An error that leaves a handler ends the handler; the state it left stays.\<close>

definition handles :: "page \<Rightarrow> event \<Rightarrow> vstate \<Rightarrow> vstate" where
  "handles pg ev st =
     (case ev of
        FocusIn e \<Rightarrow> fst (delegate field_delegated pg e (onfocusin pg e) () st)
      | FocusOut e \<Rightarrow> fst (delegate field_delegated pg e (onfocusout pg e) True st)
      | KeyUp e key \<Rightarrow> fst (delegate field_delegated pg e (onkeyup pg e key) True st)
      | Click e \<Rightarrow> fst (delegate click_delegated pg e (onclick pg e) True st)
      | TargetBlur t \<Rightarrow> fst (on_target_blur pg t st)
      | SubmitClick b cancel \<Rightarrow> submit_click b cancel st
      | Submit \<Rightarrow> user_submit pg st
      | Response n r \<Rightarrow> fst (remote_success pg n r st)
      | Failure n \<Rightarrow> remote_failure n st
      | ResetForm \<Rightarrow> resetForm pg st)"

text \<open>
  The fields change between the events, so every event meets a page of its own; \<open>same_fields\<close> keeps what
  does not change: the names and the methods.
\<close>

definition same_fields :: "page \<Rightarrow> page \<Rightarrow> bool" where
  "same_fields pg pg' = (map el_name (form pg) = map el_name (form pg') \<and> custom_methods pg = custom_methods pg')"

fun event_in_form :: "page \<Rightarrow> event \<Rightarrow> bool" where
  "event_in_form pg (FocusIn e) = (e < length (form pg))"
| "event_in_form pg (FocusOut e) = (e < length (form pg))"
| "event_in_form pg (KeyUp e key) = (e < length (form pg))"
| "event_in_form pg (Click e) = (e < length (form pg))"
| "event_in_form pg _ = True"

inductive validator_step :: "page \<Rightarrow> vstate \<Rightarrow> vstate \<Rightarrow> bool" for pg0 where
  event: "same_fields pg0 pg \<Longrightarrow> event_in_form pg ev \<Longrightarrow> validator_step pg0 st (handles pg ev st)"

end
