(* ===== verification/ValidatorFrames.thy ===== *)
theory ValidatorFrames
  imports ValidatorEvents
begin

text \<open>
  Which operations of the validator touch which part of its state. \<open>core\<close> blanks what only shows
  (labels, classes, containers, focus, actions), \<open>kept_notes\<close> what a method may change (requests, their
  memory, the marks of compared fields).
\<close>

definition blank_look :: look where
  "blank_look = \<lparr>lk_error = False, lk_valid = False, lk_pending = False, aria_invalid = None, describedby = None\<rparr>"

definition core :: "vstate \<Rightarrow> vstate" where
  "core st = st\<lparr>labels := [], looks := \<lambda>_. blank_look, boxes := \<lambda>_. False, toShow := [], toHide := [],
     lastActive := None, actions := []\<rparr>"

definition kept_notes :: "vstate \<Rightarrow> vstate" where
  "kept_notes st = st\<lparr>looks := \<lambda>_. blank_look, pendingRequest := 0, pending := [], inflight := [], previouses := [],
     previous_of := \<lambda>_. None, customs := [], blur := \<lparr>marked = [], on_blur = []\<rparr>, actions := []\<rparr>"

lemma core_eqD:
  assumes "core s = core t"
  shows "pendingRequest s = pendingRequest t" "pending s = pending t" "inflight s = inflight t"
    "previouses s = previouses t" "previous_of s = previous_of t" "customs s = customs t" "blur s = blur t"
    "errorList s = errorList t" "errorMap s = errorMap t" "successList s = successList t"
    "currentElements s = currentElements t" "submitted s = submitted t" "invalid s = invalid t"
    "formSubmitted s = formSubmitted t" "cancelSubmit s = cancelSubmit t" "submitButton s = submitButton t"
  using assms by (cases s; cases t; simp add: core_def)+

lemma notes_eqD:
  assumes "kept_notes s = kept_notes t"
  shows "errorList s = errorList t" "errorMap s = errorMap t" "successList s = successList t"
    "currentElements s = currentElements t" "submitted s = submitted t" "invalid s = invalid t"
    "formSubmitted s = formSubmitted t" "cancelSubmit s = cancelSubmit t" "submitButton s = submitButton t"
    "labels s = labels t" "boxes s = boxes t" "toShow s = toShow t" "toHide s = toHide t" "lastActive s = lastActive t"
  using assms by (cases s; cases t; simp add: kept_notes_def)+

lemma core_updates [simp]:
  "core (st\<lparr>labels := a\<rparr>) = core st" "core (st\<lparr>looks := b\<rparr>) = core st" "core (st\<lparr>boxes := c\<rparr>) = core st"
  "core (st\<lparr>toShow := d\<rparr>) = core st" "core (st\<lparr>toHide := d\<rparr>) = core st" "core (st\<lparr>lastActive := f\<rparr>) = core st"
  "core (st\<lparr>actions := g\<rparr>) = core st"
  by (simp_all add: core_def)

lemma core_foldl: "(\<And>s x. core (f s x) = core s) \<Longrightarrow> core (foldl f s xs) = core s"
  by (induction xs arbitrary: s) simp_all

lemma core_display [simp]:
  "core (update_label i g st) = core st" "core (update_look e h st) = core st"
  "core (hide_part pg st p) = core st" "core (show_part st p) = core st"
  by (simp_all add: update_label_def update_look_def hide_part_def show_part_def split: part.split)

lemma core_highlight [simp]: "core (highlight pg st e) = core st" "core (unhighlight pg st e) = core st"
  by (simp_all add: highlight_def unhighlight_def core_foldl)

lemma core_hideThese [simp]: "core (hideThese pg ps st) = core st" "core (hideErrors pg st) = core st"
  by (simp_all add: hideThese_def hideErrors_def core_foldl)

lemma core_describe [simp]: "core (describe pg e d st) = core st"
proof -
  have "core (foldl (\<lambda>st (n, testgroup). if testgroup = g
      then foldl (\<lambda>st i. update_look i (\<lambda>k. k\<lparr>describedby := Some d\<rparr>) st) st (by_name pg n) else st) s gs) = core s" for g :: jstr and s gs
    by (rule core_foldl) (simp add: core_foldl split: prod.split)
  then show ?thesis
    unfolding describe_def Let_def by (cases "group_of pg e") (simp_all only: option.case core_display)
qed

lemma core_showLabel [simp]: "core (showLabel pg st e m) = core st"
  by (simp add: showLabel_def Let_def core_foldl split: option.split)

lemma core_show_items: "core (fst (show_items pg its st)) = core st"
  by (induction pg its st rule: show_items.induct) (simp_all split: option.split)

lemma core_finish_showing [simp]: "core (finish_showing pg st) = core st"
  by (simp add: finish_showing_def Let_def core_foldl)

lemma core_defaultShowErrors: "core (fst (defaultShowErrors pg st)) = core st"
  using core_show_items [of pg "errorList st" st]
  by (cases "show_items pg (errorList st) st"; cases "snd (show_items pg (errorList st) st)")
    (auto simp: defaultShowErrors_def)

lemma core_showErrors_None [simp]: "core (fst (showErrors pg None st)) = core st"
  by (simp add: showErrors_def core_defaultShowErrors)

lemma core_delegate: "(\<And>s. core (fst (h s)) = core s) \<Longrightarrow> core (fst (delegate m pg e h x st)) = core st"
  by (simp add: delegate_def Let_def)

lemma core_onfocusin: "core (fst (onfocusin pg e st)) = core st"
  by (simp add: onfocusin_def Let_def)

lemma core_focusInvalid [simp]: "core (focusInvalid pg st) = core st"
  by (auto simp: focusInvalid_def core_delegate core_onfocusin split: option.split list.split)

lemma core_submits [simp]: "core (submits st) = core st"
  by (simp add: submits_def)

lemma core_handle: "core (fst (handle pg st)) = core st"
  by (simp add: handle_def Let_def split: option.split)

subsection \<open>What a method changes\<close>

lemma notes_updates [simp]:
  "kept_notes (st\<lparr>looks := b\<rparr>) = kept_notes st" "kept_notes (st\<lparr>pendingRequest := c\<rparr>) = kept_notes st" "kept_notes (st\<lparr>pending := d\<rparr>) = kept_notes st"
  "kept_notes (st\<lparr>inflight := f\<rparr>) = kept_notes st" "kept_notes (st\<lparr>previouses := g\<rparr>) = kept_notes st" "kept_notes (st\<lparr>previous_of := h\<rparr>) = kept_notes st"
  "kept_notes (st\<lparr>customs := k\<rparr>) = kept_notes st" "kept_notes (st\<lparr>blur := l\<rparr>) = kept_notes st" "kept_notes (st\<lparr>actions := m\<rparr>) = kept_notes st"
  by (simp_all add: kept_notes_def)

lemma notes_request [simp]:
  "kept_notes (update_look e h st) = kept_notes st" "kept_notes (startRequest pg e st) = kept_notes st"
  "kept_notes (fst (previousValue pg e st)) = kept_notes st" "kept_notes (update_previous i f st) = kept_notes st"
  "kept_notes (own_messages n st) = kept_notes st" "kept_notes (set_own_message n m st) = kept_notes st"
  "kept_notes (remember_message n i st) = kept_notes st" "kept_notes (send_request pg e v i st) = kept_notes st"
proof -
  show look: "kept_notes (update_look e h st) = kept_notes st" for e h st
    by (simp add: update_look_def)
  show "kept_notes (startRequest pg e st) = kept_notes st" by (simp add: startRequest_def look)
  show "kept_notes (fst (previousValue pg e st)) = kept_notes st" by (simp add: previousValue_def split: option.split)
  show prev: "kept_notes (update_previous i f st) = kept_notes st" for i f st by (simp add: update_previous_def)
  show own: "kept_notes (own_messages n st) = kept_notes st" for n st by (simp add: own_messages_def)
  show set: "kept_notes (set_own_message n m st) = kept_notes st" for n m st
    by (simp add: set_own_message_def split: option.split custom.split)
  show "kept_notes (remember_message n i st) = kept_notes st"
    by (simp only: remember_message_def Let_def set prev own)
  show "kept_notes (send_request pg e v i st) = kept_notes st" by (simp add: send_request_def abort_port_def Let_def)
qed

lemma notes_remote: "kept_notes (fst (remote pg e v p st)) = kept_notes st"
proof (cases "optional_of (form pg) (form pg ! e)")
  case (Inr b)
  obtain s i where p: "previousValue pg e st = (s, i)" by fastforce
  then have "kept_notes s = kept_notes st" using notes_request(3) [of pg e st] by simp
  with p Inr show ?thesis by (cases b) (simp_all add: remote_def Let_def)
qed (simp add: remote_def)

text \<open>A comparison method binds a handler of its kind, and does nothing else to the state.\<close>

definition binds :: "comparison \<Rightarrow> (input list \<Rightarrow> bool \<Rightarrow> nat list \<Rightarrow> nat \<Rightarrow> jsval \<Rightarrow> blur_state \<Rightarrow> bool \<times> blur_state) \<Rightarrow> bool" where
  "binds kind g \<longleftrightarrow> (\<exists>h. \<forall>fm on ts e v s. g fm on ts e v s = (h fm ts v, bind_blur kind on ts e s))"

lemma binds_methods: "binds EqualTo equalTo" "binds GreaterThan greaterThan" "binds GreaterThanEqual greaterThanEqual"
  "binds LessThan lessThan" "binds LessThanEqual lessThanEqual"
  by (auto simp: binds_def fun_eq_iff equalTo_def greaterThan_def greaterThanEqual_def lessThan_def lessThanEqual_def)

lemma comparing_methods_named: "method_named m comparing_methods = Some f \<Longrightarrow>
    (\<exists>g kind. f = compared g \<and> binds kind g) \<or> f = notEqualTo_method"
  using binds_methods by (auto simp: method_named_def comparing_methods_def split: if_splits)

lemma call_method_cases:
  obtains (remote) "m = js ''remote''" "call_method pg m e v p = remote pg e v p"
  | (compared) g kind where "m \<noteq> js ''remote''" "binds kind g" "call_method pg m e v p = compared g pg e v p"
  | (notEqualTo) "m \<noteq> js ''remote''" "call_method pg m e v p = notEqualTo_method pg e v p"
  | (pure) "call_method pg m e v p = (\<lambda>st. (st, pure_verdict pg m e v p))"
proof (cases "map_of (custom_methods pg) m")
  case (Some h)
  then have "call_method pg m e v p = (\<lambda>st. (st, pure_verdict pg m e v p))"
    by (intro ext) (simp add: call_method_def)
  then show thesis by (rule pure)
next
  case None
  show thesis
  proof (cases "m = js ''remote''")
    case True
    with None have "call_method pg m e v p = remote pg e v p" by (intro ext) (simp add: call_method_def)
    with True show thesis by (rule remote)
  next
    case False
    show thesis
    proof (cases "method_named m comparing_methods")
      case None': None
      with None False have "call_method pg m e v p = (\<lambda>st. (st, pure_verdict pg m e v p))"
        by (intro ext) (simp add: call_method_def)
      then show thesis by (rule pure)
    next
      case (Some f)
      with None False have "call_method pg m e v p = f pg e v p" by (intro ext) (simp add: call_method_def)
      with comparing_methods_named [OF Some] False compared notEqualTo show thesis by metis
    qed
  qed
qed

lemma notes_compared: "kept_notes (fst (compared f pg e v p st)) = kept_notes st"
  by (simp add: compared_def split: prod.split)

lemma notes_notEqualTo: "kept_notes (fst (notEqualTo_method pg e v p st)) = kept_notes st"
  by (simp add: notEqualTo_method_def split: prod.split sum.split)

lemma notes_call_method: "kept_notes (fst (call_method pg m e v p st)) = kept_notes st"
  by (rule call_method_cases [of m pg e v p]) (simp_all add: notes_remote notes_compared notes_notEqualTo)

end
