(* ===== verification/ValidatorRequests.thy ===== *)
theory ValidatorRequests
  imports ValidatorFrames Machines
begin

text \<open>
  The bookkeeping of remote requests. The locale \<open>request_keeper\<close> is the contract between the methods and
  the rest of the validator: a fact about the requests that every method keeps is kept by every operation
  that only checks and shows. \<open>answer_keeper\<close> adds what an answer does.
\<close>

definition requests :: "vstate \<Rightarrow> int \<times> bool obj \<times> (nat \<times> jsval \<times> nat) obj \<times> blur_state" where
  "requests st = (pendingRequest st, pending st, inflight st, blur st)"

lemma requests_core: "core s = core t \<Longrightarrow> requests s = requests t"
  using core_eqD [of s t] by (simp add: requests_def)

lemma requests_updates [simp]:
  "requests (st\<lparr>errorList := a\<rparr>) = requests st" "requests (st\<lparr>errorMap := b\<rparr>) = requests st"
  "requests (st\<lparr>successList := c\<rparr>) = requests st" "requests (st\<lparr>currentElements := c\<rparr>) = requests st"
  "requests (st\<lparr>submitted := b\<rparr>) = requests st" "requests (st\<lparr>invalid := d\<rparr>) = requests st"
  "requests (st\<lparr>formSubmitted := f\<rparr>) = requests st" "requests (st\<lparr>cancelSubmit := f\<rparr>) = requests st"
  "requests (st\<lparr>submitButton := g\<rparr>) = requests st" "requests (st\<lparr>previouses := h\<rparr>) = requests st"
  "requests (st\<lparr>previous_of := k\<rparr>) = requests st" "requests (st\<lparr>customs := l\<rparr>) = requests st"
  "requests (st\<lparr>toHide := m\<rparr>) = requests st" "requests (st\<lparr>toShow := m\<rparr>) = requests st"
  "requests (st\<lparr>looks := n\<rparr>) = requests st" "requests (st\<lparr>labels := q\<rparr>) = requests st"
  "requests (st\<lparr>actions := r\<rparr>) = requests st" "requests (st\<lparr>lastActive := u\<rparr>) = requests st"
  by (simp_all add: requests_def)

lemma requests_look [simp]: "requests (update_look e h st) = requests st"
  by (rule requests_core) simp

lemma requests_prepare [simp]:
  "requests (resetInternals st) = requests st" "requests (prepareForm pg st) = requests st"
  "requests (prepareElement pg e st) = requests st"
  by (simp_all add: resetInternals_def prepareForm_def prepareElement_def reset_state_def)

lemma requests_formatAndAdd [simp]: "requests (formatAndAdd pg e m p st) = requests st"
  by (simp add: formatAndAdd_def Let_def)

lemma requests_note [simp]: "requests (note_form st) = requests st" "requests (note_element pg c b st) = requests st"
  by (simp_all add: note_form_def note_element_def Let_def)

lemma requests_memory [simp]:
  "requests (set_own_message n m st) = requests st" "requests (update_previous i f st) = requests st"
  "requests (own_messages n st) = requests st" "requests (remember_message n i st) = requests st"
  "requests (fst (previousValue pg e st)) = requests st"
proof -
  show a: "requests (set_own_message n m st) = requests st" for n m st
    by (simp add: set_own_message_def split: option.split custom.split)
  show b: "requests (update_previous i f st) = requests st" for i f st by (simp add: update_previous_def)
  show c: "requests (own_messages n st) = requests st" for n st by (simp add: own_messages_def)
  show "requests (remember_message n i st) = requests st" by (simp only: remember_message_def Let_def a b c)
  show "requests (fst (previousValue pg e st)) = requests st" by (simp add: previousValue_def split: option.split)
qed

lemma requests_resetForm [simp]: "requests (resetForm pg st) = requests st"
proof -
  have e: "core (resetElements pg es s) = core s" for es s
    by (simp add: resetElements_def core_foldl)
  show ?thesis
    unfolding resetForm_def Let_def
    by (rule trans [OF requests_core [OF e]]) (simp add: requests_core [OF core_hideThese(2)])
qed

lemma requests_submit_click [simp]: "requests (submit_click b cancel st) = requests st"
  by (simp add: submit_click_def Let_def)

lemma requests_handle: "requests (fst (handle pg st)) = requests st"
  by (rule requests_core [OF core_handle])

lemma by_name_range: "i \<in> set (by_name pg n) \<Longrightarrow> i < length (form pg)"
  by (simp add: by_name_def)

lemma filter_ConsD: "filter q xs = y # ys \<Longrightarrow> y \<in> set xs \<and> q y"
  using list.set_intros(1) [of y ys] by (metis filter_is_subset mem_Collect_eq set_filter subsetD)

lemma target_range: "validationTargetFor pg e = Some t \<Longrightarrow> e < length (form pg) \<Longrightarrow> t < length (form pg)"
  unfolding validationTargetFor_def Let_def
  by (auto split: if_splits list.splits dest!: filter_ConsD intro: by_name_range)

lemma pick_elements_sub: "set (pick_elements pg c is) \<subseteq> set is"
  by (induction pg c "is" rule: pick_elements.induct) (auto simp: Let_def)

lemma elements_range: "e \<in> set (elements pg) \<Longrightarrow> e < length (form pg)"
  using pick_elements_sub [of pg "[]" "[0..<length (form pg)]"] by (auto simp: elements_def)

lemma fst_run_bind: "fst (run_bind r f) = (case snd r of Inl e \<Rightarrow> fst r | Inr x \<Rightarrow> fst (f (fst r) x))"
  by (cases r; cases "snd r") (auto simp: run_bind_def)

locale request_keeper =
  fixes ok :: "page \<Rightarrow> bool" and inv :: "vstate \<Rightarrow> bool"
  assumes same_requests: "requests s = requests t \<Longrightarrow> inv s \<Longrightarrow> inv t"
    and call: "ok pg \<Longrightarrow> e < length (form pg) \<Longrightarrow> inv st \<Longrightarrow> inv (fst (call_method pg m e v p st))"
    and on_blur_range: "ok pg \<Longrightarrow> inv st \<Longrightarrow> (kind, target, e) \<in> set (on_blur (blur st)) \<Longrightarrow> e < length (form pg)"
begin

lemma same: "requests s = requests t \<Longrightarrow> inv s = inv t"
  using same_requests [of s t] same_requests [of t s] by auto

lemma same_core: "core s = core t \<Longrightarrow> inv s = inv t"
  by (rule same) (rule requests_core)

lemma bind: "inv (fst r) \<Longrightarrow> (\<And>x. snd r = Inr x \<Longrightarrow> inv (fst r) \<Longrightarrow> inv (fst (f (fst r) x))) \<Longrightarrow> inv (fst (run_bind r f))"
  by (simp add: fst_run_bind split: sum.split)

lemma run_rules_keeps: "ok pg \<Longrightarrow> e < length (form pg) \<Longrightarrow> inv st \<Longrightarrow> inv (fst (run_rules pg e v n d rs st))"
proof (induction pg e v n d rs st rule: run_rules.induct)
  case (2 pg e v n d m p rs st)
  obtain st' r where c: "call_method pg m e v p st = (st', r)" by fastforce
  with call [OF 2(3,4,5), of m v p] have "inv st'" by simp
  with 2 c show ?case by (cases r) (simp_all add: c)
qed simp

lemma check_keeps: "ok pg \<Longrightarrow> e < length (form pg) \<Longrightarrow> inv st \<Longrightarrow> inv (fst (check pg e st))"
proof -
  assume a: "ok pg" "e < length (form pg)" "inv st"
  show ?thesis
  proof (cases "validationTargetFor pg e")
    case (Some t)
    obtain rs v where nv: "normalized pg t = (rs, v)" by fastforce
    obtain st' oc where r: "run_rules pg t v (length (rules_of pg t)) False rs st = (st', oc)" by fastforce
    with run_rules_keeps [OF a(1) target_range [OF Some a(2)] a(3)] have i: "inv st'" by (metis fst_conv)
    have "inv (s :: vstate)" if "requests s = requests st'" for s using same [OF that] i by simp
    then show ?thesis using Some nv r i by (cases oc) (simp_all add: check_def)
  qed (simp add: check_def a)
qed

lemma check_all_keeps: "ok pg \<Longrightarrow> list_all (\<lambda>e. e < length (form pg)) es \<Longrightarrow> inv st \<Longrightarrow> inv (fst (check_all pg es st))"
proof (induction pg es st rule: check_all.induct)
  case (2 pg e es st)
  show ?case
    unfolding check_all.simps
    by (rule bind) (use 2 check_keeps in \<open>auto split: option.splits\<close>)
qed simp

lemma showErrors_keeps: "inv st \<Longrightarrow> inv (fst (showErrors pg None st))"
  using same_core [OF core_showErrors_None [of pg st]] by simp

lemma form_check_keeps:
  assumes "ok pg" "inv st"
  shows "inv (fst (form_check pg st))"
proof -
  have "inv ((prepareForm pg st)\<lparr>currentElements := elements pg\<rparr>)"
    using same [of "(prepareForm pg st)\<lparr>currentElements := elements pg\<rparr>" st] assms(2) by simp
  then have "inv (fst (check_all pg (elements pg) ((prepareForm pg st)\<lparr>currentElements := elements pg\<rparr>)))"
    by (rule check_all_keeps [OF assms(1), rotated]) (simp add: list_all_iff elements_range)
  then have c: "inv (fst (checkForm pg st))"
    unfolding checkForm_def by (rule bind) simp
  show ?thesis
    unfolding form_check_def
    by (rule bind [OF c], rule bind) (simp_all add: showErrors_keeps same [OF requests_note(1)])
qed

lemma check_group_keeps: "ok pg \<Longrightarrow> inv st \<Longrightarrow> inv (fst (check_group pg g n gs r st))"
proof (induction pg g n gs r st rule: check_group.induct)
  case (2 pg g n m tg gs r st)
  have q: "inv (st\<lparr>currentElements := c\<rparr>)" for c
    using same [of "st\<lparr>currentElements := c\<rparr>" st] 2(6) by simp
  show ?case
  proof (cases "tg = g \<and> m \<noteq> n")
    case True
    show ?thesis
    proof (cases "by_name pg m")
      case Nil
      with True 2(6) show ?thesis by simp
    next
      case (Cons i "is")
      then have i: "i < length (form pg)" using by_name_range [of i pg m] by simp
      show ?thesis
      proof (cases "validationTargetFor pg i")
        case None
        with True 2 Cons show ?thesis by simp
      next
        case (Some c)
        show ?thesis
        proof (cases "has_key (name_of pg c) (invalid st)")
          case False
          with True 2 Cons Some show ?thesis by simp
        next
          case h: True
          have "inv (fst (run_bind (check pg c (st\<lparr>currentElements := currentElements st @ [c]\<rparr>))
              (\<lambda>st' x. check_group pg g n gs (x = Some True \<and> r) st')))"
            by (rule bind [OF check_keeps [OF 2(5) target_range [OF Some i] q]])
              (rule 2(2) [OF True Cons Some h 2(5)])
          with True Cons Some h show ?thesis by simp
        qed
      qed
    qed
  next
    case False
    from 2(4) [OF this 2(5,6)] show ?thesis by (simp only: check_group.simps False if_False)
  qed
qed simp

lemma update_keeps: "inv st \<Longrightarrow> requests s = requests st \<Longrightarrow> inv s"
  using same by metis

lemma element_check_keeps:
  assumes "ok pg" "e < length (form pg)" "inv st"
  shows "inv (fst (element_check pg e st))"
proof (cases "validationTargetFor pg e")
  case None
  then show ?thesis using assms(3) by (auto simp: element_check_def intro: update_keeps)
next
  case (Some c)
  let ?st1 = "(prepareElement pg c st)\<lparr>currentElements := [c]\<rparr>"
  have i1: "inv ?st1" by (rule update_keeps [OF assms(3)]) simp
  let ?g = "case group_of pg c of None \<Rightarrow> (?st1, Inr True)
            | Some g \<Rightarrow> check_group pg g (name_of pg c) (groups pg) True ?st1"
  have g: "inv (fst ?g)" using i1 check_group_keeps [OF assms(1) i1] by (simp split: option.split)
  have k: "inv (fst (check pg c s))" if "inv s" for s
    by (rule check_keeps [OF assms(1) target_range [OF Some assms(2)] that])
  show ?thesis
    unfolding element_check_def Some option.case Let_def
  proof (rule bind [OF g])
    fix x
    assume "inv (fst ?g)"
    from k [OF this] show "inv (fst (run_bind (check pg c (fst ?g)) (\<lambda>st3 r.
          run_bind (showErrors pg None (note_element pg c (r \<noteq> Some False) st3)) (\<lambda>st4 _.
            (update_look e (\<lambda>k. k\<lparr>aria_invalid := Some (r = Some False)\<rparr>) st4, Inr (x \<and> r \<noteq> Some False))))))"
      by (rule bind, intro bind) (simp_all add: showErrors_keeps same [OF requests_note(2)] same [OF requests_look])
  qed
qed

lemma valid_elements_keeps:
  "ok pg \<Longrightarrow> list_all (\<lambda>e. e < length (form pg)) es \<Longrightarrow> inv st \<Longrightarrow> inv (fst (valid_elements pg es b acc st))"
proof (induction pg es b acc st rule: valid_elements.induct)
  case (1 pg b acc st)
  then show ?case by (auto intro: update_keeps)
next
  case (2 pg e es b acc st)
  show ?case
    unfolding valid_elements.simps
    by (rule bind) (use 2 element_check_keeps in \<open>auto simp: Let_def\<close>)
qed

lemma onfocusin_keeps: "inv st \<Longrightarrow> inv (fst (onfocusin pg e st))"
  using same_core [OF core_onfocusin] by simp

lemma onfocusout_keeps: "ok pg \<Longrightarrow> e < length (form pg) \<Longrightarrow> inv st \<Longrightarrow> inv (fst (onfocusout pg e st))"
  by (simp add: onfocusout_def element_check_keeps split: sum.split)

lemma on_target_blur_keeps:
  assumes "ok pg" "inv st"
  shows "inv (fst (on_target_blur pg t st))"
proof -
  have "inv (fst (foldl (\<lambda>r (kind, t', e). run_bind r (\<lambda>st' _. if t' = t then valid_elements pg [e] True [] st' else (st', Inr True))) r bs))"
    if "inv (fst r)" "\<forall>(kind, t', e) \<in> set bs. e < length (form pg)" for r and bs :: "(comparison \<times> nat \<times> nat) list"
    using that
  proof (induction bs arbitrary: r)
    case (Cons b bs)
    obtain kind t' e where b: "b = (kind, t', e)" by (cases b)
    have "inv (fst (run_bind r (\<lambda>st' _. if t' = t then valid_elements pg [e] True [] st' else (st', Inr True))))"
      by (rule bind [OF Cons(2)])
        (use valid_elements_keeps [OF assms(1), of "[e]"] Cons(3) b in \<open>auto simp del: valid_elements.simps\<close>)
    with Cons b show ?case by simp
  qed simp
  then show ?thesis
    unfolding on_target_blur_def using assms on_blur_range [OF assms] by force
qed

lemma delegate_keeps: "inv st \<Longrightarrow> inv (fst (h st)) \<Longrightarrow> inv (fst (delegate f pg e h x st))"
  by (simp add: delegate_def Let_def)

lemma submit_handler_keeps: "ok pg \<Longrightarrow> inv st \<Longrightarrow> inv (fst (submit_handler pg st))"
proof -
  assume a: "ok pg" "inv st"
  have h: "inv (fst (handle pg s))" if "inv s" for s
    using same [OF requests_handle] that by simp
  show ?thesis
  proof (cases "cancelSubmit st")
    case True
    have "inv (st\<lparr>cancelSubmit := False\<rparr>)" by (rule update_keeps [OF a(2)]) simp
    from h [OF this] True show ?thesis
      by (cases "handle pg (st\<lparr>cancelSubmit := False\<rparr>)") (simp add: submit_handler_def)
  next
    case False
    have "inv (fst (run_bind (form_check pg st) (\<lambda>st1 ok.
        if ok
        then (if pendingRequest st1 \<noteq> 0 then (st1\<lparr>formSubmitted := True\<rparr>, Inr False)
              else (case handle pg st1 of (st', b) \<Rightarrow> (st', Inr b)))
        else (focusInvalid pg st1, Inr False))))"
    proof (rule bind [OF form_check_keeps [OF a]])
      fix b
      assume i: "inv (fst (form_check pg st))"
      then have "inv ((fst (form_check pg st))\<lparr>formSubmitted := True\<rparr>)" by (rule update_keeps) simp
      with i h [OF i] same_core [OF core_focusInvalid]
      show "inv (fst (if b then (if pendingRequest (fst (form_check pg st)) \<noteq> 0
                then ((fst (form_check pg st))\<lparr>formSubmitted := True\<rparr>, Inr False)
                else (case handle pg (fst (form_check pg st)) of (st', b) \<Rightarrow> (st', Inr b)))
              else (focusInvalid pg (fst (form_check pg st)), Inr False)))"
        by (cases "handle pg (fst (form_check pg st))") simp
    qed
    with False show ?thesis by (simp add: submit_handler_def)
  qed
qed

lemma user_submit_keeps: "ok pg \<Longrightarrow> inv st \<Longrightarrow> inv (user_submit pg st)"
  using submit_handler_keeps [of pg st]
  by (cases "submit_handler pg st"; cases "snd (submit_handler pg st)")
    (simp_all add: user_submit_def same_core [OF core_submits])

lemma trigger_submit_keeps: "ok pg \<Longrightarrow> inv st \<Longrightarrow> inv (fst (trigger_submit pg st))"
  unfolding trigger_submit_def
  by (rule bind [OF submit_handler_keeps]) (simp_all add: same_core [OF core_submits])

text \<open>Every event but those about requests.\<close>

lemma event_keeps:
  assumes "ok pg" "event_in_form pg ev" "inv st" "\<And>n r. ev \<noteq> Response n r" "\<And>n. ev \<noteq> Failure n"
  shows "inv (handles pg ev st)"
proof (cases ev)
  case (SubmitClick b cancel)
  then show ?thesis using assms(3) by (auto simp: handles_def intro: update_keeps)
next
  case ResetForm
  then show ?thesis using assms(3) by (auto simp: handles_def intro: update_keeps)
qed (use assms in \<open>simp_all add: handles_def delegate_keeps onfocusin_keeps onfocusout_keeps element_check_keeps
    on_target_blur_keeps user_submit_keeps onkeyup_def onclick_def\<close>)

end

text \<open>An answer takes the request away and then the mark of its field.\<close>

definition answered :: "jstr \<Rightarrow> vstate \<Rightarrow> vstate" where
  "answered n st =
     st\<lparr>pendingRequest := (if pendingRequest st - 1 < 0 then 0 else pendingRequest st - 1), pending := remove n (pending st)\<rparr>"

lemma requests_answered: "requests s = requests t \<Longrightarrow> requests (answered n s) = requests (answered n t)"
  by (simp add: requests_def answered_def)

lemma requests_showErrors: "requests (fst (showErrors pg x st)) = requests st"
proof (cases x)
  case None
  show ?thesis unfolding None by (rule requests_core) (rule core_showErrors_None)
next
  case (Some es)
  then show ?thesis
    unfolding showErrors_def Some option.case Let_def by (subst requests_core [OF core_defaultShowErrors]) simp
qed

locale answer_keeper = request_keeper +
  assumes drop: "inv st \<Longrightarrow> inv (st\<lparr>inflight := remove n (inflight st)\<rparr>)"
    and answer: "ok pg \<Longrightarrow> inv st \<Longrightarrow> map_of (inflight st) n = Some (e, v, i) \<Longrightarrow>
      e < length (form pg) \<and> inv (answered (name_of pg e) (st\<lparr>inflight := remove n (inflight st)\<rparr>))"
begin

lemma stopRequest_keeps:
  assumes "ok pg" "inv (answered (name_of pg e) st)"
  shows "inv (fst (stopRequest pg e b st))"
proof -
  define st1 where "st1 = update_look e (\<lambda>k. k\<lparr>lk_pending := False\<rparr>) (answered (name_of pg e) st)"
  have i: "inv st1" using assms(2) unfolding st1_def by (rule update_keeps) simp
  have s: "stopRequest pg e b st =
     (if b \<and> pendingRequest st1 = 0 \<and> formSubmitted st1
         then run_bind (form_check pg st1) (\<lambda>st2 fine.
           if fine \<and> pendingRequest st2 = 0
           then run_bind (trigger_submit pg st2) (\<lambda>st3 _.
             (st3\<lparr>actions := actions st3 @ (case submitButton st3 of None \<Rightarrow> [] | Some b \<Rightarrow> [HiddenRemoved b]),
                  formSubmitted := False\<rparr>, Inr ()))
           else (st2, Inr ()))
         else if \<not> b \<and> pendingRequest st1 = 0 \<and> formSubmitted st1
         then (st1\<lparr>actions := actions st1 @ [InvalidForm], formSubmitted := False\<rparr>, Inr ())
         else (st1, Inr ()))"
    unfolding stopRequest_def Let_def st1_def answered_def ..
  have f: "inv (fst (run_bind (form_check pg st1) (\<lambda>st2 fine.
           if fine \<and> pendingRequest st2 = 0
           then run_bind (trigger_submit pg st2) (\<lambda>st3 _.
             (st3\<lparr>actions := actions st3 @ (case submitButton st3 of None \<Rightarrow> [] | Some b \<Rightarrow> [HiddenRemoved b]),
                  formSubmitted := False\<rparr>, Inr ()))
           else (st2, Inr ()))))"
  proof (rule bind [OF form_check_keeps [OF assms(1) i]])
    fix x
    assume j: "inv (fst (form_check pg st1))"
    have "inv (fst (run_bind (trigger_submit pg (fst (form_check pg st1))) (\<lambda>st3 _.
             (st3\<lparr>actions := actions st3 @ (case submitButton st3 of None \<Rightarrow> [] | Some b \<Rightarrow> [HiddenRemoved b]),
                  formSubmitted := False\<rparr>, Inr ()))))"
      by (rule bind [OF trigger_submit_keeps [OF assms(1) j]]) (simp, erule update_keeps, simp)
    with j show "inv (fst (if x \<and> pendingRequest (fst (form_check pg st1)) = 0
           then run_bind (trigger_submit pg (fst (form_check pg st1))) (\<lambda>st3 _.
             (st3\<lparr>actions := actions st3 @ (case submitButton st3 of None \<Rightarrow> [] | Some b \<Rightarrow> [HiddenRemoved b]),
                  formSubmitted := False\<rparr>, Inr ()))
           else (fst (form_check pg st1), Inr ())))" by simp
  qed
  have g: "inv (st1\<lparr>actions := actions st1 @ [InvalidForm], formSubmitted := False\<rparr>)"
    using i by (rule update_keeps) simp
  from f g i show ?thesis unfolding s by simp
qed

lemma remote_success_keeps:
  assumes "ok pg" "inv st"
  shows "inv (fst (remote_success pg n r st))"
proof (cases "map_of (inflight st) n")
  case None
  then show ?thesis using assms(2) by (simp add: remote_success_def)
next
  case (Some x)
  obtain e v i where x: "x = (e, v, i)" by (cases x)
  let ?st0 = "st\<lparr>inflight := remove n (inflight st)\<rparr>"
  let ?st1 = "set_own_message n (originalMessage (previouses ?st0 ! i)) ?st0"
  let ?m = "response_message pg e v r ?st1"
  define shown where "shown = (if accepts r
      then showErrors pg None ((resetInternals ?st1)\<lparr>toHide := map Label (errorsFor pg e (resetInternals ?st1)),
        successList := successList (resetInternals ?st1) @ [e],
        invalid := put n (VBool False) (invalid (resetInternals ?st1))\<rparr>)
      else showErrors pg (Some [(n, ?m)])
        ((update_previous i (\<lambda>p. p\<lparr>prev_message := ?m\<rparr>) ?st1)\<lparr>invalid :=
           put n (VBool True) (invalid (update_previous i (\<lambda>p. p\<lparr>prev_message := ?m\<rparr>) ?st1))\<rparr>))"
  have s: "remote_success pg n r st = run_bind shown (\<lambda>st4 _.
      stopRequest pg e (accepts r) (update_previous i (\<lambda>p. p\<lparr>prev_valid := accepts r\<rparr>) st4))"
    unfolding remote_success_def Some x option.case prod.case Let_def shown_def ..
  have q: "requests (fst shown) = requests ?st0"
    unfolding shown_def by (simp add: requests_showErrors)
  have d: "inv ?st0" by (rule drop [OF assms(2)])
  then have "inv (fst shown)" by (rule update_keeps) (rule q)
  moreover have "inv (fst (stopRequest pg e (accepts r) (update_previous i (\<lambda>p. p\<lparr>prev_valid := accepts r\<rparr>) (fst shown))))"
  proof (rule stopRequest_keeps [OF assms(1)])
    have "requests (update_previous i (\<lambda>p. p\<lparr>prev_valid := accepts r\<rparr>) (fst shown)) = requests ?st0"
      using q by simp
    from requests_answered [OF this] answer [OF assms Some [unfolded x]]
    show "inv (answered (name_of pg e) (update_previous i (\<lambda>p. p\<lparr>prev_valid := accepts r\<rparr>) (fst shown)))"
      by (blast intro: update_keeps)
  qed
  ultimately show ?thesis unfolding s by (rule bind)
qed

lemma handles_keeps:
  assumes "ok pg" "event_in_form pg ev" "inv st"
  shows "inv (handles pg ev st)"
proof (cases ev)
  case (Response n r)
  then show ?thesis using remote_success_keeps [OF assms(1,3)] by (simp add: handles_def)
next
  case (Failure n)
  then show ?thesis using drop [OF assms(3)] by (simp add: handles_def remote_failure_def)
qed (use event_keeps [OF assms] in simp_all)

end

subsection \<open>The count of pending requests\<close>

text \<open>
  \<open>tracked\<close>: the counter is the number of the marked fields, each marked once, and every request on its way
  belongs to a marked field of its name. A form in which no field has the name of a property that every
  object inherits is \<open>plain_names\<close>.
\<close>

definition plain_names :: "page \<Rightarrow> bool" where
  "plain_names pg = list_all (\<lambda>el. el_name el \<notin> set inherited) (form pg)"

definition tracked :: "page \<Rightarrow> vstate \<Rightarrow> bool" where
  "tracked pg0 st =
     (distinct (keys (pending st)) \<and> pendingRequest st = int (length (pending st))
      \<and> list_all (\<lambda>(n, e, v, i). e < length (form pg0) \<and> name_of pg0 e = n \<and> n \<in> set (keys (pending st))) (inflight st)
      \<and> list_all (\<lambda>(kind, t, e). e < length (form pg0)) (on_blur (blur st)))"

lemma tracked_requests: "requests s = requests t \<Longrightarrow> tracked pg s = tracked pg t"
  by (simp add: tracked_def requests_def)

lemma same_fields_name: "same_fields pg0 pg \<Longrightarrow> e < length (form pg) \<Longrightarrow> name_of pg e = name_of pg0 e \<and> length (form pg) = length (form pg0)"
  unfolding same_fields_def name_of_def by (metis length_map nth_map)

lemma plain_name: "plain_names pg0 \<Longrightarrow> e < length (form pg0) \<Longrightarrow> name_of pg0 e \<notin> set inherited"
  by (simp add: plain_names_def list_all_length name_of_def)

lemma set_put: "set (put k v ob) \<subseteq> insert (k, v) (set ob)"
  by (induction k v ob rule: put.induct) (auto split: if_splits)

lemma tracked_startRequest:
  assumes "tracked pg0 st" "plain_names pg0" "same_fields pg0 pg" "e < length (form pg)"
  shows "tracked pg0 (startRequest pg e st)" "name_of pg e \<in> set (keys (pending (startRequest pg e st)))"
proof -
  have n: "name_of pg e \<notin> set inherited"
    using same_fields_name [OF assms(3,4)] plain_name [OF assms(2)] assms(4) by simp
  show "tracked pg0 (startRequest pg e st)"
    using assms(1) n
    by (auto simp: tracked_def startRequest_def has_key_def update_look_def distinct_put length_put list_all_iff)
  show "name_of pg e \<in> set (keys (pending (startRequest pg e st)))"
    using n by (auto simp: startRequest_def has_key_def update_look_def)
qed

lemma tracked_send:
  assumes "tracked pg0 st" "same_fields pg0 pg" "e < length (form pg)" "name_of pg e \<in> set (keys (pending st))"
  shows "tracked pg0 (send_request pg e v i st)"
  using assms same_fields_name [OF assms(2,3)] set_put [of "name_of pg e" "(e, v, i)" "inflight st"]
  by (auto simp: tracked_def send_request_def abort_port_def Let_def list_all_iff)

lemma tracked_remote:
  assumes "tracked pg0 st" "plain_names pg0" "same_fields pg0 pg" "e < length (form pg)"
  shows "tracked pg0 (fst (remote pg e v p st))"
proof (cases "optional_of (form pg) (form pg ! e)")
  case (Inr b)
  obtain s i where q: "previousValue pg e st = (s, i)" by fastforce
  then have s: "requests s = requests st" using requests_memory(5) [of pg e st] by simp
  have t: "tracked pg0 (remember_message (name_of pg e) i s)"
    "\<And>f. tracked pg0 (update_previous i f (remember_message (name_of pg e) i s))"
    by (rule tracked_requests [THEN iffD2, OF _ assms(1)], simp add: s)+
  from tracked_send [OF tracked_startRequest(1) [OF t(2) assms(2-4)] assms(3,4) tracked_startRequest(2) [OF t(2) assms(2-4)]]
  show ?thesis using q Inr t(1) assms(1) by (cases b) (simp_all add: remote_def Let_def)
qed (simp add: remote_def assms(1))

lemma tracked_bind_blur:
  assumes "tracked pg0 st" "e < length (form pg0)"
  shows "tracked pg0 (st\<lparr>blur := bind_blur kind on ts e (blur st)\<rparr>)"
  using assms by (auto simp: tracked_def bind_blur_def list_all_iff)

lemma tracked_call:
  assumes "tracked pg0 st" "plain_names pg0" "same_fields pg0 pg" "e < length (form pg)"
  shows "tracked pg0 (fst (call_method pg m e v p st))"
proof (rule call_method_cases [of m pg e v p])
  have e: "e < length (form pg0)" using same_fields_name [OF assms(3,4)] assms(4) by simp
  fix g kind
  assume "binds kind g" and c: "call_method pg m e v p = compared g pg e v p"
  then obtain h where "g fm on ts e v s = (h fm ts v, bind_blur kind on ts e s)" for fm on ts e v s
    unfolding binds_def by blast
  with c tracked_bind_blur [OF assms(1) e] show ?thesis by (simp add: compared_def)
next
  have e: "e < length (form pg0)" using same_fields_name [OF assms(3,4)] assms(4) by simp
  assume c: "call_method pg m e v p = notEqualTo_method pg e v p"
  show ?thesis
    using tracked_bind_blur [OF assms(1) e] assms(1)
    by (cases "optional_of (form pg) (form pg ! e)") (simp_all add: c notEqualTo_method_def notEqualTo_def equalTo_def)
qed (use assms tracked_remote in simp_all)

interpretation counted: answer_keeper "\<lambda>pg. plain_names pg0 \<and> same_fields pg0 pg" "tracked pg0" for pg0
proof
  fix pg e st m v p
  show "requests s = requests t \<Longrightarrow> tracked pg0 s \<Longrightarrow> tracked pg0 t" for s t
    using tracked_requests by blast
  show "plain_names pg0 \<and> same_fields pg0 pg \<Longrightarrow> e < length (form pg) \<Longrightarrow> tracked pg0 st \<Longrightarrow>
      tracked pg0 (fst (call_method pg m e v p st))"
    using tracked_call by blast
  show "e < length (form pg)" if "plain_names pg0 \<and> same_fields pg0 pg" "tracked pg0 st" "(kind, target, e) \<in> set (on_blur (blur st))" for kind target
  proof -
    from that(2,3) have "e < length (form pg0)" by (auto simp: tracked_def list_all_iff)
    with that(1) show ?thesis by (auto simp: same_fields_def dest: map_eq_imp_length_eq)
  qed
  show "tracked pg0 st \<Longrightarrow> tracked pg0 (st\<lparr>inflight := remove n (inflight st)\<rparr>)" for n
    by (auto simp: tracked_def list_all_iff remove_def)
  fix n i
  assume a: "plain_names pg0 \<and> same_fields pg0 pg" "tracked pg0 st" "map_of (inflight st) n = Some (e, v, i)"
  then have b: "e < length (form pg0)" "name_of pg0 e = n" "n \<in> set (keys (pending st))"
    using map_of_SomeD [OF a(3)] by (auto simp: tracked_def list_all_iff)
  then have c: "e < length (form pg)" "name_of pg e = n"
    using a(1) same_fields_name [of pg0 pg e] by (auto simp: same_fields_def dest: map_eq_imp_length_eq)
  have "tracked pg0 (answered n (st\<lparr>inflight := remove n (inflight st)\<rparr>))"
    using a(2) length_remove [OF _ b(3)]
    by (auto simp: tracked_def answered_def list_all_iff distinct_remove remove_def [of n "inflight st"])
  with c show "e < length (form pg) \<and> tracked pg0 (answered (name_of pg e) (st\<lparr>inflight := remove n (inflight st)\<rparr>))"
    by simp
qed

definition started :: "page \<Rightarrow> vstate \<Rightarrow> bool" where
  "started pg0 st \<longleftrightarrow> plain_names pg0 \<and> (\<exists>cs ls ks bs. st = init_state cs ls ks bs)"

interpretation validator: machine "started pg0" "validator_step pg0" "\<lambda>st. plain_names pg0 \<and> tracked pg0 st" for pg0
proof
  show "plain_names pg0 \<and> tracked pg0 s" if "started pg0 s" for s
    using that by (auto simp: started_def init_state_def tracked_def)
  show "plain_names pg0 \<and> tracked pg0 t" if "plain_names pg0 \<and> tracked pg0 s" "validator_step pg0 s t" for s t
    using that(2,1) by cases (auto intro: counted.handles_keeps)
qed

text \<open>
  C24: In every run of events, with the fields filled in between in any way, the counter of pending requests
  is the number of the fields that wait, so it never goes below zero, and a request on its way always
  belongs to a field that waits.
\<close>

theorem pending_count:
  assumes "started pg0 s" "(validator_step pg0)\<^sup>*\<^sup>* s t"
  shows "pendingRequest t = int (length (pending t)) \<and> distinct (keys (pending t))
    \<and> set (keys (inflight t)) \<subseteq> set (keys (pending t))"
  using validator.inv_reach [OF assms]
  by (auto simp: tracked_def list_all_iff in_keys)

end
