(* ===== verification/ValidatorSamples.thy ===== *)
theory ValidatorSamples
  imports ValidatorRequests
begin

text \<open>
  A small page for the examples: text fields with a name and a value, the rules given for each, and
  settings of which each concerns nothing else. The data of a remote request is the value itself.
\<close>

definition text_field :: "string \<Rightarrow> string \<Rightarrow> input" where
  "text_field n v =
     \<lparr>el_name = js n, el_id = js n, el_node = js ''INPUT'', el_type = js ''text'', el_attr_type = Some (js ''text''),
      el_val = VText (js v), el_checked = False, el_chosen = 0, el_text = None, el_bad = None, el_files = None,
      el_skip = False, el_ignored = False, el_own = True\<rparr>"

definition sample_page :: "input list \<Rightarrow> (string \<times> rule_param) list list \<Rightarrow> page" where
  "sample_page fs rs =
     \<lparr>form = fs, rules_of = (\<lambda>e. if e < length rs then map (\<lambda>(k, p). (js k, p)) (rs ! e) else []),
      selects = (\<lambda>_. []), date_text = (\<lambda>_. []), data_string = (\<lambda>v _. val_text v), custom_methods = [],
      local_normalizer = (\<lambda>_ v. v), global_normalizer = None, groups = [], containers = [], error_is_label = True,
      success = NoSuccess, messages = [(js ''required'', Plain (js ''!'')), (js ''remote'', Plain (js ''?''))],
      data_message = (\<lambda>_ _. None), title_of = (\<lambda>_. []), ignoreTitle = False, element_text = (\<lambda>_. []),
      placed_in = (\<lambda>_. []), focus_invalid = True, visible = (\<lambda>_. True), revalidates = True, focusCleanup = False,
      debug = False, submitHandler = None\<rparr>"

definition fresh :: vstate where
  "fresh = init_state [] [] (\<lambda>_. blank_look) (\<lambda>_. False)"

definition two_fields :: "string \<Rightarrow> string \<Rightarrow> page" where
  "two_fields a b = sample_page [text_field ''user'' a, text_field ''city'' b]
     [[(''required'', P (VBool True)), (''remote'', P (VText (js ''/check'')))], [(''required'', P (VBool True))]]"

end
