(* ===== verification/ValidatorSubmits.thy ===== *)
theory ValidatorSubmits
  imports ValidatorFrames
begin

text \<open>
  How often the browser has been told to submit the form: \<open>submissions\<close> counts it in the actions of the validator.
  Checking a form, showing its errors and looking for the focus never submit it.
\<close>

subsection \<open>Counting\<close>

definition submissions :: "vstate \<Rightarrow> nat" where
  "submissions st = length (filter (\<lambda>a. a = Submits) (actions st))"

lemma submissions_foldl: "(\<And>s x. submissions (f s x) = submissions s) \<Longrightarrow> submissions (foldl f s xs) = submissions s"
  by (induction xs arbitrary: s) simp_all

lemma submissions_updates [simp]:
  "submissions (st\<lparr>labels := a\<rparr>) = submissions st" "submissions (st\<lparr>boxes := b\<rparr>) = submissions st"
  "submissions (st\<lparr>toShow := ps\<rparr>) = submissions st" "submissions (st\<lparr>toHide := ps\<rparr>) = submissions st"
  "submissions (st\<lparr>lastActive := c\<rparr>) = submissions st" "submissions (st\<lparr>currentElements := es\<rparr>) = submissions st"
  "submissions (st\<lparr>successList := es\<rparr>) = submissions st" "submissions (st\<lparr>blur := d\<rparr>) = submissions st"
  "submissions (st\<lparr>formSubmitted := f\<rparr>) = submissions st"
  by (simp_all add: submissions_def)

lemma submissions_simps [simp]:
  "submissions (st\<lparr>actions := actions st @ as\<rparr>) = submissions st + length (filter (\<lambda>a. a = Submits) as)"
  "submissions (update_label i g st) = submissions st" "submissions (update_look e h st) = submissions st"
  "submissions (update_previous i k st) = submissions st" "submissions (set_own_message n x st) = submissions st"
  "submissions (remember_message n i st) = submissions st" "submissions (startRequest pg e st) = submissions st"
  "submissions (send_request pg e v i st) = submissions st" "submissions (formatAndAdd pg e m p st) = submissions st"
  "submissions (note_form st) = submissions st" "submissions (prepareForm pg st) = submissions st"
  by (simp_all add: submissions_def update_label_def update_look_def update_previous_def set_own_message_def own_messages_def
      remember_message_def startRequest_def send_request_def abort_port_def formatAndAdd_def note_form_def prepareForm_def
      reset_state_def resetInternals_def Let_def split: option.split custom.split)

subsection \<open>Checking\<close>

lemma submissions_call_method: "submissions (fst (call_method pg m e v p st)) = submissions st"
proof (rule call_method_cases [of m pg e v p])
  obtain s i where q: "previousValue pg e st = (s, i)" by fastforce
  then have s: "submissions s = submissions st"
    by (auto simp: previousValue_def submissions_def split: option.splits)
  assume "call_method pg m e v p = remote pg e v p"
  with s q show ?thesis
    by (simp add: remote_def Let_def split: sum.split bool.split)
qed (auto simp: compared_def notEqualTo_method_def submissions_def split: prod.split sum.split)

lemma run_bind_submissions:
  "submissions (fst r) = n \<Longrightarrow> (\<And>s x. r = (s, Inr x) \<Longrightarrow> submissions s = n \<Longrightarrow> submissions (fst (f s x)) = n) \<Longrightarrow>
    submissions (fst (run_bind r f)) = n"
  by (cases r; cases "snd r") (auto simp: run_bind_def)

lemma submissions_run_rules: "submissions (fst (run_rules pg e v n d rs st)) = submissions st"
proof (induction pg e v n d rs st rule: run_rules.induct)
  case (2 pg e v n d m p rs st)
  obtain st' r where c: "call_method pg m e v p st = (st', r)" by fastforce
  with submissions_call_method [of pg m e v p st] 2 show ?case by (cases r) (simp_all add: run_rules.simps)
qed simp

lemma submissions_check: "submissions (fst (check pg e st)) = submissions st"
proof (cases "validationTargetFor pg e")
  case (Some t)
  obtain rs v where nv: "normalized pg t = (rs, v)" by fastforce
  obtain st' oc where r: "run_rules pg t v (length (rules_of pg t)) False rs st = (st', oc)" by fastforce
  with submissions_run_rules [of pg t v "length (rules_of pg t)" False rs st] Some nv show ?thesis
    by (cases oc) (simp_all add: check_def)
qed (simp add: check_def)

lemma submissions_check_all: "submissions (fst (check_all pg es st)) = submissions st"
proof (induction es arbitrary: st)
  case (Cons e es)
  show ?case
    unfolding check_all.simps by (rule run_bind_submissions) (use Cons submissions_check [of pg e st] in auto)
qed simp

subsection \<open>Showing\<close>

lemma submissions_shown [simp]: "submissions (hide_part pg st p) = submissions st" "submissions (show_part st p) = submissions st"
  by (simp_all add: hide_part_def show_part_def split: part.split)

lemma submissions_parts [simp]:
  "submissions (hideThese pg ps st) = submissions st" "submissions (hideErrors pg st) = submissions st"
  "submissions (highlight pg st e) = submissions st" "submissions (unhighlight pg st e) = submissions st"
  by (simp_all add: hideThese_def hideErrors_def highlight_def unhighlight_def submissions_foldl)

lemma submissions_describe [simp]: "submissions (describe pg e i st) = submissions st"
proof -
  have "submissions (foldl (\<lambda>st (n, testgroup). if testgroup = g
      then foldl (\<lambda>st i. update_look i h st) st (by_name pg n) else st) s gs) = submissions s" for g :: jstr and h s gs
    by (rule submissions_foldl) (simp add: submissions_foldl split: prod.split)
  then show ?thesis by (simp add: describe_def Let_def split: option.split)
qed

lemma submissions_showLabel [simp]: "submissions (showLabel pg st e m) = submissions st"
  by (simp add: showLabel_def Let_def submissions_foldl split: option.split prod.split)

lemma submissions_show_items: "submissions (fst (show_items pg its st)) = submissions st"
  by (induction pg its st rule: show_items.induct) (auto split: option.split)

lemma submissions_finish [simp]: "submissions (finish_showing pg st) = submissions st"
  by (simp add: finish_showing_def Let_def submissions_foldl)

lemma submissions_showErrors: "submissions (fst (showErrors pg None st)) = submissions st"
  unfolding showErrors_def defaultShowErrors_def option.case
  by (rule run_bind_submissions) (simp_all add: submissions_show_items)

lemma submissions_form_check: "submissions (fst (form_check pg st)) = submissions st"
  unfolding form_check_def
proof (rule run_bind_submissions)
  show "submissions (fst (checkForm pg st)) = submissions st"
    unfolding checkForm_def by (rule run_bind_submissions) (simp_all add: submissions_check_all)
  show "submissions (fst (run_bind (showErrors pg None (note_form s)) (\<lambda>st2 _. (st2, Inr (valid st2))))) = submissions st"
    if "submissions s = submissions st" for s
    by (rule run_bind_submissions) (simp_all add: submissions_showErrors that)
qed

lemma submissions_focusInvalid: "submissions (focusInvalid pg st) = submissions st"
  by (auto simp: focusInvalid_def delegate_def onfocusin_def Let_def split: option.split)

end
