(* ===== verification/Unobtrusive.thy ===== *)
theory Unobtrusive
  imports ValidatorEvents
begin

text \<open>
  \<open>lib/jquery-validation-unobtrusive/jquery.validate.unobtrusive.js\<close>: the rules and messages that the
  attributes \<open>data-val-...\<close> of the server's fields stand for, the adapters that read them, and the message
  containers of the page. JSON in attributes is read by the host: \<open>parse_json\<close> is an argument.
\<close>

subsection \<open>Values\<close>

text \<open>What an adapter makes of a rule: a flag, a text or nothing, two texts, a field or none, a remote request.\<close>

datatype adapted =
    Flagged
  | Single "jstr option"
  | Bounds jstr jstr
  | Other "nat option"
  | Remotely "jstr option" jstr "jstr list"

text \<open>\<open>element\<close> and \<open>fields\<close> are the element and what \<open>$( form ).find( ":input" )\<close> finds.\<close>

record adapt_options =
  ao_element :: input
  ao_fields :: "input list"
  ao_message :: jstr
  ao_params :: "jstr option obj"
  ao_rules :: "adapted obj"
  ao_messages :: "jstr obj"

definition setValidationValues :: "jstr \<Rightarrow> adapted \<Rightarrow> adapt_options \<Rightarrow> adapt_options" where
  "setValidationValues ruleName v opts =
     (let opts1 = opts\<lparr>ao_rules := put ruleName v (ao_rules opts)\<rparr> in
      if ao_message opts1 \<noteq> [] then opts1\<lparr>ao_messages := put ruleName (ao_message opts1) (ao_messages opts1)\<rparr>
      else opts1)"

definition splitAndTrim :: "jstr \<Rightarrow> jstr list" where
  "splitAndTrim v = re_split (rx ''`s*,`s*'') (re_replace_all False (rx ''^`s+|`s+$'') (by_text []) v)"

definition escapeAttributeValue :: "jstr \<Rightarrow> jstr" where
  "escapeAttributeValue v = re_replace_all False
     (literal (slashed ''([!\"#$%&'' @ [39] @ slashed ''()*+,./:;<=>?@`[```]^'' @ [96] @ slashed ''{|}~])''))
     (\<lambda>m cs. 92 # by_group 1 m cs) v"

definition getModelPrefix :: "jstr \<Rightarrow> jstr" where
  "getModelPrefix fieldName =
     (case after_last 46 fieldName of None \<Rightarrow> [] | Some t \<Rightarrow> take (length fieldName - length t) fieldName)"

text \<open>
  \<open>value.replace( "*.", prefix )\<close> at the start of \<open>value\<close>: in the text that is put in, a dollar sign doubled, before an
  ampersand, a backquote or an apostrophe stands for itself, the text replaced, the text before (none) or after it.
\<close>

fun expand_dollars :: "jstr \<Rightarrow> jstr \<Rightarrow> jstr \<Rightarrow> jstr" where
  "expand_dollars matched after (c # d # r) =
     (if c = 36 \<and> d = 36 then 36 # expand_dollars matched after r
      else if c = 36 \<and> d = 38 then matched @ expand_dollars matched after r
      else if c = 36 \<and> d = 96 then expand_dollars matched after r
      else if c = 36 \<and> d = 39 then after @ expand_dollars matched after r
      else c # expand_dollars matched after (d # r))"
| "expand_dollars matched after r = r"

definition appendModelPrefix :: "jstr \<Rightarrow> jstr \<Rightarrow> jstr" where
  "appendModelPrefix v prefx =
     (if take 2 v = js ''*.'' then expand_dollars (js ''*.'') (drop 2 v) prefx @ drop 2 v else v)"

subsection \<open>Adapters\<close>

record adapter =
  ad_name :: jstr
  ad_params :: "jstr list"
  adapt :: "adapt_options \<Rightarrow> adapt_options result"

definition add_adapter :: "jstr \<Rightarrow> jstr list \<Rightarrow> (adapt_options \<Rightarrow> adapt_options result) \<Rightarrow> adapter list \<Rightarrow> adapter list" where
  "add_adapter adapterName params f as =
     as @ [\<lparr>ad_name = adapterName, ad_params = params, adapt = f\<rparr>]"

text \<open>\<open>options.params[ k ]\<close>; the empty text counts as false.\<close>

definition param_of :: "adapt_options \<Rightarrow> jstr \<Rightarrow> jstr option" where
  "param_of opts k = (case map_of (ao_params opts) k of Some v \<Rightarrow> v | None \<Rightarrow> None)"

definition given :: "jstr option \<Rightarrow> bool" where
  "given v = (v \<notin> {None, Some []})"

definition addBool :: "string \<Rightarrow> adapter list \<Rightarrow> adapter list" where
  "addBool adapterName = add_adapter (js adapterName) [] (\<lambda>opts. Inr (setValidationValues (js adapterName) Flagged opts))"

text \<open>A rule name that is left out is the text \<open>undefined\<close> as a property name.\<close>

definition rule_name :: "string option \<Rightarrow> jstr" where
  "rule_name r = (case r of None \<Rightarrow> js ''undefined'' | Some n \<Rightarrow> js n)"

definition adaptMinMax :: "jstr \<Rightarrow> jstr \<Rightarrow> jstr \<Rightarrow> adapt_options \<Rightarrow> adapt_options result" where
  "adaptMinMax minRuleName maxRuleName minMaxRuleName opts =
     (let lo = param_of opts (js ''min''); hi = param_of opts (js ''max'') in
      Inr (if given lo \<and> given hi then setValidationValues minMaxRuleName (Bounds (the lo) (the hi)) opts
           else if given lo then setValidationValues minRuleName (Single lo) opts
           else if given hi then setValidationValues maxRuleName (Single hi) opts
           else opts))"

definition addMinMax :: "string \<Rightarrow> string \<Rightarrow> string option \<Rightarrow> string option \<Rightarrow> adapter list \<Rightarrow> adapter list" where
  "addMinMax adapterName minRuleName maxRuleName minMaxRuleName =
     add_adapter (js adapterName) [js ''min'', js ''max'']
       (adaptMinMax (js minRuleName) (rule_name maxRuleName) (rule_name minMaxRuleName))"

text \<open>\<open>ruleName || adapterName\<close>\<close>

definition addSingleVal :: "string \<Rightarrow> string \<Rightarrow> string option \<Rightarrow> adapter list \<Rightarrow> adapter list" where
  "addSingleVal adapterName attribute ruleName =
     add_adapter (js adapterName) [js attribute] (\<lambda>opts.
       Inr (setValidationValues (js (if ruleName \<in> {None, Some []} then adapterName else the ruleName))
         (Single (param_of opts (js attribute))) opts))"

definition field_called :: "input list \<Rightarrow> jstr \<Rightarrow> nat option" where
  "field_called fs n = (case filter (\<lambda>i. el_name (fs ! i) = n) [0..<length fs] of [] \<Rightarrow> None | i # _ \<Rightarrow> Some i)"

text \<open>\<open>equalto\<close> without its parameter: \<open>appendModelPrefix\<close> reads a property of undefined.\<close>

definition equalto_adapter :: "adapt_options \<Rightarrow> adapt_options result" where
  "equalto_adapter opts =
     (let prefx = getModelPrefix (el_name (ao_element opts)) in
      case param_of opts (js ''other'') of
        None \<Rightarrow> Inl TypeError
      | Some other \<Rightarrow>
          let fullOtherName = appendModelPrefix other prefx in
          Inr (setValidationValues (js ''equalTo'') (Other (field_called (ao_fields opts) fullOtherName)) opts))"

definition required_adapter :: "adapt_options \<Rightarrow> adapt_options result" where
  "required_adapter opts =
     Inr (if js_upper (el_node (ao_element opts)) \<noteq> js ''INPUT'' \<or> js_upper (el_type (ao_element opts)) \<noteq> js ''CHECKBOX''
          then setValidationValues (js ''required'') Flagged opts else opts)"

definition remote_adapter :: "adapt_options \<Rightarrow> adapt_options result" where
  "remote_adapter opts =
     (let n = el_name (ao_element opts);
          prefx = getModelPrefix n;
          additional = param_of opts (js ''additionalfields'');
          names = splitAndTrim (if given additional then the additional else n);
          method = (if given (param_of opts (js ''type'')) then the (param_of opts (js ''type'')) else js ''GET'')
      in Inr (setValidationValues (js ''remote'')
           (Remotely (param_of opts (js ''url'')) method (map (\<lambda>f. appendModelPrefix f prefx) names)) opts))"

text \<open>The value that a remote request sends for a name, read when the request is made.\<close>

definition or_val :: "jsval \<Rightarrow> jsval \<Rightarrow> jsval" where
  "or_val a b = (if val_truthy a then a else b)"

definition first_val :: "input list \<Rightarrow> jsval" where
  "first_val els = (case els of [] \<Rightarrow> VUndef | el # _ \<Rightarrow> el_val el)"

definition remote_data :: "input list \<Rightarrow> (input \<Rightarrow> bool) \<Rightarrow> jstr \<Rightarrow> jsval" where
  "remote_data fs hidden paramName =
     (let field = findByName fs paramName in
      if list_ex (\<lambda>el. el_type el = js ''checkbox'') field
      then or_val (first_val (filter el_checked field)) (or_val (first_val (filter hidden field)) (VText []))
      else if list_ex (\<lambda>el. el_type el = js ''radio'') field
      then or_val (first_val (filter el_checked field)) (VText [])
      else first_val field)"

definition password_adapter :: "adapt_options \<Rightarrow> adapt_options result" where
  "password_adapter opts0 =
     (let step = (\<lambda>k rule opts. if given (param_of opts k) then setValidationValues rule (Single (param_of opts k)) opts else opts)
      in Inr (step (js ''regex'') (js ''regex'')
           (step (js ''nonalphamin'') (js ''nonalphamin'') (step (js ''min'') (js ''minlength'') opts0))))"

definition fileextensions_adapter :: "adapt_options \<Rightarrow> adapt_options result" where
  "fileextensions_adapter opts = Inr (setValidationValues (js ''extension'') (Single (param_of opts (js ''extensions''))) opts)"

text \<open>
  The adapters of the library, in the order in which they are registered. \<open>ext\<close> tells whether the method
  \<open>extension\<close> exists when the script runs: it does when \<open>additional-methods.js\<close> is loaded before, which the
  pages of the repository do not do.
\<close>

definition extension_adapters :: "bool \<Rightarrow> adapter list \<Rightarrow> adapter list" where
  "extension_adapters ext as =
     (if ext then addSingleVal ''extension'' ''extension'' None (addSingleVal ''accept'' ''mimtype'' None as)
      else addSingleVal ''extension'' ''extension'' (Some ''accept'') as)"

definition adapters :: "bool \<Rightarrow> adapter list" where
  "adapters ext =
     foldl (\<lambda>as register. register as) []
       [extension_adapters ext, addSingleVal ''regex'' ''pattern'' None,
        addBool ''creditcard'', addBool ''date'', addBool ''digits'', addBool ''email'', addBool ''number'', addBool ''url'',
        addMinMax ''length'' ''minlength'' (Some ''maxlength'') (Some ''rangelength''),
        addMinMax ''range'' ''min'' (Some ''max'') (Some ''range''),
        addMinMax ''minlength'' ''minlength'' None None, addMinMax ''maxlength'' ''minlength'' (Some ''maxlength'') None,
        add_adapter (js ''equalto'') [js ''other''] equalto_adapter, add_adapter (js ''required'') [] required_adapter,
        add_adapter (js ''remote'') [js ''url'', js ''type'', js ''additionalfields''] remote_adapter,
        add_adapter (js ''password'') [js ''min'', js ''nonalphamin'', js ''regex''] password_adapter,
        add_adapter (js ''fileextensions'') [js ''extensions''] fileextensions_adapter]"

subsection \<open>Methods\<close>

definition regexMethod :: "input list \<Rightarrow> jsval \<Rightarrow> nat \<Rightarrow> rule_param \<Rightarrow> verdict result" where
  "regexMethod fm v e params =
     rbind (optional_of fm (fm ! e)) (\<lambda>optional.
       if optional then Inr (Verdict True)
       else case parse_pattern (case params of P VUndef \<Rightarrow> js ''(?:)'' | _ \<Rightarrow> val_text (param_val params)) of
              None \<Rightarrow> Inl (Error (js ''SyntaxError''))
            | Some re \<Rightarrow>
                (case re_search False re [] (val_text v) of
                   Some ([], r, (b', r', cs)) \<Rightarrow>
                     rbind (val_length v) (\<lambda>n. Inr (Verdict (n = count_val (length r - length r'))))
                 | _ \<Rightarrow> Inr (Verdict False)))"

definition nonalphamin :: "jsval \<Rightarrow> rule_param \<Rightarrow> verdict result" where
  "nonalphamin v p =
     (if param_truthy p
      then rbind (as_text v) (\<lambda>s.
        case re_match_all False (rx ''`W'') s of
          [] \<Rightarrow> Inr (Verdict False)
        | ms \<Rightarrow> Inr (Verdict (js_le (param_val p) (count_val (length ms)))))
      else Inr (Verdict False))"

definition unobtrusive_methods :: "input list \<Rightarrow> (jsval \<Rightarrow> nat \<Rightarrow> rule_param \<Rightarrow> verdict result) obj" where
  "unobtrusive_methods fm =
     [(js ''__dummy__'', \<lambda>v e p. Inr (Verdict True)), (js ''regex'', regexMethod fm),
      (js ''nonalphamin'', \<lambda>v e p. nonalphamin v p)]"

subsection \<open>Parsing the page\<close>

text \<open>
  An element with \<open>data-val\<close>: its attributes, and the form it is in. Of a form: the options gathered for it,
  and the copy of them with which its validator was made.
\<close>

record parsed_element =
  pe_input :: input
  pe_form :: "nat option"
  pe_attr :: "jstr \<Rightarrow> jstr option"

record val_info =
  vi_rules :: "adapted obj obj"
  vi_messages :: "jstr obj obj"

record parsed_form =
  pf_info :: "val_info option"
  pf_settings :: "val_info option"

definition validationInfo :: "parsed_form \<Rightarrow> val_info" where
  "validationInfo pf = (case pf_info pf of Some i \<Rightarrow> i | None \<Rightarrow> \<lparr>vi_rules = [], vi_messages = []\<rparr>)"

text \<open>\<open>attachValidation\<close>: \<open>validate\<close> answers the validator that the form has, and makes one of a copy otherwise.\<close>

definition attachValidation :: "parsed_form \<Rightarrow> parsed_form" where
  "attachValidation pf =
     (case pf_settings pf of Some v \<Rightarrow> pf | None \<Rightarrow> pf\<lparr>pf_settings := Some (validationInfo pf)\<rparr>)"

text \<open>
  \<open>validate\<close> of the form's data: the form is checked by its validator, or by a new one without rules. The page and
  the state are those of that validator.
\<close>

definition validateForm :: "page \<Rightarrow> parsed_form \<Rightarrow> vstate \<Rightarrow> parsed_form \<times> bool run" where
  "validateForm pg pf st =
     (case pf_settings pf of Some _ \<Rightarrow> pf | None \<Rightarrow> pf\<lparr>pf_settings := Some \<lparr>vi_rules = [], vi_messages = []\<rparr>\<rparr>,
      form_check pg st)"

text \<open>What the adapters have made of an element when one throws stays in its rules and messages.\<close>

fun run_adapters :: "parsed_element \<Rightarrow> adapter list \<Rightarrow> adapt_options \<Rightarrow> adapt_options \<times> unit result" where
  "run_adapters pe [] opts = (opts, Inr ())"
| "run_adapters pe (a # as) opts =
     (let prefx = js ''data-val-'' @ ad_name a in
      case pe_attr pe prefx of
        None \<Rightarrow> run_adapters pe as opts
      | Some message \<Rightarrow>
          let paramValues = foldl (\<lambda>ob k. put k (pe_attr pe (prefx @ js ''-'' @ k)) ob) [] (ad_params a) in
          case adapt a (opts\<lparr>ao_message := message, ao_params := paramValues\<rparr>) of
            Inl err \<Rightarrow> (opts, Inl err)
          | Inr opts' \<Rightarrow> run_adapters pe as opts')"

definition element_options :: "bool \<Rightarrow> input list \<Rightarrow> parsed_element \<Rightarrow> adapt_options \<times> unit result" where
  "element_options ext fs pe =
     run_adapters pe (adapters ext)
       \<lparr>ao_element = pe_input pe, ao_fields = fs, ao_message = [], ao_params = [], ao_rules = [], ao_messages = []\<rparr>"

type_synonym forms = "nat \<Rightarrow> parsed_form"

definition note_rules :: "jstr \<Rightarrow> adapted obj \<Rightarrow> jstr obj \<Rightarrow> val_info \<Rightarrow> val_info" where
  "note_rules n rs ms info = \<lparr>vi_rules = put n rs (vi_rules info), vi_messages = put n ms (vi_messages info)\<rparr>"

definition parseElement :: "bool \<Rightarrow> (nat \<Rightarrow> input list) \<Rightarrow> parsed_element \<Rightarrow> bool \<Rightarrow> forms \<Rightarrow> forms \<times> unit result" where
  "parseElement ext fields_of pe skipAttach fs =
     (case pe_form pe of
        None \<Rightarrow> (fs, Inr ())
      | Some f \<Rightarrow>
          let info = validationInfo (fs f); n = el_name (pe_input pe) in
          case element_options ext (fields_of f) pe of
            (opts, Inl err) \<Rightarrow>
              (fs(f := (fs f)\<lparr>pf_info := Some (note_rules n (ao_rules opts) (ao_messages opts) info)\<rparr>), Inl err)
          | (opts, Inr _) \<Rightarrow>
              let info' = note_rules n (put (js ''__dummy__'') Flagged (ao_rules opts)) (ao_messages opts) info;
                  pf = (fs f)\<lparr>pf_info := Some info'\<rparr>
              in (fs(f := if skipAttach then pf else attachValidation pf), Inr ()))"

text \<open>\<open>parse\<close>: the elements with \<open>data-val\<close> that the selector finds, and the forms that hold one.\<close>

fun parse_elements :: "bool \<Rightarrow> (nat \<Rightarrow> input list) \<Rightarrow> parsed_element list \<Rightarrow> forms \<Rightarrow> forms \<times> unit result" where
  "parse_elements ext fields_of [] fs = (fs, Inr ())"
| "parse_elements ext fields_of (pe # pes) fs =
     (case parseElement ext fields_of pe True fs of
        (fs', Inl err) \<Rightarrow> (fs', Inl err)
      | (fs', Inr _) \<Rightarrow> parse_elements ext fields_of pes fs')"

definition attach_form :: "forms \<Rightarrow> nat \<Rightarrow> forms" where
  "attach_form fs f = fs(f := attachValidation ((fs f)\<lparr>pf_info := Some (validationInfo (fs f))\<rparr>))"

definition parse :: "bool \<Rightarrow> (nat \<Rightarrow> input list) \<Rightarrow> parsed_element list \<Rightarrow> nat list \<Rightarrow> forms \<Rightarrow> forms \<times> unit result" where
  "parse ext fields_of els found fs =
     (case parse_elements ext fields_of els fs of
        (fs', Inl err) \<Rightarrow> (fs', Inl err)
      | (fs', Inr _) \<Rightarrow> (foldl attach_form fs' found, Inr ()))"

text \<open>The rules and messages as the validator holds them: undefined values are not copied.\<close>

definition rule_value :: "adapted \<Rightarrow> rule_param option" where
  "rule_value a =
     (case a of
        Flagged \<Rightarrow> Some (P (VBool True))
      | Single v \<Rightarrow> map_option (\<lambda>s. P (VText s)) v
      | Bounds lo hi \<Rightarrow> Some (PList [VText lo, VText hi])
      | Other f \<Rightarrow> map_option PField f
      | Remotely address method names \<Rightarrow>
          Some (PObject ((case address of None \<Rightarrow> [] | Some u \<Rightarrow> [(js ''url'', VText u)]) @ [(js ''type'', VText method)])))"

definition rule_specs :: "val_info \<Rightarrow> rule_spec obj" where
  "rule_specs info =
     map (\<lambda>(n, rs). (n, Rules (List.map_filter (\<lambda>(k, a). map_option (\<lambda>p. (k, Raw p)) (rule_value a)) rs))) (vi_rules info)"

definition custom_messages :: "val_info \<Rightarrow> custom obj" where
  "custom_messages info = map (\<lambda>(n, ms). (n, PerMethod (map (\<lambda>(k, m). (k, Plain m)) ms))) (vi_messages info)"

end
