(* ===== verification/ValidatorSpec.thy ===== *)
theory ValidatorSpec
  imports ValidatorSamples ValidatorSubmits Unobtrusive
begin

text \<open>
  What the validator promises: which rules an accepted form keeps, what \<open>form\<close> reports, when a form is
  submitted.
\<close>

theorem pending_count_witness:
  "let t = handles (two_fields ''ann'' ''oslo'') Submit fresh in
    pendingRequest t = int (length (pending t)) \<and> distinct (keys (pending t))
    \<and> set (keys (inflight t)) \<subseteq> set (keys (pending t))"
  unfolding Let_def
proof (rule pending_count)
  show "started (two_fields ''ann'' ''oslo'') fresh"
    unfolding started_def fresh_def by (rule conjI, code_simp, blast)
  have "validator_step (two_fields ''ann'' ''oslo'') fresh (handles (two_fields ''ann'' ''oslo'') Submit fresh)"
    by (rule validator_step.event) (simp_all add: same_fields_def)
  then show "(validator_step (two_fields ''ann'' ''oslo''))\<^sup>*\<^sup>* fresh (handles (two_fields ''ann'' ''oslo'') Submit fresh)"
    by blast
qed

subsection \<open>Which methods make a field wait\<close>

definition never_waits :: "method_call \<Rightarrow> bool" where
  "never_waits f \<longleftrightarrow> (\<forall>pg e v p. f pg e v p \<noteq> Inr Pending)"

lemma optional_or_answers [simp]: "optional_or b c \<noteq> Pending"
  by (simp add: optional_or_def)

lemma rbind_not: "(\<And>x. r = Inr x \<Longrightarrow> f x \<noteq> Inr y) \<Longrightarrow> rbind r f \<noteq> Inr y"
  by (cases r) auto

lemma never_waits_kinds:
  "(\<And>b s. f b s \<noteq> Pending) \<Longrightarrow> never_waits (tested f)"
  "(\<And>b s p. g b s p \<noteq> Inr Pending) \<Longrightarrow> never_waits (tested_with g)"
  "(\<And>b s p. g b s p \<noteq> Inr Pending) \<Longrightarrow> never_waits (worked g)"
  "(\<And>b s p. g b s p \<noteq> Inr Pending) \<Longrightarrow> never_waits (early g)"
  "never_waits (always h)"
  "(\<And>b el p. k b el p \<noteq> Inr Pending) \<Longrightarrow> never_waits (fielded k)"
  "(\<And>b v p. l b v p \<noteq> Pending) \<Longrightarrow> never_waits (valued l)"
  "(\<And>fm v el p. m fm v el p \<noteq> Inr Pending) \<Longrightarrow> never_waits (measuring m)"
  by (auto simp: never_waits_def tested_def tested_with_def worked_def early_def always_def fielded_def valued_def
      measuring_def rbind_Inr_iff split: if_splits)

lemma never_after_test: "(\<And>s. f s \<noteq> Pending) \<Longrightarrow> after_test q f v \<noteq> Inr Pending"
  by (simp add: after_test_def split: jsval.split)

lemma never_waits_cards: "never_waits creditcard_method" "never_waits creditcardtypes_method"
  "never_waits bankaccountNL_method" "never_waits bankorgiroaccountNL_method" "never_waits dateITA_method"
  "never_waits vinUS_method"
proof -
  have "creditcard False s \<noteq> Pending" for s by (simp add: creditcard_def Let_def)
  then show "never_waits creditcard_method"
    by (auto simp: never_waits_def creditcard_method_def rbind_Inr_iff never_after_test split: if_splits)
  show "never_waits creditcardtypes_method"
    by (auto simp: never_waits_def creditcardtypes_method_def intro!: never_after_test)
  show "never_waits bankaccountNL_method"
    by (auto simp: never_waits_def bankaccountNL_method_def rbind_Inr_iff never_after_test split: if_splits)
  show "never_waits bankorgiroaccountNL_method"
    by (auto simp: never_waits_def bankorgiroaccountNL_method_def giroaccountNL_def rbind_Inr_iff split: if_splits)
  have "never_waits (tested dateITA)" by (rule never_waits_kinds) (simp add: dateITA_def Let_def)
  then show "never_waits dateITA_method"
    by (simp add: never_waits_def dateITA_method_def split: jsval.split)
  show "never_waits vinUS_method" by (simp add: never_waits_def vinUS_method_def split: jsval.split)
qed

lemma optional_orelse_answers: "optional_orelse fm el r \<noteq> Inr Pending"
  by (auto simp: optional_orelse_def rbind_Inr_iff split: if_splits)

lemma core_never_wait: "list_all (\<lambda>(k, f). never_waits f) core_methods"
proof -
  have "required fm v el d \<noteq> Inr Pending" for fm v el d
    by (auto simp: required_def rbind_Inr_iff split: if_splits)
  then have a: "never_waits (\<lambda>pg e v p. required (form pg) v (form pg ! e) (dependency_of pg p))"
    by (simp add: never_waits_def)
  have b: "never_waits (\<lambda>pg e v p. rbind (optional_of (form pg) (form pg ! e)) (\<lambda>b. Inr (dateMethod b (date_text pg v))))"
    by (auto simp: never_waits_def dateMethod_def rbind_Inr_iff split: if_splits)
  have "stepMethod b v t p \<noteq> Inr Pending" for b v t p
    by (simp add: stepMethod_def Let_def split: option.split)
  then have c: "never_waits (\<lambda>pg e v p. rbind (optional_of (form pg) (form pg ! e)) (\<lambda>b.
         stepMethod b v (el_attr_type (form pg ! e)) (param_val p)))"
    by (auto simp: never_waits_def rbind_Inr_iff split: if_splits)
  show ?thesis
    unfolding core_methods_def
    by (simp only: list.pred_inject prod.case a b c)
      (intro conjI TrueI never_waits_kinds; simp add: email_def url_def dateISO_def numberMethod_def digitsMethod_def
        minMethod_def maxMethod_def rangeMethod_def minlength_def maxlength_def rangelength_def
        rbind_not optional_orelse_answers)
qed

lemma additional_never_wait: "list_all (\<lambda>(k, f). never_waits f) additional_methods"
proof -
  have bad: "bad_pattern r \<noteq> Inr Pending" if "r \<noteq> Some Pending" for r
    using that by (cases r) (simp_all add: bad_pattern_def)
  have a: "currency b s p \<noteq> Some Pending" for b s p
    by (auto simp: currency_def Let_def split: currency_param.split)
  then have a: "currency_method b s p \<noteq> Inr Pending" for b s p
    by (auto simp: currency_method_def bad split: rule_param.split jsval.split list.split)
  have "patternMethod b s p \<noteq> Some Pending" for b s p by (auto simp: patternMethod_def)
  then have b: "pattern_method b s p \<noteq> Inr Pending" for b s p
    by (simp add: pattern_method_def bad split: option.split)
  have "extension b s p \<noteq> Some Pending" for b s p by (auto simp: extension_def Let_def)
  then have c: "bad_pattern (extension b s p) \<noteq> Inr Pending" for b s p by (rule bad)
  have d: "maxWords b s v \<noteq> Inr Pending" "minWords b s v \<noteq> Inr Pending" for b s v
    by (auto simp: maxWords_def minWords_def rbind_Inr_iff split: if_splits)
  have e: "rangeWords b s v \<noteq> Inr Pending" for b s v
    by (auto simp: rangeWords_def Let_def rbind_Inr_iff split: if_splits)
  have f: "accept b el p \<noteq> Inr Pending" for b el p
    by (simp add: accept_def split: option.split)
  show ?thesis
    unfolding additional_methods_def
    by (simp only: list.pred_inject prod.case never_waits_cards never_waits_kinds(5) simp_thms)
      (intro conjI TrueI never_waits_kinds; simp add: a b c d e f plainly_def flatly_def alphanumeric_def bic_def dateFA_def
        dateNL_def giroaccountNL_def integerMethod_def ipv4_def ipv6_def lettersonly_def letterswithbasicpunc_def
        mobileNL_def mobileRU_def mobileUK_def netmask_def nowhitespace_def phoneNL_def phonePL_def phonesUK_def
        phoneUK_def phoneUS_def postalcodeBR_def postalCodeCA_def postalcodeIT_def postalcodeNL_def postcodeUK_def
        stateUS_def timeMethod_def time12h_def url2_def zipcodeUS_def ziprange_def Let_def)
qed

lemma pure_verdict_answers: "map_of (custom_methods pg) m = None \<Longrightarrow> pure_verdict pg m e v p \<noteq> Inr Pending"
proof -
  assume n: "map_of (custom_methods pg) m = None"
  have "never_waits f" if f: "method_named m (core_methods @ additional_methods) = Some f" for f
  proof -
    obtain k where "(k, f) \<in> set (core_methods @ additional_methods)"
      using map_of_SomeD [OF f [unfolded method_named_def]] by auto
    then show ?thesis using core_never_wait additional_never_wait by (auto simp: list_all_iff)
  qed
  then show ?thesis using n by (auto simp: pure_verdict_def never_waits_def split: option.split)
qed

definition local_verdict :: "page \<Rightarrow> jstr \<Rightarrow> nat \<Rightarrow> jsval \<Rightarrow> rule_param \<Rightarrow> verdict result" where
  "local_verdict pg m e v p = snd (call_method pg m e v p fresh)"

text \<open>The verdict of every method but \<open>remote\<close> does not depend on the state of the validator.\<close>

lemma call_local:
  assumes "m \<noteq> js ''remote''"
  shows "snd (call_method pg m e v p st) = local_verdict pg m e v p"
proof (rule call_method_cases [of m pg e v p])
  fix g kind
  assume "binds kind g" and c: "call_method pg m e v p = compared g pg e v p"
  then obtain h where "g fm on ts e v s = (h fm ts v, bind_blur kind on ts e s)" for fm on ts e v s
    unfolding binds_def by blast
  with c show ?thesis by (simp add: local_verdict_def compared_def)
next
  assume c: "call_method pg m e v p = notEqualTo_method pg e v p"
  show ?thesis
    by (cases "optional_of (form pg) (form pg ! e)")
      (simp_all add: local_verdict_def c notEqualTo_method_def notEqualTo_def equalTo_def)
qed (use assms in \<open>simp_all add: local_verdict_def\<close>)

lemma local_answers:
  assumes "m \<noteq> js ''remote''" "map_of (custom_methods pg) m = None"
  shows "local_verdict pg m e v p \<noteq> Inr Pending"
proof (rule call_method_cases [of m pg e v p])
  fix g kind
  assume c: "call_method pg m e v p = compared g pg e v p"
  show ?thesis by (simp add: local_verdict_def c compared_def split: prod.split)
next
  assume c: "call_method pg m e v p = notEqualTo_method pg e v p"
  show ?thesis
    by (cases "optional_of (form pg) (form pg ! e)")
      (simp_all add: local_verdict_def c notEqualTo_method_def notEqualTo_def equalTo_def)
next
  assume "call_method pg m e v p = (\<lambda>st. (st, pure_verdict pg m e v p))"
  with pure_verdict_answers [OF assms(2)] show ?thesis by (simp add: local_verdict_def)
qed (use assms in simp)

lemma waits_is_remote:
  assumes "snd (call_method pg m e v p st) = Inr Pending" "map_of (custom_methods pg) m = None"
  shows "m = js ''remote''"
  using local_answers [OF _ assms(2)] call_local assms(1) by metis

text \<open>
  Methods that the page adds may answer \<open>"pending"\<close> too. \<open>prompt_methods\<close> tells that none does, as with the
  methods of \<open>jquery.validate.unobtrusive.js\<close>.
\<close>

definition prompt_methods :: "page \<Rightarrow> bool" where
  "prompt_methods pg \<longleftrightarrow> (\<forall>(k, f)\<in>set (custom_methods pg). \<forall>v e p. f v e p \<noteq> Inr Pending)"

lemma prompt_named: "prompt_methods pg \<Longrightarrow> map_of (custom_methods pg) m = Some f \<Longrightarrow> f v e p \<noteq> Inr Pending"
  by (auto simp: prompt_methods_def dest!: map_of_SomeD)

lemma prompt_none [simp]: "custom_methods pg = [] \<Longrightarrow> prompt_methods pg"
  by (simp add: prompt_methods_def)

lemma unobtrusive_prompt: "custom_methods pg = unobtrusive_methods fm \<Longrightarrow> prompt_methods pg"
proof -
  have "regexMethod fm v e p \<noteq> Inr Pending" for v e p
    unfolding regexMethod_def Let_def
    by (rule rbind_not) (auto simp: rbind_Inr_iff split: option.split prod.split list.split)
  moreover have "nonalphamin v p \<noteq> Inr Pending" for v p
    by (auto simp: nonalphamin_def rbind_Inr_iff split: list.splits)
  ultimately show "custom_methods pg = unobtrusive_methods fm \<Longrightarrow> ?thesis"
    by (simp add: prompt_methods_def unobtrusive_methods_def)
qed

text \<open>A method that waits is the plugin's \<open>remote\<close>.\<close>

lemma waits_by_remote:
  assumes "call_method pg m e v p st = (st', Inr Pending)" "prompt_methods pg"
  shows "remote pg e v p st = (st', Inr Pending)"
proof (cases "map_of (custom_methods pg) m")
  case None
  with waits_is_remote [of pg m e v p st] assms(1) have "m = js ''remote''" by simp
  with None assms(1) show ?thesis by (simp add: call_method_def)
next
  case (Some f)
  with assms(1) prompt_named [OF assms(2) Some, of v e p] show ?thesis by (simp add: call_method_def pure_verdict_def)
qed

subsection \<open>The loop over the rules\<close>

lemma run_rules_notes: "kept_notes (fst (run_rules pg e v n d rs st)) = kept_notes st"
proof (induction pg e v n d rs st rule: run_rules.induct)
  case (2 pg e v n d m p rs st)
  obtain st' r where c: "call_method pg m e v p st = (st', r)" by fastforce
  with notes_call_method [of pg m e v p st] have "kept_notes st' = kept_notes st" by simp
  with 2 c show ?case by (cases r) (simp_all add: c)
qed simp

lemma run_rules_Cons:
  "call_method pg m e v p st = (st', Inl err) \<Longrightarrow> run_rules pg e v n d ((m, p) # rs) st = (st', Raised err)"
  "call_method pg m e v p st = (st', Inr r) \<Longrightarrow> run_rules pg e v n d ((m, p) # rs) st =
     (if r = Pending then (st', Waiting) else if r = Verdict False then (st', Broken m p)
      else run_rules pg e v n (r = Mismatch \<and> n = 1) rs st')"
  by auto

declare run_rules.simps(2) [simp del]

text \<open>A loop that ran to its end called every rule, and none was broken.\<close>

lemma run_rules_all:
  assumes "snd (run_rules pg e v n d rs st) \<in> {Passed, Skipped}" "(m, p) \<in> set rs" "m \<noteq> js ''remote''"
  shows "local_verdict pg m e v p \<in> {Inr Mismatch, Inr (Verdict True)}"
  using assms(1,2)
proof (induction rs arbitrary: d st)
  case (Cons rule rs)
  obtain m' p' where rule: "rule = (m', p')" by (cases rule)
  obtain st' r where c: "call_method pg m' e v p' st = (st', r)" by fastforce
  show ?case
  proof (cases r)
    case (Inl err)
    with c Cons(2) show ?thesis by (simp add: rule run_rules_Cons)
  next
    case (Inr x)
    with c Cons(2) have x: "x = Mismatch \<or> x = Verdict True"
      and rest: "snd (run_rules pg e v n (x = Mismatch \<and> n = 1) rs st') \<in> {Passed, Skipped}"
      by (cases x; auto simp: rule run_rules_Cons split: if_splits)+
    show ?thesis
    proof (cases "(m, p) \<in> set rs")
      case True
      from Cons(1) [OF rest this] show ?thesis .
    next
      case False
      with Cons(3) rule have "m' = m" "p' = p" by auto
      with call_local [OF assms(3), of pg e v p st] c Inr x show ?thesis by auto
    qed
  qed
qed simp

text \<open>A loop that waits called \<open>remote\<close>, and its field is marked.\<close>

lemma remote_waits:
  assumes "remote pg e v p st = (st', Inr Pending)" "tracked pg0 st" "plain_names pg0" "same_fields pg0 pg"
    "e < length (form pg)"
  shows "name_of pg e \<in> set (keys (pending st'))"
proof -
  obtain b where o: "optional_of (form pg) (form pg ! e) = Inr b"
    using assms(1) by (cases "optional_of (form pg) (form pg ! e)") (simp_all add: remote_def)
  with assms(1) have b: "b = False" by (cases b) (simp_all add: remote_def)
  obtain s i where q: "previousValue pg e st = (s, i)" by fastforce
  have "requests s = requests st" using requests_memory(5) [of pg e st] q by simp
  then have t1: "tracked pg0 (update_previous i f (remember_message (name_of pg e) i s))" for f
    by (intro tracked_requests [THEN iffD2, OF _ assms(2)]) simp
  have "st' = send_request pg e v i (startRequest pg e
      (update_previous i (\<lambda>p'. p'\<lparr>old := Some (data_string pg v p)\<rparr>) (remember_message (name_of pg e) i s)))"
    using assms(1) by (simp add: remote_def o b q Let_def split: if_splits)
  with tracked_startRequest(2) [OF t1 assms(3-5)] show ?thesis by (simp add: send_request_def abort_port_def Let_def)
qed

lemma run_rules_waits:
  assumes "snd (run_rules pg e v n d rs st) = Waiting" "prompt_methods pg" "tracked pg0 st"
    "plain_names pg0" "same_fields pg0 pg" "e < length (form pg)"
  shows "name_of pg e \<in> set (keys (pending (fst (run_rules pg e v n d rs st))))"
  using assms(1,3)
proof (induction rs arbitrary: d st)
  case (Cons rule rs)
  obtain m p where rule: "rule = (m, p)" by (cases rule)
  obtain st' r where c: "call_method pg m e v p st = (st', r)" by fastforce
  then have t: "tracked pg0 st'" using tracked_call [OF Cons(3) assms(4-6), of m v p] by simp
  show ?case
  proof (cases r)
    case (Inl err)
    with c Cons(2) show ?thesis by (simp add: rule run_rules_Cons)
  next
    case (Inr x)
    show ?thesis
    proof (cases "x = Pending")
      case True
      have "remote pg e v p st = (st', Inr Pending)" by (rule waits_by_remote [of pg m, OF _ assms(2)]) (simp add: c Inr True)
      from remote_waits [OF this Cons(3) assms(4-6)] c Inr True show ?thesis by (simp add: rule run_rules_Cons)
    next
      case False
      with Cons(2) c Inr have "snd (run_rules pg e v n (x = Mismatch \<and> n = 1) rs st') = Waiting"
        "run_rules pg e v n d (rule # rs) st = run_rules pg e v n (x = Mismatch \<and> n = 1) rs st'"
        by (auto simp: rule run_rules_Cons split: if_splits)
      with Cons(1) [OF this(1) t] show ?thesis by simp
    qed
  qed
qed (simp split: if_splits)

subsection \<open>Checking every element\<close>

text \<open>An element passes when every rule of its target is kept, the remote one aside.\<close>

definition passes :: "page \<Rightarrow> nat \<Rightarrow> bool" where
  "passes pg e =
     (case validationTargetFor pg e of
        None \<Rightarrow> False
      | Some t \<Rightarrow>
          (case normalized pg t of
             (rs, v) \<Rightarrow>
               list_all (\<lambda>(m, p). m = js ''remote'' \<or> local_verdict pg m t v p \<in> {Inr Mismatch, Inr (Verdict True)}) rs))"

lemma run_rules_errors: "run_rules pg e v n d rs st = (s, oc) \<Longrightarrow> errorList s = errorList st"
  using run_rules_notes [of pg e v n d rs st] notes_eqD(1) [of s st] by simp

lemma check_errors:
  assumes "check pg e st = (st', Inr b)"
  shows "\<exists>its. errorList st' = errorList st @ its \<and> (its = [] \<longleftrightarrow> b \<noteq> Some False)"
proof -
  obtain t where t: "validationTargetFor pg e = Some t"
    using assms by (cases "validationTargetFor pg e") (simp_all add: check_def)
  obtain rs v where nv: "normalized pg t = (rs, v)" by fastforce
  obtain s oc where r: "run_rules pg t v (length (rules_of pg t)) False rs st = (s, oc)" by fastforce
  show ?thesis
    using assms t nv r run_rules_errors [OF r]
    by (cases oc) (auto simp: check_def formatAndAdd_def Let_def split: if_splits)
qed

lemma check_passes:
  assumes "check pg e st = (st', Inr b)" "b \<noteq> Some False" "prompt_methods pg" "tracked pg0 st"
    "plain_names pg0" "same_fields pg0 pg" "e < length (form pg)"
  shows "passes pg e \<or> pending st' \<noteq> []"
proof -
  obtain t where t: "validationTargetFor pg e = Some t"
    using assms(1) by (cases "validationTargetFor pg e") (auto simp: check_def)
  obtain rs v where nv: "normalized pg t = (rs, v)" by fastforce
  obtain s oc where r: "run_rules pg t v (length (rules_of pg t)) False rs st = (s, oc)" by fastforce
  have oc: "oc \<in> {Passed, Skipped} \<or> oc = Waiting" "pending st' = pending s"
    using assms(1,2) t nv r by (cases oc; auto simp: check_def split: if_splits)+
  show ?thesis
  proof (cases "oc = Waiting")
    case True
    with r have "snd (run_rules pg t v (length (rules_of pg t)) False rs st) = Waiting" by simp
    from run_rules_waits [OF this assms(3-6) target_range [OF t assms(7)]] r oc(2) show ?thesis by auto
  next
    case False
    with oc(1) r have "snd (run_rules pg t v (length (rules_of pg t)) False rs st) \<in> {Passed, Skipped}" by simp
    from run_rules_all [OF this] t nv show ?thesis by (auto simp: passes_def list_all_iff)
  qed
qed

text \<open>A field that waits goes on waiting while the form is checked.\<close>

lemma pending_startRequest: "n \<in> set (keys (pending st)) \<Longrightarrow> n \<in> set (keys (pending (startRequest pg e st)))"
  by (simp add: startRequest_def update_look_def)

lemma pending_remote: "n \<in> set (keys (pending st)) \<Longrightarrow> n \<in> set (keys (pending (fst (remote pg e v p st))))"
proof (cases "optional_of (form pg) (form pg ! e)")
  case (Inr b)
  assume n: "n \<in> set (keys (pending st))"
  obtain s i where q: "previousValue pg e st = (s, i)" by fastforce
  have eq: "pending x = pending y" if "requests x = requests y" for x y using that by (simp add: requests_def)
  have "requests s = requests st" using requests_memory(5) [of pg e st] q by simp
  then have a: "requests (remember_message (name_of pg e) i s) = requests st"
    "\<And>f. requests (update_previous i f (remember_message (name_of pg e) i s)) = requests st" by simp_all
  show ?thesis
    using n q Inr pending_startRequest [of n "update_previous i f (remember_message (name_of pg e) i s)" pg e for f]
    by (cases b) (auto simp: remote_def Let_def send_request_def abort_port_def eq [OF a(1)] eq [OF a(2)])
qed (simp add: remote_def)

lemma pending_call: "n \<in> set (keys (pending st)) \<Longrightarrow> n \<in> set (keys (pending (fst (call_method pg m e v p st))))"
  by (rule call_method_cases [of m pg e v p])
    (auto simp: pending_remote compared_def notEqualTo_method_def split: prod.split sum.split)

interpretation waiting: request_keeper "\<lambda>pg. plain_names pg0 \<and> same_fields pg0 pg"
  "\<lambda>st. tracked pg0 st \<and> n \<in> set (keys (pending st))" for pg0 n
proof
  show "tracked pg0 s \<and> n \<in> set (keys (pending s)) \<Longrightarrow> tracked pg0 t \<and> n \<in> set (keys (pending t))"
    if "requests s = requests t" for s t
    using that tracked_requests [OF that] by (simp add: requests_def)
  show "tracked pg0 (fst (call_method pg m e v p st)) \<and> n \<in> set (keys (pending (fst (call_method pg m e v p st))))"
    if "plain_names pg0 \<and> same_fields pg0 pg" "e < length (form pg)" "tracked pg0 st \<and> n \<in> set (keys (pending st))"
    for pg e st m v p
    using that tracked_call [of pg0 st pg e m v p] pending_call by blast
  show "e < length (form pg)" if "plain_names pg0 \<and> same_fields pg0 pg" "tracked pg0 st \<and> n \<in> set (keys (pending st))"
    "(kind, target, e) \<in> set (on_blur (blur st))" for pg st kind target e
    using that by (auto intro: counted.on_blur_range [of pg0 pg st])
qed

lemma check_all_errors:
  "check_all pg es st = (st', Inr u) \<Longrightarrow> \<exists>its. errorList st' = errorList st @ its"
proof (induction pg es st rule: check_all.induct)
  case (2 pg e es st)
  then obtain s b where c: "check pg e st = (s, Inr b)" "check_all pg es s = (st', Inr u)"
    by (auto simp: run_bind_Inr)
  from 2(1) [OF c(2)] check_errors [OF c(1)] show ?case by force
qed simp

text \<open>A run over the elements that reports nothing and leaves no request accepted every element.\<close>

lemma check_all_passes:
  assumes "check_all pg es st = (st', Inr u)" "errorList st' = errorList st" "pending st' = []"
    "prompt_methods pg" "tracked pg0 st" "plain_names pg0" "same_fields pg0 pg"
    "list_all (\<lambda>e. e < length (form pg)) es"
  shows "list_all (passes pg) es"
  using assms(1,2,5,8)
proof (induction es arbitrary: st)
  case (Cons e es)
  then obtain s b where c: "check pg e st = (s, Inr b)" "check_all pg es s = (st', Inr u)"
    by (auto simp: run_bind_Inr)
  obtain its its' where "errorList s = errorList st @ its" "its = [] \<longleftrightarrow> b \<noteq> Some False"
    "errorList st' = errorList s @ its'"
    using check_errors [OF c(1)] check_all_errors [OF c(2)] by blast
  with Cons(3) have e: "errorList st' = errorList s" "b \<noteq> Some False" by auto
  from Cons(5) have r: "e < length (form pg)" "list_all (\<lambda>e. e < length (form pg)) es" by auto
  have t: "tracked pg0 s"
    using counted.check_keeps [of pg0 pg e st] c(1) assms(6,7) r(1) Cons(4) by simp
  have "pending s = []"
  proof (rule ccontr)
    assume "pending s \<noteq> []"
    then obtain n where "n \<in> set (keys (pending s))" by (cases "pending s") auto
    with waiting.check_all_keeps [of pg0 pg es s n] assms(6,7) r(2) t c(2)
    have "n \<in> set (keys (pending st'))" by simp
    with assms(3) show False by simp
  qed
  with check_passes [OF c(1) e(2) assms(4) Cons(4) assms(6,7) r(1)] have "passes pg e" by blast
  with Cons(1) [OF c(2) e(1) t r(2)] show ?case by simp
qed simp

lemma form_check_parts:
  assumes "form_check pg st = (st', Inr b)"
  obtains s where "check_all pg (elements pg) ((prepareForm pg st)\<lparr>currentElements := elements pg\<rparr>) = (s, Inr ())"
    "core st' = core (note_form s)" "b = valid s"
proof -
  from assms obtain s1 s2 where "check_all pg (elements pg) ((prepareForm pg st)\<lparr>currentElements := elements pg\<rparr>) = (s1, Inr ())"
    and s2: "showErrors pg None (note_form s1) = (s2, Inr ())" "st' = s2" "b = valid s2"
    by (auto simp: form_check_def checkForm_def run_bind_Inr)
  moreover have c: "core s2 = core (note_form s1)"
    using core_showErrors_None [of pg "note_form s1"] s2(1) by simp
  moreover have "valid s2 = valid s1"
    using core_eqD(8) [OF c] by (simp add: valid_def note_form_def Let_def)
  ultimately show thesis using that by blast
qed

lemma note_form_core: "pending (note_form s) = pending s" "errorList (note_form s) = errorList s"
  "pendingRequest (note_form s) = pendingRequest s" "errorMap (note_form s) = errorMap s"
  "cancelSubmit (note_form s) = cancelSubmit s"
  by (simp_all add: note_form_def Let_def)

lemma prepareForm_errors: "errorList (prepareForm pg st) = []"
  by (simp add: prepareForm_def reset_state_def resetInternals_def)

lemma form_check_passes:
  assumes "form_check pg st = (st', Inr True)" "pending st' = []" "prompt_methods pg" "tracked pg0 st"
    "plain_names pg0" "same_fields pg0 pg"
  shows "list_all (passes pg) (elements pg)"
proof -
  let ?st = "(prepareForm pg st)\<lparr>currentElements := elements pg\<rparr>"
  obtain s where s: "check_all pg (elements pg) ?st = (s, Inr ())" "core st' = core (note_form s)" "valid s"
    using form_check_parts [OF assms(1)] by metis
  have "pending s = []" using core_eqD(2) [OF s(2)] assms(2) note_form_core(1) by simp
  moreover have "tracked pg0 ?st"
    using assms(4) tracked_requests [of ?st st pg0] by simp
  ultimately show ?thesis
    using check_all_passes [OF s(1) _ _ assms(3) _ assms(5,6)] s(3)
    by (simp add: valid_def prepareForm_errors list_all_iff elements_range)
qed


definition local_fields :: "string \<Rightarrow> page" where
  "local_fields a = sample_page [text_field ''city'' a] [[(''required'', P (VBool True))]]"

text \<open>The page as the unobtrusive library prepares it: with its methods, and its rule \<open>__dummy__\<close> on the field.\<close>

definition served_fields :: "string \<Rightarrow> page" where
  "served_fields a =
     (sample_page [text_field ''city'' a] [[(''required'', P (VBool True)), (''regex'', P (VText (slashed ''`w+''))),
        (''__dummy__'', P (VBool True))]])\<lparr>custom_methods := unobtrusive_methods [text_field ''city'' a]\<rparr>"


text \<open>
  C25: While a field waits for an answer, a submission by the user that is not cancelled submits nothing, and the
  field goes on waiting, unless a rule throws while the form is checked: then the browser submits the form, once
  (C27), but in debug mode. In particular a request that failed, whose answer never comes, blocks the form. The
  requests are counted as they always are (C24), and no field has the name of an inherited property.
\<close>

theorem waiting_blocks:
  assumes "\<not> cancelSubmit st" "tracked pg st" "plain_names pg" "n \<in> set (keys (pending st))"
  shows "n \<in> set (keys (pending (user_submit pg st)))
    \<and> submissions (user_submit pg st) =
        submissions st + (if isl (snd (form_check pg st)) \<and> \<not> debug pg then 1 else 0)"
proof -
  obtain s r where c: "form_check pg st = (s, r)" by fastforce
  have "plain_names pg \<and> same_fields pg pg" using assms(3) by (simp add: same_fields_def)
  from waiting.form_check_keeps [OF this, of st n] assms(2,4) c
  have w: "tracked pg s" "n \<in> set (keys (pending s))" by simp_all
  then have "pendingRequest s \<noteq> 0" by (cases "pending s") (auto simp: tracked_def)
  moreover have "submissions s = submissions st" using submissions_form_check [of pg st] c by simp
  moreover have "pending (focusInvalid pg s) = pending s" by (rule core_eqD(2) [OF core_focusInvalid])
  ultimately show ?thesis
    using assms(1) w(2)
    by (cases r) (auto simp: user_submit_def submit_handler_def submits_def c submissions_focusInvalid)
qed

definition after_failure :: vstate where
  "after_failure = handles (two_fields ''ann'' ''oslo'') (Failure (js ''user'')) (handles (two_fields ''ann'' ''oslo'') Submit fresh)"

theorem waiting_blocks_witness:
  "inflight after_failure = [] \<and> js ''user'' \<in> set (keys (pending (user_submit (two_fields ''ann'' ''oslo'') after_failure)))
    \<and> submissions (user_submit (two_fields ''ann'' ''oslo'') after_failure) = 0"
proof -
  have "js ''user'' \<in> set (keys (pending (user_submit (two_fields ''ann'' ''oslo'') after_failure)))
    \<and> submissions (user_submit (two_fields ''ann'' ''oslo'') after_failure) = submissions after_failure
      + (if isl (snd (form_check (two_fields ''ann'' ''oslo'') after_failure)) \<and> \<not> debug (two_fields ''ann'' ''oslo'') then 1 else 0)"
    by (rule waiting_blocks) code_simp+
  moreover have "inflight after_failure = []" "submissions after_failure = 0"
    "\<not> isl (snd (form_check (two_fields ''ann'' ''oslo'') after_failure))" by code_simp+
  ultimately show ?thesis by simp
qed

subsection \<open>A form without remote rules\<close>

text \<open>
  The specification knows no state: rule by rule, the verdict on the element that stands for a field, up to the first
  broken rule, the first method that waits, or the first that throws; then field by field, the broken rules in the
  order of the form, up to the first field whose check throws.
\<close>

fun rules_outcome :: "page \<Rightarrow> nat \<Rightarrow> jsval \<Rightarrow> rules \<Rightarrow> (jstr \<times> rule_param) option result" where
  "rules_outcome pg t v [] = Inr None"
| "rules_outcome pg t v ((m, p) # rs) =
     (case local_verdict pg m t v p of
        Inl err \<Rightarrow> Inl err
      | Inr r \<Rightarrow>
          if r = Verdict False then Inr (Some (m, p)) else if r = Pending then Inr None else rules_outcome pg t v rs)"

definition element_outcome :: "page \<Rightarrow> nat \<Rightarrow> (nat \<times> jstr \<times> rule_param) option result" where
  "element_outcome pg e =
     (case validationTargetFor pg e of
        None \<Rightarrow> Inl TypeError
      | Some t \<Rightarrow> (case normalized pg t of (rs, v) \<Rightarrow> rbind (rules_outcome pg t v rs) (\<lambda>r. Inr (map_option (Pair t) r))))"

fun elements_outcome :: "page \<Rightarrow> nat list \<Rightarrow> (nat \<times> jstr \<times> rule_param) list result" where
  "elements_outcome pg [] = Inr []"
| "elements_outcome pg (e # es) =
     rbind (element_outcome pg e) (\<lambda>r. rbind (elements_outcome pg es) (\<lambda>xs.
       Inr (case r of None \<Rightarrow> xs | Some x \<Rightarrow> x # xs)))"

definition form_outcome :: "page \<Rightarrow> (nat \<times> jstr \<times> rule_param) list result" where
  "form_outcome pg = elements_outcome pg (elements pg)"

text \<open>No rule that a check of the form comes to is a remote one.\<close>

definition remote_free :: "page \<Rightarrow> nat \<Rightarrow> bool" where
  "remote_free pg e =
     (case validationTargetFor pg e of
        None \<Rightarrow> True
      | Some t \<Rightarrow> js ''remote'' \<notin> fst ` set (fst (normalized pg t)))"

definition error_of :: "page \<Rightarrow> vstate \<Rightarrow> nat \<times> jstr \<times> rule_param \<Rightarrow> error_item" where
  "error_of pg st x =
     (case x of (t, m, p) \<Rightarrow> \<lparr>ei_element = Some t, ei_message = defaultMessage pg st t m p, ei_method = Some m\<rparr>)"

lemma local_call_state:
  assumes "m \<noteq> js ''remote''"
  shows "\<exists>s. fst (call_method pg m e v p st) = st\<lparr>blur := s\<rparr>"
proof (rule call_method_cases [of m pg e v p])
  fix g kind
  assume c: "call_method pg m e v p = compared g pg e v p"
  show ?thesis by (cases "g (form pg) (revalidates pg) (selects pg p) e v (blur st)") (auto simp: c compared_def)
next
  assume c: "call_method pg m e v p = notEqualTo_method pg e v p"
  show ?thesis
    by (cases "notEqualTo (form pg) (revalidates pg) (selects pg p) e v (blur st)")
      (auto simp: c notEqualTo_method_def intro: exI [of _ "blur st"])
next
  assume "call_method pg m e v p = (\<lambda>st. (st, pure_verdict pg m e v p))"
  then show ?thesis by (auto intro: exI [of _ "blur st"])
qed (use assms in simp)

definition ends_as :: "(jstr \<times> rule_param) option result \<Rightarrow> check_outcome \<Rightarrow> bool" where
  "ends_as r oc =
     (case r of
        Inl err \<Rightarrow> oc = Raised err
      | Inr None \<Rightarrow> oc \<in> {Passed, Skipped, Waiting}
      | Inr (Some (m, p)) \<Rightarrow> oc = Broken m p)"

lemma run_rules_outcome:
  assumes "js ''remote'' \<notin> fst ` set rs"
  shows "\<exists>s oc. run_rules pg t v n d rs st = (st\<lparr>blur := s\<rparr>, oc) \<and> ends_as (rules_outcome pg t v rs) oc"
  using assms
proof (induction rs arbitrary: d st)
  case Nil
  show ?case by (auto simp: ends_as_def intro: exI [of _ "blur st"])
next
  case (Cons rule rs)
  obtain m p where rule: "rule = (m, p)" by (cases rule)
  with Cons(2) have m: "m \<noteq> js ''remote''" and rs: "js ''remote'' \<notin> fst ` set rs" by auto
  obtain s where c: "call_method pg m t v p st = (st\<lparr>blur := s\<rparr>, local_verdict pg m t v p)"
    using local_call_state [OF m, of pg t v p st] call_local [OF m, of pg t v p st] by (metis prod.collapse)
  show ?case
  proof (cases "local_verdict pg m t v p")
    case (Inl err)
    with c show ?thesis by (auto simp: rule run_rules_Cons ends_as_def)
  next
    case (Inr x)
    note c' = run_rules_Cons(2) [OF c [unfolded Inr], of n d rs]
    show ?thesis
    proof (cases "x = Verdict False \<or> x = Pending")
      case True
      then have "run_rules pg t v n d (rule # rs) st = (st\<lparr>blur := s\<rparr>, if x = Pending then Waiting else Broken m p)"
        "rules_outcome pg t v (rule # rs) = Inr (if x = Pending then None else Some (m, p))"
        using c' Inr by (auto simp: rule)
      then show ?thesis by (simp only: ends_as_def) (simp, blast)
    next
      case False
      then have step: "run_rules pg t v n d (rule # rs) st = run_rules pg t v n (x = Mismatch \<and> n = 1) rs (st\<lparr>blur := s\<rparr>)"
        "rules_outcome pg t v (rule # rs) = rules_outcome pg t v rs"
        using c' Inr by (auto simp: rule)
      from Cons(1) [OF rs, of "x = Mismatch \<and> n = 1" "st\<lparr>blur := s\<rparr>"] show ?thesis unfolding step by simp
    qed
  qed
qed

lemma message_customs: "customs s = customs st \<Longrightarrow> defaultMessage pg s e m p = defaultMessage pg st e m p"
  by (simp add: defaultMessage_def chosen_message_def customMessage_def)

lemma error_customs: "customs s = customs st \<Longrightarrow> error_of pg s = error_of pg st"
  using message_customs [of s st pg] by (intro ext) (simp add: error_of_def split: prod.split)

lemma check_outcome:
  assumes "remote_free pg e"
  shows "case element_outcome pg e of
      Inl err \<Rightarrow> snd (check pg e st) = Inl err
    | Inr r \<Rightarrow> \<exists>s b. check pg e st = (s, Inr b) \<and> customs s = customs st
        \<and> errorList s = errorList st @ (case r of None \<Rightarrow> [] | Some x \<Rightarrow> [error_of pg st x])"
proof (cases "validationTargetFor pg e")
  case (Some t)
  obtain rs v where nv: "normalized pg t = (rs, v)" by fastforce
  from assms Some nv have "js ''remote'' \<notin> fst ` set rs" by (simp add: remote_free_def)
  from run_rules_outcome [OF this, of pg t v "length (rules_of pg t)" False st]
  obtain s oc where r: "run_rules pg t v (length (rules_of pg t)) False rs st = (st\<lparr>blur := s\<rparr>, oc)"
    and oc: "ends_as (rules_outcome pg t v rs) oc" by blast
  have o: "element_outcome pg e = rbind (rules_outcome pg t v rs) (\<lambda>r. Inr (map_option (Pair t) r))"
    by (simp add: element_outcome_def Some nv)
  note st = Some nv r check_def message_customs [of "st\<lparr>blur := s\<rparr>" st pg]
  show ?thesis
  proof (cases "rules_outcome pg t v rs")
    case (Inl err)
    with oc o st show ?thesis by (simp add: ends_as_def)
  next
    case (Inr x)
    show ?thesis
    proof (cases x)
      case None
      with Inr oc o st show ?thesis by (auto simp: ends_as_def)
    next
      case (Some mp)
      with Inr oc o st show ?thesis
        by (cases mp) (simp add: ends_as_def formatAndAdd_def error_of_def Let_def)
    qed
  qed
qed (simp add: check_def element_outcome_def)

lemma check_all_outcome:
  assumes "list_all (remote_free pg) es"
  shows "case elements_outcome pg es of
      Inl err \<Rightarrow> snd (check_all pg es st) = Inl err
    | Inr xs \<Rightarrow> \<exists>s. check_all pg es st = (s, Inr ()) \<and> customs s = customs st
        \<and> errorList s = errorList st @ map (error_of pg st) xs"
  using assms
proof (induction es arbitrary: st)
  case (Cons e es)
  then have e: "remote_free pg e" and es: "list_all (remote_free pg) es" by simp_all
  note c = check_outcome [OF e, of st]
  show ?case
  proof (cases "element_outcome pg e")
    case (Inl err)
    with c show ?thesis by (cases "check pg e st") simp
  next
    case (Inr r)
    with c obtain s b where s: "check pg e st = (s, Inr b)" "customs s = customs st"
      "errorList s = errorList st @ (case r of None \<Rightarrow> [] | Some x \<Rightarrow> [error_of pg st x])" by auto
    note error_customs [OF s(2), of pg]
    with Cons.IH [OF es, of s] Inr s show ?thesis
      by (cases "elements_outcome pg es") (auto split: option.split)
  qed
qed simp

lemma show_items_total:
  "list_all (\<lambda>it. ei_element it \<noteq> None) its \<Longrightarrow> \<exists>s. show_items pg its st = (s, Inr ())"
  by (induction pg its st rule: show_items.induct) auto

text \<open>Showing the errors of a form leaves them as they are.\<close>

lemma show_form_errors:
  assumes "list_all (\<lambda>it. ei_element it \<noteq> None) (errorList s)"
  shows "\<exists>s2. showErrors pg None (note_form s) = (s2, Inr ()) \<and> errorList s2 = errorList s"
proof -
  from assms have "list_all (\<lambda>it. ei_element it \<noteq> None) (errorList (note_form s))" by (simp add: note_form_core)
  from show_items_total [OF this] obtain s1 where "show_items pg (errorList (note_form s)) (note_form s) = (s1, Inr ())"
    by blast
  then obtain s2 where "showErrors pg None (note_form s) = (s2, Inr ())"
    by (simp add: showErrors_def defaultShowErrors_def)
  with core_eqD(8) [OF core_showErrors_None [of pg "note_form s"]] show ?thesis by (simp add: note_form_core(2))
qed

lemma form_check_outcome:
  assumes "list_all (remote_free pg) (elements pg)"
  shows "case form_outcome pg of
      Inl err \<Rightarrow> snd (form_check pg st) = Inl err
    | Inr xs \<Rightarrow> snd (form_check pg st) = Inr (xs = [])
        \<and> errorList (fst (form_check pg st)) = map (error_of pg st) xs"
proof -
  let ?st = "(prepareForm pg st)\<lparr>currentElements := elements pg\<rparr>"
  note c = check_all_outcome [OF assms, of ?st, folded form_outcome_def]
  show ?thesis
  proof (cases "form_outcome pg")
    case (Inl err)
    with c show ?thesis by (cases "check_all pg (elements pg) ?st") (simp add: form_check_def checkForm_def)
  next
    case (Inr xs)
    with c obtain s where s: "check_all pg (elements pg) ?st = (s, Inr ())"
      "errorList s = errorList ?st @ map (error_of pg ?st) xs" by auto
    have "customs ?st = customs st" by (simp add: prepareForm_def reset_state_def resetInternals_def)
    then have "error_of pg ?st = error_of pg st" by (rule error_customs)
    with s(2) have el: "errorList s = map (error_of pg st) xs" by (simp add: prepareForm_errors)
    then have "list_all (\<lambda>it. ei_element it \<noteq> None) (errorList s)" by (auto simp: list_all_iff error_of_def)
    from show_form_errors [OF this] obtain s2 where "showErrors pg None (note_form s) = (s2, Inr ())" "errorList s2 = errorList s"
      by blast
    with s(1) el Inr show ?thesis by (auto simp: form_check_def checkForm_def valid_def)
  qed
qed

text \<open>
  C23: Checking a form whose fields have no remote rules refines its specification, for every state of the
  validator: it throws exactly when the check of a field throws, and with that error; otherwise it answers whether
  no rule is broken, and the error list is the first broken rule of every field that has one, in the order of the
  form, with its message.
\<close>

theorem form_check_refines:
  assumes "list_all (remote_free pg) (elements pg)"
  shows "case form_outcome pg of
      Inl err \<Rightarrow> snd (form_check pg st) = Inl err
    | Inr xs \<Rightarrow> snd (form_check pg st) = Inr (xs = [])
        \<and> errorList (fst (form_check pg st)) = map (error_of pg st) xs"
  using assms by (rule form_check_outcome)

definition worded_field :: page where
  "worded_field = sample_page [text_field ''note'' ''!''] [[(''maxWords'', P (VText (js ''5'')))]]"

theorem form_check_refines_witness:
  "snd (form_check (local_fields '''') fresh) = Inr False
    \<and> map ei_method (errorList (fst (form_check (local_fields '''') fresh))) = [Some (js ''required'')]
    \<and> snd (form_check worded_field fresh) = Inl TypeError"
proof -
  have "case form_outcome (local_fields '''') of
      Inl err \<Rightarrow> snd (form_check (local_fields '''') fresh) = Inl err
    | Inr xs \<Rightarrow> snd (form_check (local_fields '''') fresh) = Inr (xs = [])
        \<and> errorList (fst (form_check (local_fields '''') fresh)) = map (error_of (local_fields '''') fresh) xs"
    by (rule form_check_refines) code_simp
  moreover have "form_outcome (local_fields '''') = Inr [(0, js ''required'', P (VBool True))]" by code_simp
  moreover have "case form_outcome worded_field of
      Inl err \<Rightarrow> snd (form_check worded_field fresh) = Inl err
    | Inr xs \<Rightarrow> snd (form_check worded_field fresh) = Inr (xs = [])
        \<and> errorList (fst (form_check worded_field fresh)) = map (error_of worded_field fresh) xs"
    by (rule form_check_refines) code_simp
  moreover have "form_outcome worded_field = Inl TypeError" by code_simp
  ultimately show ?thesis by (simp add: error_of_def)
qed

subsection \<open>Errors in methods\<close>

lemma word_methods:
  "method_named (js ''maxWords'') (core_methods @ additional_methods) = Some (worked (\<lambda>b s p. maxWords b s (param_val p)))"
  "method_named (js ''minWords'') (core_methods @ additional_methods) = Some (worked (\<lambda>b s p. minWords b s (param_val p)))"
  "method_named (js ''maxWords'') comparing_methods = None" "method_named (js ''minWords'') comparing_methods = None"
  by (simp_all add: method_named_def core_methods_def additional_methods_def comparing_methods_def)

text \<open>
  C27: A method that throws lets the form through: with a rule on the number of words and a value without
  any word, the browser submits the form although nothing was validated.
\<close>

theorem no_word_submits:
  assumes "elements pg = e # es" "validationTargetFor pg e = Some t"
    "normalized pg t = ((m, p) # rs, VText s)" "m \<in> {js ''maxWords'', js ''minWords''}"
    "map_of (custom_methods pg) m = None" "optional_of (form pg) (form pg ! t) = Inr False"
    "re_match_all False (rx ''`b`w+`b'') (stripHtml s) = []" "\<not> cancelSubmit st" "\<not> debug pg"
  shows "last (actions (user_submit pg st)) = Submits"
proof -
  let ?st = "(prepareForm pg st)\<lparr>currentElements := elements pg\<rparr>"
  have "word_count (stripHtml s) = Inl TypeError" using assms(7) by (simp add: word_count_def)
  then have "pure_verdict pg m t (VText s) p = Inl TypeError"
    using assms(4-6) word_methods(1,2)
    by (auto simp: pure_verdict_def worked_def as_text_def maxWords_def minWords_def)
  moreover have "call_method pg m t (VText s) p ?st = (?st, pure_verdict pg m t (VText s) p)"
    using assms(4,5) word_methods(3,4) by (auto simp: call_method_def)
  ultimately have "run_rules pg t (VText s) (length (rules_of pg t)) False ((m, p) # rs) ?st = (?st, Raised TypeError)"
    by (simp add: run_rules_Cons)
  then have "check pg e ?st = (?st, Inl TypeError)" using assms(2,3) by (simp add: check_def)
  then have "form_check pg st = (?st, Inl TypeError)" using assms(1) by (simp add: form_check_def checkForm_def)
  then show ?thesis using assms(8,9) by (simp add: user_submit_def submit_handler_def submits_def)
qed

theorem no_word_submits_witness: "last (actions (user_submit worded_field fresh)) = Submits"
  by (rule no_word_submits [of worded_field 0 "[]" 0 "js ''maxWords''" "P (VText (js ''5''))" "[]" "js ''!''"]) code_simp+


end
