(* ===== verification/ValidatorWaiting.thy ===== *)
theory ValidatorWaiting
  imports ValidatorSpec
begin

text \<open>
  A submission that waits for the answer of a remote request: what makes the validator forget it (the field
  \<open>formSubmitted\<close>), and what does not.
\<close>

subsection \<open>Operations that leave the submission waiting\<close>

lemma run_bind_waits:
  "formSubmitted (fst r) = b \<Longrightarrow> (\<And>s x. r = (s, Inr x) \<Longrightarrow> formSubmitted s = b \<Longrightarrow> formSubmitted (fst (f s x)) = b) \<Longrightarrow>
    formSubmitted (fst (run_bind r f)) = b"
  by (cases r; cases "snd r") (auto simp: run_bind_def)

lemma rules_leave_waiting: "formSubmitted (fst (run_rules pg e v n d rs st)) = formSubmitted st"
proof (induction pg e v n d rs st rule: run_rules.induct)
  case (2 pg e v n d m p rs st)
  obtain st' r where c: "call_method pg m e v p st = (st', r)" by fastforce
  with notes_eqD(7) [OF notes_call_method [of pg m e v p st]] 2 show ?case by (cases r) (simp_all add: run_rules.simps)
qed simp

lemma formSubmitted_simps [simp]:
  "formSubmitted (formatAndAdd pg e m p st) = formSubmitted st" "formSubmitted (note_form st) = formSubmitted st"
  "formSubmitted (note_element pg e b st) = formSubmitted st" "formSubmitted (prepareForm pg st) = formSubmitted st"
  "formSubmitted (prepareElement pg e st) = formSubmitted st" "formSubmitted (update_look e h st) = formSubmitted st"
  "formSubmitted (update_previous i g st) = formSubmitted st" "formSubmitted (resetInternals st) = formSubmitted st"
  by (simp_all add: formatAndAdd_def note_form_def note_element_def prepareForm_def prepareElement_def reset_state_def
      resetInternals_def update_look_def update_previous_def Let_def)

lemma check_waits: "formSubmitted (fst (check pg e st)) = formSubmitted st"
proof (cases "validationTargetFor pg e")
  case (Some t)
  obtain rs v where nv: "normalized pg t = (rs, v)" by fastforce
  obtain st' oc where r: "run_rules pg t v (length (rules_of pg t)) False rs st = (st', oc)" by fastforce
  with rules_leave_waiting [of pg t v "length (rules_of pg t)" False rs st] Some nv show ?thesis
    by (cases oc) (simp_all add: check_def)
qed (simp add: check_def)

lemma check_all_waits: "formSubmitted (fst (check_all pg es st)) = formSubmitted st"
proof (induction es arbitrary: st)
  case (Cons e es)
  show ?case
    unfolding check_all.simps by (rule run_bind_waits) (use Cons check_waits [of pg e st] in auto)
qed simp

lemma showErrors_waits: "formSubmitted (fst (showErrors pg x st)) = formSubmitted st"
  using core_eqD(14) [OF core_defaultShowErrors] by (simp add: showErrors_def Let_def split: option.split)

lemma checkForm_waits: "formSubmitted (fst (checkForm pg st)) = formSubmitted st"
  unfolding checkForm_def by (rule run_bind_waits) (simp_all add: check_all_waits)

lemma form_check_waits: "formSubmitted (fst (form_check pg st)) = formSubmitted st"
  unfolding form_check_def
  by (rule run_bind_waits, simp add: checkForm_waits, rule run_bind_waits) (simp_all add: showErrors_waits)

lemma check_group_waits: "formSubmitted (fst (check_group pg g n gs r st)) = formSubmitted st"
proof (induction gs arbitrary: r st)
  case (Cons x gs)
  obtain m tg where x: "x = (m, tg)" by (cases x)
  have c: "formSubmitted (fst (run_bind (check pg c (st\<lparr>currentElements := cs\<rparr>)) (\<lambda>st' x. check_group pg g n gs (x = Some True \<and> r) st'))) =
      formSubmitted st" for c cs
    by (rule run_bind_waits) (simp_all add: check_waits Cons)
  show ?case using Cons c by (simp add: x split: list.split option.split)
qed simp

lemma element_check_waits: "formSubmitted (fst (element_check pg e st)) = formSubmitted st"
proof (cases "validationTargetFor pg e")
  case (Some c)
  have g: "formSubmitted (fst (case group_of pg c of None \<Rightarrow> (s, Inr True)
      | Some g \<Rightarrow> check_group pg g (name_of pg c) (groups pg) True s)) = formSubmitted s" for s
    by (simp add: check_group_waits split: option.split)
  show ?thesis
    unfolding element_check_def Some option.case Let_def
    by (rule run_bind_waits, simp add: g, rule run_bind_waits, simp add: check_waits, rule run_bind_waits)
      (simp_all add: showErrors_waits)
qed (simp add: element_check_def)

lemma valid_elements_waits: "formSubmitted (fst (valid_elements pg es b acc st)) = formSubmitted st"
proof (induction es arbitrary: b acc st)
  case (Cons e es)
  show ?case
    unfolding valid_elements.simps by (rule run_bind_waits) (simp_all add: element_check_waits Cons Let_def)
qed simp

lemma on_target_blur_waits: "formSubmitted (fst (on_target_blur pg t st)) = formSubmitted st"
proof -
  have "formSubmitted (fst r) = b \<Longrightarrow> formSubmitted (fst (foldl (\<lambda>r (kind, t', e). run_bind r (\<lambda>st' _. if t' = t then
      valid_elements pg [e] True [] st' else (st', Inr True))) r bs)) = b" for r b and bs :: "(comparison \<times> nat \<times> nat) list"
  proof (induction bs arbitrary: r)
    case (Cons x bs)
    obtain kind t' e where x: "x = (kind, t', e)" by (cases x)
    have "formSubmitted (fst (run_bind r (\<lambda>st' _. if t' = t then valid_elements pg [e] True [] st' else (st', Inr True)))) = b"
      by (rule run_bind_waits [OF Cons.prems]) (simp add: valid_elements_waits del: valid_elements.simps)
    with Cons.IH show ?case by (simp add: x)
  qed simp
  then show ?thesis by (simp add: on_target_blur_def)
qed

lemma delegate_waits: "formSubmitted (fst (h st)) = formSubmitted st \<Longrightarrow> formSubmitted (fst (delegate f pg e h x st)) = formSubmitted st"
  by (simp add: delegate_def Let_def)

lemma resetForm_waits: "formSubmitted (resetForm pg st) = formSubmitted st"
proof -
  have c: "core (foldl (\<lambda>st i. update_look i h st) s is) = core s" for h s "is" by (rule core_foldl) simp
  have "core (resetElements pg es s) = core s" for es s unfolding resetElements_def by (intro core_foldl) (simp add: c)
  from core_eqD(14) [OF this] core_eqD(14) [OF core_hideThese(2)] show ?thesis by (simp add: resetForm_def Let_def)
qed

lemma handle_waits: "formSubmitted (fst (handle pg st)) = formSubmitted st"
  using core_eqD(14) [OF core_handle] by simp

lemma submit_handler_waits: "formSubmitted st \<Longrightarrow> formSubmitted (fst (submit_handler pg st))"
proof -
  assume s: "formSubmitted st"
  have h: "formSubmitted (fst (case handle pg s of (st', b) \<Rightarrow> (st', Inr b :: bool result))) = formSubmitted s" for s
    using handle_waits [of pg s] by (cases "handle pg s") simp
  have "formSubmitted (fst (run_bind (form_check pg st) (\<lambda>st1 ok. if ok
        then (if pendingRequest st1 \<noteq> 0 then (st1\<lparr>formSubmitted := True\<rparr>, Inr False)
              else (case handle pg st1 of (st', b) \<Rightarrow> (st', Inr b)))
        else (focusInvalid pg st1, Inr False)))) = True"
    by (rule run_bind_waits) (use s h core_eqD(14) [OF core_focusInvalid] in \<open>simp_all add: form_check_waits\<close>)
  with s h [of "st\<lparr>cancelSubmit := False\<rparr>"] show ?thesis by (simp add: submit_handler_def)
qed

lemma user_submit_waits: "formSubmitted st \<Longrightarrow> formSubmitted (user_submit pg st)"
  using submit_handler_waits [of st pg]
  by (cases "submit_handler pg st"; cases "snd (submit_handler pg st)") (simp_all add: user_submit_def submits_def)

subsection \<open>Answers\<close>

text \<open>An answer that is accepted, on a page whose form is found invalid whatever the validator remembers.\<close>

definition found_invalid :: "page \<Rightarrow> bool" where
  "found_invalid pg = (\<forall>s. snd (form_check pg s) \<noteq> Inr True)"

lemma stopRequest_waits: "formSubmitted st \<Longrightarrow> found_invalid pg \<Longrightarrow> formSubmitted (fst (stopRequest pg e True st))"
proof -
  assume s: "formSubmitted st" and f: "found_invalid pg"
  have "formSubmitted (fst (run_bind (form_check pg s) (\<lambda>st2 fine. if fine \<and> pendingRequest st2 = 0 then g st2 else (st2, Inr ()))))"
    if "formSubmitted s" for s and g :: "vstate \<Rightarrow> unit run"
  proof (rule run_bind_waits [where b = True, simplified])
    show "formSubmitted (fst (form_check pg s))" using that by (simp add: form_check_waits)
    show "formSubmitted (fst (if x \<and> pendingRequest s' = 0 then g s' else (s', Inr ())))"
      if "form_check pg s = (s', Inr x)" "formSubmitted s'" for s' x
      using that f [unfolded found_invalid_def, rule_format, of s] by (cases x) simp_all
  qed
  from this s show ?thesis by (simp add: stopRequest_def Let_def)
qed

lemma remote_success_waits:
  assumes "formSubmitted st" "found_invalid pg" "accepts r"
  shows "formSubmitted (fst (remote_success pg n r st))"
proof (cases "map_of (inflight st) n")
  case (Some x)
  obtain e v i where x: "x = (e, v, i)" by (cases x)
  let ?st1 = "set_own_message n (originalMessage (previouses st ! i)) (st\<lparr>inflight := remove n (inflight st)\<rparr>)"
  let ?st2 = "resetInternals ?st1"
  let ?s = "?st2\<lparr>toHide := map Label (errorsFor pg e ?st2), successList := successList ?st2 @ [e],
      invalid := put n (VBool False) (invalid ?st2)\<rparr>"
  have "formSubmitted ?st1" using notes_eqD(7) [OF notes_request(6)] assms(1) by simp
  then have "formSubmitted (fst (showErrors pg None ?s)) = True" by (simp add: showErrors_waits)
  then have "formSubmitted (fst (run_bind (showErrors pg None ?s)
      (\<lambda>st4 _. stopRequest pg e True (update_previous i (\<lambda>p. p\<lparr>prev_valid := True\<rparr>) st4)))) = True"
    by (rule run_bind_waits) (simp add: stopRequest_waits assms(2))
  with Some x assms(3) show ?thesis by (simp add: remote_success_def Let_def)
qed (simp add: remote_success_def assms(1))

text \<open>What cannot take a waiting submission back: any event but an answer that settles it.\<close>

definition leaves_waiting :: "page \<times> event \<Rightarrow> bool" where
  "leaves_waiting x = (case x of (pg, ev) \<Rightarrow> (case ev of Response n r \<Rightarrow> accepts r \<and> found_invalid pg | _ \<Rightarrow> True))"

lemma handles_waits: "formSubmitted st \<Longrightarrow> leaves_waiting (pg, ev) \<Longrightarrow> formSubmitted (handles pg ev st)"
proof (cases ev)
  case (FocusIn e)
  assume "formSubmitted st"
  with FocusIn core_eqD(14) [OF core_onfocusin [of pg e st]] show ?thesis by (simp add: handles_def delegate_waits)
next
  case (KeyUp e key)
  assume "formSubmitted st"
  with KeyUp show ?thesis by (simp add: handles_def delegate_waits onkeyup_def element_check_waits)
qed (simp_all add: handles_def leaves_waiting_def delegate_waits onfocusout_def onclick_def element_check_waits
    on_target_blur_waits submit_click_def user_submit_waits remote_success_waits remote_failure_def resetForm_waits Let_def
    split: sum.split)

text \<open>
  C26: A submission that waits for an answer is not taken back by anything that happens on the page: edits, checks,
  further submissions that fail, a reset of the form, failed requests, and accepted answers that find the form invalid all
  leave it waiting.
\<close>

theorem submission_keeps_waiting:
  assumes "formSubmitted st" "list_all leaves_waiting evs"
  shows "formSubmitted (foldl (\<lambda>st (pg, ev). handles pg ev st) st evs)"
  using assms by (induction evs arbitrary: st) (auto simp: handles_waits)

text \<open>
  A later answer then submits the form, though nobody submitted it again: the last answer that is accepted while the
  form is found valid.
\<close>

theorem late_answer_submits:
  assumes "formSubmitted st" "pendingRequest st = 1"
    "form_check pg (update_look e (\<lambda>k. k\<lparr>lk_pending := False\<rparr>)
       (st\<lparr>pendingRequest := 0, pending := remove (name_of pg e) (pending st)\<rparr>)) = (st2, Inr True)"
    "pendingRequest st2 = 0" "submit_handler pg st2 = (st3, Inr True)" "\<not> debug pg"
  shows "Submits \<in> set (actions (fst (stopRequest pg e True st)))"
  using assms by (simp add: stopRequest_def trigger_submit_def run_bind_def submits_def Let_def update_look_def)


subsection \<open>Examples\<close>

text \<open>A form with a field whose first rule is broken, and not a remote one, is found invalid in every state.\<close>

lemma broken_check:
  assumes "validationTargetFor pg e = Some t" "normalized pg t = ((m, p) # rs, v)" "m \<noteq> js ''remote''"
    "local_verdict pg m t v p = Inr (Verdict False)" "check pg e st = (st', Inr b)"
  shows "b = Some False"
proof -
  obtain s where "call_method pg m t v p st = (s, Inr (Verdict False))"
    using call_local [OF assms(3), of pg t v p st] assms(4) by (metis prod.collapse)
  from run_rules_Cons(2) [OF this] assms(1,2,5) show ?thesis by (simp add: check_def)
qed

lemma broken_check_all:
  assumes "\<And>st st' b. check pg e st = (st', Inr b) \<Longrightarrow> b = Some False"
  shows "e \<in> set es \<Longrightarrow> check_all pg es st = (st', Inr u) \<Longrightarrow> errorList st' \<noteq> []"
proof (induction es arbitrary: st)
  case (Cons d es)
  from Cons.prems(2) obtain s b where c: "check pg d st = (s, Inr b)" "check_all pg es s = (st', Inr u)"
    by (auto simp: run_bind_Inr)
  show ?case
  proof (cases "d = e")
    case True
    from check_errors [OF c(1)] assms [OF c(1) [unfolded True]] have "errorList s \<noteq> []" by auto
    with check_all_errors [OF c(2)] show ?thesis by auto
  next
    case False
    with Cons.IH [OF _ c(2)] Cons.prems(1) show ?thesis by simp
  qed
qed simp

lemma broken_found_invalid:
  assumes "e \<in> set (elements pg)" "validationTargetFor pg e = Some t" "normalized pg t = ((m, p) # rs, v)"
    "m \<noteq> js ''remote''" "local_verdict pg m t v p = Inr (Verdict False)"
  shows "found_invalid pg"
proof -
  have "snd (form_check pg s) \<noteq> Inr True" for s
  proof
    assume "snd (form_check pg s) = Inr True"
    then have "form_check pg s = (fst (form_check pg s), Inr True)" by (simp add: prod_eqI)
    from form_check_parts [OF this] obtain s1 where
      "check_all pg (elements pg) ((prepareForm pg s)\<lparr>currentElements := elements pg\<rparr>) = (s1, Inr ())" "valid s1"
      by metis
    with broken_check_all [OF broken_check [OF assms(2-5)] assms(1)] show False by (auto simp: valid_def)
  qed
  then show ?thesis by (simp add: found_invalid_def)
qed

lemma empty_city_invalid: "found_invalid (two_fields ''ann'' '''')"
  by (rule broken_found_invalid [of 1 _ 1 "js ''required''" "P (VBool True)" "[]" "VText []"]) code_simp+

text \<open>
  The name is being looked up when the form is submitted; before the answer comes, the city is emptied, and then
  filled in again.
\<close>

theorem submission_keeps_waiting_witness:
  "map_of (inflight (handles (two_fields ''ann'' ''oslo'') Submit fresh)) (js ''user'') = Some (0, VText (js ''ann''), 0)
    \<and> formSubmitted (foldl (\<lambda>st (pg, ev). handles pg ev st) (handles (two_fields ''ann'' ''oslo'') Submit fresh)
     [(two_fields ''ann'' '''', KeyUp 1 8), (two_fields ''ann'' '''', Response (js ''user'') RTrue),
      (two_fields ''ann'' '''', Submit), (two_fields ''ann'' ''oslo'', FocusOut 1), (two_fields ''ann'' ''oslo'', ResetForm)])"
proof
  show "map_of (inflight (handles (two_fields ''ann'' ''oslo'') Submit fresh)) (js ''user'') = Some (0, VText (js ''ann''), 0)"
    by code_simp
  have s: "formSubmitted (handles (two_fields ''ann'' ''oslo'') Submit fresh)" by code_simp
  show "formSubmitted (foldl (\<lambda>st (pg, ev). handles pg ev st) (handles (two_fields ''ann'' ''oslo'') Submit fresh)
     [(two_fields ''ann'' '''', KeyUp 1 8), (two_fields ''ann'' '''', Response (js ''user'') RTrue),
      (two_fields ''ann'' '''', Submit), (two_fields ''ann'' ''oslo'', FocusOut 1), (two_fields ''ann'' ''oslo'', ResetForm)])"
    by (rule submission_keeps_waiting [OF s]) (simp add: leaves_waiting_def empty_city_invalid accepts_def)
qed

theorem late_answer_submits_witness:
  "Submits \<in> set (actions (fst (stopRequest (local_fields ''oslo'') 0 True (fresh\<lparr>formSubmitted := True, pendingRequest := 1\<rparr>))))"
proof -
  let ?pg = "local_fields ''oslo''"
  let ?st = "fresh\<lparr>formSubmitted := True, pendingRequest := 1\<rparr>"
  let ?st1 = "update_look 0 (\<lambda>k. k\<lparr>lk_pending := False\<rparr>) (?st\<lparr>pendingRequest := 0, pending := remove (name_of ?pg 0) (pending ?st)\<rparr>)"
  show ?thesis
  proof (rule late_answer_submits)
    show "form_check ?pg ?st1 = (fst (form_check ?pg ?st1), Inr True)" by (rule prod_eqI) (simp, code_simp)
    show "submit_handler ?pg (fst (form_check ?pg ?st1)) = (fst (submit_handler ?pg (fst (form_check ?pg ?st1))), Inr True)"
      by (rule prod_eqI) (simp, code_simp)
  qed code_simp+
qed


end
