(* ===== verification/UnobtrusiveSpec.thy ===== *)
theory UnobtrusiveSpec
  imports Unobtrusive ValidatorSamples
begin

text \<open>
  What the attributes \<open>data-val-...\<close> of a page become: which rules and messages each adapter makes, when parsing
  throws and what is left then, which validator a form gets, and what the message containers show.
\<close>

subsection \<open>Running the adapters\<close>

lemma run_adapters_append:
  "run_adapters pe (as @ bs) opts =
     (case run_adapters pe as opts of (o', Inl e) \<Rightarrow> (o', Inl e) | (o', Inr _) \<Rightarrow> run_adapters pe bs o')"
  by (induction pe as opts rule: run_adapters.induct) (simp_all add: Let_def split: option.split sum.split)

definition total :: "adapter \<Rightarrow> bool" where
  "total a = (\<forall>opts. \<exists>opts'. adapt a opts = Inr opts')"

text \<open>An adapter that leaves the rule \<open>k\<close> and its message alone.\<close>

definition view :: "jstr \<Rightarrow> adapt_options \<Rightarrow> adapted option \<times> jstr option \<times> input \<times> input list" where
  "view k opts = (map_of (ao_rules opts) k, map_of (ao_messages opts) k, ao_element opts, ao_fields opts)"

definition keeps :: "jstr \<Rightarrow> adapter \<Rightarrow> bool" where
  "keeps k a = (\<forall>opts opts'. adapt a opts = Inr opts' \<longrightarrow> view k opts' = view k opts)"

lemma view_params [simp]: "view k (opts\<lparr>ao_message := m, ao_params := ps\<rparr>) = view k opts"
  by (simp add: view_def)

lemma run_adapters_total: "list_all total as \<Longrightarrow> snd (run_adapters pe as opts) = Inr ()"
proof (induction pe as opts rule: run_adapters.induct)
  case (2 pe a as opts)
  from 2(3) obtain f where f: "\<And>opts. adapt a opts = Inr (f opts)" by (simp add: total_def) metis
  show ?case using 2 f by (simp add: Let_def split: option.split)
qed simp

lemma run_adapters_keeps:
  "list_all (keeps k) as \<Longrightarrow> run_adapters pe as opts = (opts', r) \<Longrightarrow> view k opts' = view k opts"
proof (induction pe as opts rule: run_adapters.induct)
  case (2 pe a as opts)
  let ?p = "js ''data-val-'' @ ad_name a"
  show ?case
  proof (cases "pe_attr pe ?p")
    case None
    with 2 show ?thesis by simp
  next
    case (Some m)
    let ?o = "opts\<lparr>ao_message := m, ao_params := foldl (\<lambda>ob k. put k (pe_attr pe (?p @ js ''-'' @ k)) ob) [] (ad_params a)\<rparr>"
    show ?thesis
    proof (cases "adapt a ?o")
      case (Inl e)
      with Some 2 show ?thesis by (auto simp: Let_def)
    next
      case (Inr o1)
      from 2(3) Inr have "view k o1 = view k opts" by (fastforce simp: keeps_def)
      with 2(2) [OF refl Some refl Inr] 2(3,4) Some Inr show ?thesis by (simp add: Let_def)
    qed
  qed
qed simp

lemma setValidationValues_simps [simp]:
  "map_of (ao_rules (setValidationValues r v opts)) = (map_of (ao_rules opts))(r \<mapsto> v)"
  "map_of (ao_messages (setValidationValues r v opts)) =
     (if ao_message opts \<noteq> [] then (map_of (ao_messages opts))(r \<mapsto> ao_message opts) else map_of (ao_messages opts))"
  "ao_element (setValidationValues r v opts) = ao_element opts" "ao_fields (setValidationValues r v opts) = ao_fields opts"
  "ao_params (setValidationValues r v opts) = ao_params opts" "ao_message (setValidationValues r v opts) = ao_message opts"
  by (auto simp: setValidationValues_def Let_def)

lemma view_other [simp]: "r \<noteq> k \<Longrightarrow> view k (setValidationValues r v opts) = view k opts"
  by (auto simp: view_def)

subsection \<open>The adapters of the library\<close>

lemmas adapter_defs = extension_adapters_def addSingleVal_def addBool_def addMinMax_def adaptMinMax_def add_adapter_def equalto_adapter_def required_adapter_def
  remote_adapter_def password_adapter_def fileextensions_adapter_def

lemma total_adapters: "a \<in> set (adapters ext) \<Longrightarrow> ad_name a \<noteq> js ''equalto'' \<Longrightarrow> total a"
  by (cases ext) (auto simp: adapters_def adapter_defs total_def Let_def)

lemma adapter_names: "map ad_name (adapters ext) = map js ((if ext then [''accept'', ''extension''] else [''extension'']) @
   [''regex'', ''creditcard'', ''date'', ''digits'', ''email'', ''number'', ''url'', ''length'', ''range'',
    ''minlength'', ''maxlength'', ''equalto'', ''required'', ''remote'', ''password'', ''fileextensions''])"
  by (simp add: adapters_def adapter_defs)

lemma distinct_adapters: "distinct (map ad_name (adapters ext))"
  unfolding adapter_names by (simp add: distinct_map inj_on_def)

lemma keeps_adapters:
  assumes "a \<in> set (adapters ext)"
  shows "ad_name a \<noteq> js ''required'' \<Longrightarrow> keeps (js ''required'') a"
    "ad_name a \<noteq> js ''range'' \<Longrightarrow> keeps (js ''range'') a"
    "ad_name a \<noteq> js ''equalto'' \<Longrightarrow> keeps (js ''equalTo'') a"
    "ad_name a \<noteq> js ''range'' \<Longrightarrow> keeps (js ''min'') a"
  using assms
  by (cases ext; auto simp: adapters_def adapter_defs keeps_def Let_def rule_name_def if_distrib [of "view _"]
      simp del: setValidationValues_simps split: option.splits)+

text \<open>The adapter of a name among the others.\<close>

lemma adapters_split:
  assumes "a \<in> set (adapters ext)"
  obtains as bs where "adapters ext = as @ a # bs" "\<And>x. x \<in> set as \<union> set bs \<Longrightarrow> x \<in> set (adapters ext) \<and> ad_name x \<noteq> ad_name a"
proof -
  from assms obtain as bs where s: "adapters ext = as @ a # bs" by (meson split_list)
  have "distinct (map ad_name (as @ a # bs))" using distinct_adapters [of ext] unfolding s .
  then have "ad_name a \<notin> ad_name ` (set as \<union> set bs)" by auto
  then have "x \<in> set (adapters ext) \<and> ad_name x \<noteq> ad_name a" if "x \<in> set as \<union> set bs" for x
    using that unfolding s by (metis Un_iff image_eqI set_ConsD set_append list.set_intros(2))
  with s that show thesis by blast
qed

lemma total_list: "(\<And>x. x \<in> set as \<Longrightarrow> x \<in> set (adapters ext) \<and> ad_name x \<noteq> js ''equalto'') \<Longrightarrow> list_all total as"
  unfolding list_all_iff by (blast intro: total_adapters)

definition start_options :: "input list \<Rightarrow> parsed_element \<Rightarrow> adapt_options" where
  "start_options fs pe =
     \<lparr>ao_element = pe_input pe, ao_fields = fs, ao_message = [], ao_params = [], ao_rules = [], ao_messages = []\<rparr>"

text \<open>Parsing an element throws exactly for \<open>equalto\<close> without its parameter.\<close>

definition lacks_other :: "parsed_element \<Rightarrow> bool" where
  "lacks_other pe = (pe_attr pe (js ''data-val-equalto'') \<noteq> None \<and> pe_attr pe (js ''data-val-equalto-other'') = None)"

lemma element_options_result:
  "snd (element_options ext fs pe) = (if lacks_other pe then Inl TypeError else Inr ())"
proof -
  let ?e = "\<lparr>ad_name = js ''equalto'', ad_params = [js ''other''], adapt = equalto_adapter\<rparr>"
  have "?e \<in> set (adapters ext)" by (simp add: adapters_def adapter_defs)
  from adapters_split [OF this] obtain as bs where s: "adapters ext = as @ ?e # bs"
    and o: "\<And>x. x \<in> set as \<union> set bs \<Longrightarrow> x \<in> set (adapters ext) \<and> ad_name x \<noteq> js ''equalto''" by auto
  have t: "list_all total as" "list_all total bs" using o by (auto intro!: total_list)
  obtain o1 where o1: "run_adapters pe as (start_options fs pe) = (o1, Inr ())"
    using run_adapters_total [OF t(1), of pe "start_options fs pe"] by (cases "run_adapters pe as (start_options fs pe)") auto
  have n: "js ''data-val-'' @ js ''equalto'' = js ''data-val-equalto''"
    "js ''data-val-equalto'' @ js ''-'' @ js ''other'' = js ''data-val-equalto-other''" by (simp_all add: js_def)
  have "snd (run_adapters pe (?e # bs) o1) = (if lacks_other pe then Inl TypeError else Inr ())"
    using run_adapters_total [OF t(2)]
    by (simp add: n lacks_other_def equalto_adapter_def param_of_def Let_def split: option.split)
  then show ?thesis
    unfolding element_options_def s run_adapters_append start_options_def [symmetric] o1 by simp
qed

text \<open>What one adapter makes of an element when all others leave its rule alone.\<close>

definition params_at :: "parsed_element \<Rightarrow> adapter \<Rightarrow> jstr option obj" where
  "params_at pe a =
     foldl (\<lambda>ob k. put k (pe_attr pe (js ''data-val-'' @ ad_name a @ js ''-'' @ k)) ob) [] (ad_params a)"

lemma one_adapter:
  assumes "a \<in> set (adapters ext)" "\<not> lacks_other pe" "\<And>x. x \<in> set (adapters ext) \<Longrightarrow> ad_name x \<noteq> ad_name a \<Longrightarrow> keeps k x"
  obtains o1 where "view k o1 = view k (start_options fs pe)"
    "case pe_attr pe (js ''data-val-'' @ ad_name a) of
       None \<Rightarrow> view k (fst (element_options ext fs pe)) = view k o1
     | Some m \<Rightarrow> \<exists>o2. adapt a (o1\<lparr>ao_message := m, ao_params := params_at pe a\<rparr>) = Inr o2
         \<and> view k (fst (element_options ext fs pe)) = view k o2"
proof -
  from adapters_split [OF assms(1)] obtain as bs where s: "adapters ext = as @ a # bs"
    and o: "\<And>x. x \<in> set as \<union> set bs \<Longrightarrow> x \<in> set (adapters ext) \<and> ad_name x \<noteq> ad_name a" by blast
  have ks: "list_all (keeps k) as" "list_all (keeps k) bs"
    using assms(3) o by (auto simp: list_all_iff)
  have r: "snd (run_adapters pe (as @ a # bs) (start_options fs pe)) = Inr ()"
    using element_options_result [of ext fs pe] assms(2) by (simp add: element_options_def s start_options_def)
  obtain o1 x where o1: "run_adapters pe as (start_options fs pe) = (o1, x)" by (cases "run_adapters pe as (start_options fs pe)")
  with r have x: "x = Inr ()" by (cases x) (simp_all add: run_adapters_append)
  have e: "fst (element_options ext fs pe) = fst (run_adapters pe (a # bs) o1)"
    unfolding element_options_def s run_adapters_append start_options_def [symmetric] o1 x by simp
  have r1: "snd (run_adapters pe (a # bs) o1) = Inr ()"
    using r unfolding run_adapters_append o1 x by simp
  have v1: "view k o1 = view k (start_options fs pe)" using run_adapters_keeps [OF ks(1) o1] .
  show thesis
  proof (cases "pe_attr pe (js ''data-val-'' @ ad_name a)")
    case None
    with e run_adapters_keeps [OF ks(2), of pe o1] that [OF v1] show thesis
      by (cases "run_adapters pe bs o1") simp
  next
    case (Some m)
    let ?o = "o1\<lparr>ao_message := m, ao_params := params_at pe a\<rparr>"
    from r1 Some obtain o2 where o2: "adapt a ?o = Inr o2"
      by (cases "adapt a ?o") (auto simp: Let_def params_at_def)
    with e Some have "fst (element_options ext fs pe) = fst (run_adapters pe bs o2)"
      by (simp add: Let_def params_at_def)
    with run_adapters_keeps [OF ks(2), of pe o2] Some o2 that [OF v1] show thesis
      by (cases "run_adapters pe bs o2") simp
  qed
qed

lemma view_start [simp]: "view k (start_options fs pe) = (None, None, pe_input pe, fs)"
  by (simp add: view_def start_options_def)

lemma view_set: "view k (setValidationValues k v opts) =
    (Some v, if ao_message opts \<noteq> [] then Some (ao_message opts) else map_of (ao_messages opts) k, ao_element opts, ao_fields opts)"
  by (simp add: view_def)

lemma adapter_rule:
  assumes "\<lparr>ad_name = n, ad_params = ps, adapt = f\<rparr> \<in> set (adapters ext)" "\<not> lacks_other pe"
    "\<And>x. x \<in> set (adapters ext) \<Longrightarrow> ad_name x \<noteq> n \<Longrightarrow> keeps k x"
  obtains (absent) "pe_attr pe (js ''data-val-'' @ n) = None" "view k (fst (element_options ext fs pe)) = (None, None, pe_input pe, fs)"
  | (there) m o1 o2 where "pe_attr pe (js ''data-val-'' @ n) = Some m" "view k o1 = (None, None, pe_input pe, fs)"
      "ao_params o1 = foldl (\<lambda>ob k. put k (pe_attr pe (js ''data-val-'' @ n @ js ''-'' @ k)) ob) [] ps"
      "f o1 = Inr o2" "view k (fst (element_options ext fs pe)) = view k o2"
proof (rule one_adapter [OF assms(1,2), of k fs])
  show "x \<in> set (adapters ext) \<Longrightarrow> ad_name x \<noteq> ad_name \<lparr>ad_name = n, ad_params = ps, adapt = f\<rparr> \<Longrightarrow> keeps k x" for x
    using assms(3) by simp
next
  fix o1
  assume v: "view k o1 = view k (start_options fs pe)"
    and c: "case pe_attr pe (js ''data-val-'' @ ad_name \<lparr>ad_name = n, ad_params = ps, adapt = f\<rparr>) of
       None \<Rightarrow> view k (fst (element_options ext fs pe)) = view k o1
     | Some m \<Rightarrow> \<exists>o2. adapt \<lparr>ad_name = n, ad_params = ps, adapt = f\<rparr>
           (o1\<lparr>ao_message := m, ao_params := params_at pe \<lparr>ad_name = n, ad_params = ps, adapt = f\<rparr>\<rparr>) = Inr o2
         \<and> view k (fst (element_options ext fs pe)) = view k o2"
  show thesis
  proof (cases "pe_attr pe (js ''data-val-'' @ n)")
    case None
    with c v show thesis by (auto intro: absent)
  next
    case (Some m)
    with c obtain o2 where "f (o1\<lparr>ao_message := m, ao_params := params_at pe \<lparr>ad_name = n, ad_params = ps, adapt = f\<rparr>\<rparr>) = Inr o2"
      "view k (fst (element_options ext fs pe)) = view k o2" by auto
    with v show thesis by (intro there [OF Some]) (simp_all add: params_at_def)
  qed
qed

lemma required_rule:
  assumes "\<not> lacks_other pe"
  shows "map_of (ao_rules (fst (element_options ext fs pe))) (js ''required'') =
    (if pe_attr pe (js ''data-val-required'') \<noteq> None
        \<and> \<not> (js_upper (el_node (pe_input pe)) = js ''INPUT'' \<and> js_upper (el_type (pe_input pe)) = js ''CHECKBOX'')
     then Some Flagged else None)"
proof -
  have a: "\<lparr>ad_name = js ''required'', ad_params = [], adapt = required_adapter\<rparr> \<in> set (adapters ext)"
    by (simp add: adapters_def adapter_defs)
  have n: "js ''data-val-'' @ js ''required'' = js ''data-val-required''" by (simp add: js_def)
  show ?thesis
    by (rule adapter_rule [OF a assms keeps_adapters(1), where fs = fs, unfolded n])
      (auto simp: required_adapter_def view_def)
qed

abbreviation range_adapter :: "adapt_options \<Rightarrow> adapt_options result" where
  "range_adapter \<equiv> adaptMinMax (js ''min'') (js ''max'') (js ''range'')"

lemma range_entry: "\<lparr>ad_name = js ''range'', ad_params = [js ''min'', js ''max''], adapt = range_adapter\<rparr> \<in> set (adapters ext)"
  by (simp add: adapters_def extension_adapters_def addSingleVal_def addBool_def addMinMax_def add_adapter_def rule_name_def)

lemma range_names: "js ''data-val-'' @ js ''range'' = js ''data-val-range''"
  "js ''data-val-'' @ js ''range'' @ js ''-'' @ js ''min'' = js ''data-val-range-min''"
  "js ''data-val-'' @ js ''range'' @ js ''-'' @ js ''max'' = js ''data-val-range-max''"
  by (simp_all add: js_def)

lemma range_rule:
  assumes "\<not> lacks_other pe"
  shows "map_of (ao_rules (fst (element_options ext fs pe))) (js ''range'') =
    (if pe_attr pe (js ''data-val-range'') \<noteq> None
        \<and> given (pe_attr pe (js ''data-val-range-min'')) \<and> given (pe_attr pe (js ''data-val-range-max''))
     then Some (Bounds (the (pe_attr pe (js ''data-val-range-min''))) (the (pe_attr pe (js ''data-val-range-max'')))) else None)"
  by (rule adapter_rule [OF range_entry [of ext] assms keeps_adapters(2), where fs = fs, unfolded range_names])
    (auto simp: range_names adaptMinMax_def Let_def param_of_def view_def)

lemma min_rule:
  assumes "\<not> lacks_other pe"
  shows "map_of (ao_rules (fst (element_options ext fs pe))) (js ''min'') =
    (if pe_attr pe (js ''data-val-range'') \<noteq> None
        \<and> given (pe_attr pe (js ''data-val-range-min'')) \<and> \<not> given (pe_attr pe (js ''data-val-range-max''))
     then Some (Single (pe_attr pe (js ''data-val-range-min''))) else None)"
  by (rule adapter_rule [OF range_entry [of ext] assms keeps_adapters(4), where fs = fs, unfolded range_names])
    (auto simp: range_names adaptMinMax_def Let_def param_of_def view_def)

text \<open>\<open>equalTo\<close> is the first field with the name that is meant.\<close>

lemma equalto_rule:
  assumes "\<not> lacks_other pe"
  shows "map_of (ao_rules (fst (element_options ext fs pe))) (js ''equalTo'') =
    (if pe_attr pe (js ''data-val-equalto'') \<noteq> None
     then Some (Other (field_called fs (appendModelPrefix (the (pe_attr pe (js ''data-val-equalto-other''))) (getModelPrefix (el_name (pe_input pe))))))
     else None)"
proof -
  have a: "\<lparr>ad_name = js ''equalto'', ad_params = [js ''other''], adapt = equalto_adapter\<rparr> \<in> set (adapters ext)"
    by (simp add: adapters_def adapter_defs)
  have n: "js ''data-val-'' @ js ''equalto'' = js ''data-val-equalto''"
    "js ''data-val-'' @ js ''equalto'' @ js ''-'' @ js ''other'' = js ''data-val-equalto-other''" by (simp_all add: js_def)
  show ?thesis
    by (rule adapter_rule [OF a assms keeps_adapters(3), where fs = fs, unfolded n])
      (auto simp: n Let_def equalto_adapter_def param_of_def view_def split: option.splits)
qed

subsection \<open>Parsing the page\<close>

definition bad_element :: "parsed_element \<Rightarrow> bool" where
  "bad_element pe = (pe_form pe \<noteq> None \<and> lacks_other pe)"

definition made_rules :: "bool \<Rightarrow> (nat \<Rightarrow> input list) \<Rightarrow> nat \<Rightarrow> parsed_element \<Rightarrow> adapted obj \<times> jstr obj" where
  "made_rules ext fields_of f pe =
     (let opts = fst (element_options ext (fields_of f) pe)
      in (put (js ''__dummy__'') Flagged (ao_rules opts), ao_messages opts))"

lemma parseElement_result:
  "snd (parseElement ext fields_of pe b fs) = (if bad_element pe then Inl TypeError else Inr ())"
proof (cases "pe_form pe")
  case None
  then show ?thesis by (simp add: parseElement_def bad_element_def)
next
  case (Some f)
  with element_options_result [of ext "fields_of f" pe] show ?thesis
    by (cases "element_options ext (fields_of f) pe") (auto simp: parseElement_def bad_element_def Let_def split: sum.splits if_splits)
qed

lemma parseElement_settings [simp]:
  "pf_settings (fst (parseElement ext fields_of pe True fs) f) = pf_settings (fs f)"
  by (simp add: parseElement_def Let_def split: option.split prod.split sum.split)

lemma parseElement_info:
  assumes "\<not> bad_element pe"
  shows "pf_info (fst (parseElement ext fields_of pe True fs) f) =
    (if pe_form pe = Some f
     then Some (note_rules (el_name (pe_input pe)) (fst (made_rules ext fields_of f pe)) (snd (made_rules ext fields_of f pe)) (validationInfo (fs f)))
     else pf_info (fs f))"
proof (cases "pe_form pe")
  case None
  then show ?thesis by (simp add: parseElement_def)
next
  case (Some g)
  with element_options_result [of ext "fields_of g" pe] assms show ?thesis
    by (cases "element_options ext (fields_of g) pe") (auto simp: parseElement_def bad_element_def made_rules_def Let_def)
qed

lemma parse_elements_result:
  "snd (parse_elements ext fields_of els fs) = (if list_ex bad_element els then Inl TypeError else Inr ())"
proof (induction els arbitrary: fs)
  case (Cons pe els)
  with parseElement_result [of ext fields_of pe True fs] show ?case
    by (cases "parseElement ext fields_of pe True fs") (auto split: sum.splits if_splits)
qed simp

lemma parse_elements_settings [simp]:
  "pf_settings (fst (parse_elements ext fields_of els fs) f) = pf_settings (fs f)"
proof (induction els arbitrary: fs)
  case (Cons pe els)
  have "pf_settings (fst (parseElement ext fields_of pe True fs) f) = pf_settings (fs f)" by simp
  with Cons show ?case
    by (cases "parseElement ext fields_of pe True fs") (simp split: sum.split)
qed simp

definition last_called :: "nat \<Rightarrow> jstr \<Rightarrow> parsed_element list \<Rightarrow> parsed_element option" where
  "last_called f n els =
     (case filter (\<lambda>pe. pe_form pe = Some f \<and> el_name (pe_input pe) = n) els of [] \<Rightarrow> None | pes \<Rightarrow> Some (last pes))"

lemma last_called_simps [simp]:
  "last_called f n [] = None"
  "last_called f n (pe # els) =
     (case last_called f n els of Some x \<Rightarrow> Some x
      | None \<Rightarrow> if pe_form pe = Some f \<and> el_name (pe_input pe) = n then Some pe else None)"
  by (simp_all add: last_called_def split: list.split)

lemma parse_elements_info:
  assumes "\<not> list_ex bad_element els"
  shows "map_of (vi_rules (validationInfo (fst (parse_elements ext fields_of els fs) f))) n =
      (case last_called f n els of Some pe \<Rightarrow> Some (fst (made_rules ext fields_of f pe)) | None \<Rightarrow> map_of (vi_rules (validationInfo (fs f))) n)
    \<and> map_of (vi_messages (validationInfo (fst (parse_elements ext fields_of els fs) f))) n =
      (case last_called f n els of Some pe \<Rightarrow> Some (snd (made_rules ext fields_of f pe)) | None \<Rightarrow> map_of (vi_messages (validationInfo (fs f))) n)"
  using assms
proof (induction els arbitrary: fs)
  case (Cons pe els)
  obtain fs' where p: "parseElement ext fields_of pe True fs = (fs', Inr ())"
    using parseElement_result [of ext fields_of pe True fs] Cons.prems by (cases "parseElement ext fields_of pe True fs") auto
  have i: "validationInfo (fs' f) =
      (if pe_form pe = Some f
       then note_rules (el_name (pe_input pe)) (fst (made_rules ext fields_of f pe)) (snd (made_rules ext fields_of f pe)) (validationInfo (fs f))
       else validationInfo (fs f))"
    using parseElement_info [of pe ext fields_of fs f] Cons.prems p by (simp add: validationInfo_def)
  from Cons.IH [of fs'] Cons.prems show ?case
    by (auto simp: p i note_rules_def split: option.splits)
qed simp

lemma attach_form_settings:
  "pf_settings (attach_form fs g f) =
     (case pf_settings (fs f) of Some v \<Rightarrow> Some v | None \<Rightarrow> if f = g then Some (validationInfo (fs f)) else None)"
  by (simp add: attach_form_def attachValidation_def validationInfo_def split: option.split)

lemma attach_forms_settings:
  "pf_settings (foldl attach_form fs gs f) =
     (case pf_settings (fs f) of Some v \<Rightarrow> Some v | None \<Rightarrow> if f \<in> set gs then Some (validationInfo (fs f)) else None)"
proof (induction gs arbitrary: fs)
  case Nil
  show ?case by (simp split: option.split)
next
  case (Cons g gs)
  have "validationInfo (attach_form fs g f) = validationInfo (fs f)"
    by (simp add: attach_form_def attachValidation_def validationInfo_def split: option.split)
  with Cons show ?case by (simp add: attach_form_settings split: option.split)
qed

lemma parse_simps:
  "list_ex bad_element els \<Longrightarrow> parse ext fields_of els found fs = (fst (parse_elements ext fields_of els fs), Inl TypeError)"
  "\<not> list_ex bad_element els \<Longrightarrow> parse ext fields_of els found fs = (foldl attach_form (fst (parse_elements ext fields_of els fs)) found, Inr ())"
  using parse_elements_result [of ext fields_of els fs]
  by (cases "parse_elements ext fields_of els fs"; simp add: parse_def)+

subsection \<open>From an attribute to the rules of the validator\<close>

lemma run_adapters_invariant:
  assumes "\<And>opts m ps. I (opts\<lparr>ao_message := m, ao_params := ps\<rparr>) = I opts"
    "\<And>a opts opts'. a \<in> set as \<Longrightarrow> adapt a opts = Inr opts' \<Longrightarrow> I opts \<Longrightarrow> I opts'"
  shows "I opts \<Longrightarrow> I (fst (run_adapters pe as opts))"
  using assms(2)
proof (induction pe as opts rule: run_adapters.induct)
  case (2 pe a as opts)
  then show ?case
    using assms(1) by (fastforce simp: Let_def split: option.splits sum.splits)
qed simp

lemma distinct_setValidationValues [simp]:
  "distinct (keys (ao_rules opts)) \<Longrightarrow> distinct (keys (ao_rules (setValidationValues r v opts)))"
  by (simp add: setValidationValues_def Let_def distinct_put)

lemma distinct_element_options: "distinct (keys (ao_rules (fst (element_options ext fs pe))))"
  unfolding element_options_def
proof (rule run_adapters_invariant)
  show "distinct (keys (ao_rules opts'))"
    if "a \<in> set (adapters ext)" "adapt a opts = Inr opts'" "distinct (keys (ao_rules opts))" for a opts opts'
    using that by (auto simp: adapters_def adapter_defs Let_def simp del: setValidationValues_simps split: option.splits if_splits)
qed simp_all

lemma distinct_made_rules: "distinct (keys (fst (made_rules ext fields_of f pe)))"
  by (simp add: made_rules_def Let_def distinct_put distinct_element_options)

definition kept_rules :: "adapted obj \<Rightarrow> raw_rules" where
  "kept_rules rs = List.map_filter (\<lambda>(k, a). map_option (\<lambda>p. (k, Raw p)) (rule_value a)) rs"

lemma kept_rules_simps [simp]:
  "kept_rules [] = []"
  "kept_rules ((k, a) # rs) = (case rule_value a of None \<Rightarrow> kept_rules rs | Some p \<Rightarrow> (k, Raw p) # kept_rules rs)"
  by (simp_all add: kept_rules_def List.map_filter_simps split: option.split)

lemma keys_kept_rules: "set (keys (kept_rules rs)) \<subseteq> set (keys rs)"
  by (induction rs) (auto split: option.splits)

lemma distinct_kept_rules: "distinct (keys rs) \<Longrightarrow> distinct (keys (kept_rules rs))"
proof (induction rs)
  case (Cons x rs)
  with keys_kept_rules [of rs] show ?case by (cases x) (auto split: option.split)
qed simp

lemma map_of_kept_rules:
  "distinct (keys rs) \<Longrightarrow> map_of (kept_rules rs) k =
     (case map_of rs k of None \<Rightarrow> None | Some a \<Rightarrow> map_option Raw (rule_value a))"
proof (induction rs)
  case (Cons x rs)
  obtain k' a where x: "x = (k', a)" by (cases x)
  have "k' \<notin> set (keys (kept_rules rs))" using Cons.prems keys_kept_rules [of rs] by (auto simp: x)
  then have "map_of (kept_rules rs) k' = None" by (simp add: map_of_None)
  with Cons show ?case by (auto simp: x split: option.split)
qed simp

lemma map_of_rule_specs: "map_of (rule_specs info) n = map_option (\<lambda>rs. Rules (kept_rules rs)) (map_of (vi_rules info) n)"
  by (simp add: rule_specs_def kept_rules_def map_of_map)

lemma collected_static:
  "distinct (keys (staticRules specs n)) \<Longrightarrow> map_of (staticRules specs n) k = Some p \<Longrightarrow>
     map_of (collected methods cs specs n el) k = Some p"
  by (simp add: collected_def map_of_extend)

lemma check_dependencies_keeps:
  "check_dependencies raw = Inr (kept, n) \<Longrightarrow> map_of raw k = Some (Raw (P (VBool True))) \<Longrightarrow>
     map_of kept k = Some (Raw (P (VBool True)))"
proof (induction raw arbitrary: kept n)
  case (Cons x raw)
  obtain k' v where x: "x = (k', v)" by (cases x)
  from Cons.prems(1) obtain w m rs' m' where a: "dependency_check v = Inr (w, m)" "check_dependencies raw = Inr (rs', m')"
    and b: "kept = (case w of None \<Rightarrow> rs' | Some v' \<Rightarrow> (k', v') # rs')"
    by (auto simp: x rbind_Inr_iff)
  from Cons.IH [OF a(2)] Cons.prems(2) a(1) b show ?case
    by (auto simp: x dependency_check_def split: option.splits if_splits)
qed simp

lemma map_of_keyed: "map_of (map (\<lambda>(k, v). (k, f k v)) rs) k = map_option (f k) (map_of rs k)"
  by (induction rs) auto

lemma auto_range_other: "k \<notin> {lo, hi, both} \<Longrightarrow> map_of (auto_range lo hi both rs) k = map_of rs k"
  by (simp add: auto_range_def map_of_remove)

lemma element_rules_required:
  assumes "element_rules auto methods cs specs n el = Inr (rs, resets)"
    "distinct (keys (staticRules specs n))" "map_of (staticRules specs n) (js ''required'') = Some (Raw (P (VBool True)))"
  shows "\<exists>rest. rs = (js ''required'', P (VBool True)) # rest"
proof -
  obtain data where d: "normalizeRules auto (collected methods cs specs n el) = Inr (data, resets)"
    and rs: "rs = remote_last (required_first data)"
    using assms(1) by (auto simp: element_rules_def rbind_Inr_iff)
  obtain kept where k: "check_dependencies (collected methods cs specs n el) = Inr (kept, resets)"
    and data: "data = (let rules = clean_params (map (\<lambda>(k, v). (k, evaluated k v)) kept) in
       if auto then auto_range (js ''minlength'') (js ''maxlength'') (js ''rangelength'')
                   (auto_range (js ''min'') (js ''max'') (js ''range'') rules) else rules)"
    using d by (auto simp: normalizeRules_def rbind_Inr_iff Let_def)
  have "map_of kept (js ''required'') = Some (Raw (P (VBool True)))"
    by (rule check_dependencies_keeps [OF k collected_static [OF assms(2,3)]])
  then have "map_of (clean_params (map (\<lambda>(k, v). (k, evaluated k v)) kept)) (js ''required'') = Some (P (VBool True))"
    by (simp add: clean_params_def map_of_keyed evaluated_def del: map_map)
  then have r: "map_of data (js ''required'') = Some (P (VBool True))"
    by (simp add: data Let_def auto_range_other)
  have "distinct (keys data)" by (rule distinct_normalizeRules [OF d distinct_collected])
  from required_first_props(3) [OF this r] obtain rest where "required_first data = (js ''required'', P (VBool True)) # rest"
    by (auto simp: param_truthy_def val_truthy_def)
  then show ?thesis
    by (auto simp: rs remote_last_def remove_Cons split: option.split)
qed

subsection \<open>Properties\<close>

text \<open>A field of the form 0 with its attributes, for the examples.\<close>

definition data_field :: "string \<Rightarrow> (string \<times> string) list \<Rightarrow> parsed_element" where
  "data_field n as =
     \<lparr>pe_input = text_field n [], pe_form = Some 0, pe_attr = map_of (map (\<lambda>(k, v). (js k, js v)) as)\<rparr>"

definition no_forms :: forms where
  "no_forms = (\<lambda>_. \<lparr>pf_info = None, pf_settings = None\<rparr>)"

text \<open>
  C32: What the attributes of an element say is what its rules are: \<open>data-val-required\<close> makes the rule
  \<open>required\<close> except for a checkbox, \<open>data-val-range\<close> with both bounds makes \<open>range\<close>, and \<open>data-val-equalto\<close>
  makes \<open>equalTo\<close> with the first field of the name that is meant.
\<close>

theorem adapters_make_rules:
  assumes "\<not> lacks_other pe" "rs = ao_rules (fst (element_options ext fs pe))"
  shows "map_of rs (js ''required'') =
      (if pe_attr pe (js ''data-val-required'') \<noteq> None
          \<and> \<not> (js_upper (el_node (pe_input pe)) = js ''INPUT'' \<and> js_upper (el_type (pe_input pe)) = js ''CHECKBOX'')
       then Some Flagged else None)
    \<and> map_of rs (js ''range'') =
      (if pe_attr pe (js ''data-val-range'') \<noteq> None
          \<and> given (pe_attr pe (js ''data-val-range-min'')) \<and> given (pe_attr pe (js ''data-val-range-max''))
       then Some (Bounds (the (pe_attr pe (js ''data-val-range-min''))) (the (pe_attr pe (js ''data-val-range-max'')))) else None)
    \<and> map_of rs (js ''equalTo'') =
      (if pe_attr pe (js ''data-val-equalto'') \<noteq> None
       then Some (Other (field_called fs (appendModelPrefix (the (pe_attr pe (js ''data-val-equalto-other'')))
              (getModelPrefix (el_name (pe_input pe))))))
       else None)"
  using required_rule [OF assms(1), of ext fs] range_rule [OF assms(1), of ext fs] equalto_rule [OF assms(1), of ext fs]
  unfolding assms(2) by blast

theorem adapters_make_rules_witness:
  "map_of (ao_rules (fst (element_options False [] (data_field ''age'' [(''data-val-required'', ''!''), (''data-val-range'', ''?''),
      (''data-val-range-min'', ''1''), (''data-val-range-max'', ''9'')])))) (js ''range'') = Some (Bounds (js ''1'') (js ''9''))"
proof -
  let ?pe = "data_field ''age'' [(''data-val-required'', ''!''), (''data-val-range'', ''?''),
      (''data-val-range-min'', ''1''), (''data-val-range-max'', ''9'')]"
  have "\<not> lacks_other ?pe" by code_simp
  note r = adapters_make_rules [OF this refl, of False "[]", THEN conjunct2, THEN conjunct1]
  have "pe_attr ?pe (js ''data-val-range'') \<noteq> None" "pe_attr ?pe (js ''data-val-range-min'') = Some (js ''1'')"
    "pe_attr ?pe (js ''data-val-range-max'') = Some (js ''9'')" "given (Some (js ''1''))" "given (Some (js ''9''))"
    by code_simp+
  then show ?thesis unfolding r by simp
qed

text \<open>
  The first parsing of a page gives every form that it finds a validator with, for each name, the rules and
  messages that the adapters make of the last field of that name, and nothing for other names.
\<close>

theorem parse_attaches:
  assumes "\<not> list_ex bad_element els" "f \<in> set found" "pf_info (fs f) = None" "pf_settings (fs f) = None"
  shows "case pf_settings (fst (parse ext fields_of els found fs) f) of
      None \<Rightarrow> False
    | Some info \<Rightarrow>
        map_of (vi_rules info) n = map_option (\<lambda>pe. fst (made_rules ext fields_of f pe)) (last_called f n els)
        \<and> map_of (vi_messages info) n = map_option (\<lambda>pe. snd (made_rules ext fields_of f pe)) (last_called f n els)"
proof -
  have "validationInfo (fs f) = \<lparr>vi_rules = [], vi_messages = []\<rparr>" using assms(3) by (simp add: validationInfo_def)
  with parse_elements_info [OF assms(1), of ext fields_of fs f n] assms(2,4) show ?thesis
    by (simp add: parse_simps(2) [OF assms(1)] attach_forms_settings split: option.splits)
qed

text \<open>
  C29: From the attribute to the check: a field with \<open>data-val-required\<close> that is no checkbox has, whatever else
  the page says of it, the rule \<open>required\<close>, as the first of its rules.
\<close>

theorem required_attribute_rules:
  assumes "\<not> list_ex bad_element els" "f \<in> set found" "pf_info (fs f) = None" "pf_settings (fs f) = None"
    "last_called f n els = Some pe" "pe_attr pe (js ''data-val-required'') \<noteq> None"
    "js_upper (el_type (pe_input pe)) \<noteq> js ''CHECKBOX''"
    "pf_settings (fst (parse ext fields_of els found fs) f) = Some info"
    "element_rules auto methods cs (rule_specs info) n el = Inr (rs, resets)"
  shows "hd rs = (js ''required'', P (VBool True))"
proof -
  have i: "info = validationInfo (fst (parse_elements ext fields_of els fs) f)"
    using assms(2,4,8) by (simp add: parse_simps(2) [OF assms(1)] attach_forms_settings)
  have r: "map_of (vi_rules info) n = Some (fst (made_rules ext fields_of f pe))"
    using parse_elements_info [OF assms(1), of ext fields_of fs f n] assms(5) by (simp add: i)
  have "pe \<in> set els \<and> pe_form pe = Some f"
    using assms(5) by (induction els) (auto split: option.splits if_splits)
  then have "\<not> lacks_other pe" using assms(1) by (auto simp: list_ex_iff bad_element_def)
  from required_rule [OF this, of ext "fields_of f"] assms(6,7)
  have "map_of (fst (made_rules ext fields_of f pe)) (js ''required'') = Some Flagged"
    by (simp add: made_rules_def Let_def)
  with r distinct_made_rules [of ext fields_of f pe]
  have "distinct (keys (staticRules (rule_specs info) n))"
    "map_of (staticRules (rule_specs info) n) (js ''required'') = Some (Raw (P (VBool True)))"
    by (simp_all add: staticRules_def map_of_rule_specs normalizeRule_def distinct_kept_rules map_of_kept_rules rule_value_def)
  from element_rules_required [OF assms(9) this] show ?thesis by auto
qed

definition user_field :: parsed_element where
  "user_field = data_field ''user'' [(''data-val-required'', ''!'')]"

definition bare_element :: element_data where
  "bare_element = \<lparr>class_attr = None, type_attr = Some (js ''text''), attr_of = (\<lambda>_. None), data_of = (\<lambda>_. VUndef)\<rparr>"

theorem parse_attaches_witness:
  "case pf_settings (fst (parse False (\<lambda>_. []) [user_field] [0] no_forms) 0) of
      None \<Rightarrow> False
    | Some info \<Rightarrow>
        map_of (vi_rules info) (js ''user'') = map_option (\<lambda>pe. fst (made_rules False (\<lambda>_. []) 0 pe)) (last_called 0 (js ''user'') [user_field])
        \<and> map_of (vi_messages info) (js ''user'') = map_option (\<lambda>pe. snd (made_rules False (\<lambda>_. []) 0 pe)) (last_called 0 (js ''user'') [user_field])"
  by (rule parse_attaches) code_simp+

theorem required_attribute_rules_witness:
  "hd [(js ''required'', P (VBool True)), (js ''__dummy__'', P (VBool True))] = (js ''required'', P (VBool True))"
proof (rule required_attribute_rules [where ext = False and els = "[user_field]" and f = 0 and found = "[0]" and fs = no_forms and
      n = "js ''user''" and pe = user_field and fields_of = "\<lambda>_. []" and auto = False and methods = "[js ''required'']" and
      cs = classRuleSettings and el = bare_element and resets = 0 and
      info = "\<lparr>vi_rules = [(js ''user'', [(js ''required'', Flagged), (js ''__dummy__'', Flagged)])],
               vi_messages = [(js ''user'', [(js ''required'', js ''!'')])]\<rparr>"])
  show "last_called 0 (js ''user'') [user_field] = Some user_field"
    by (simp add: user_field_def data_field_def text_field_def)
qed code_simp+

text \<open>
  C30: Parsing throws exactly for an element of a form with \<open>data-val-equalto\<close> and no \<open>data-val-equalto-other\<close>,
  and then no form of the page gets a validator, whatever the other elements ask for.
\<close>

theorem parse_throws_iff:
  "(snd (parse ext fields_of els found fs) = Inl TypeError) =
     list_ex (\<lambda>pe. pe_form pe \<noteq> None \<and> pe_attr pe (js ''data-val-equalto'') \<noteq> None
        \<and> pe_attr pe (js ''data-val-equalto-other'') = None) els
   \<and> (if snd (parse ext fields_of els found fs) = Inr () then True
      else pf_settings (fst (parse ext fields_of els found fs) f) = pf_settings (fs f))"
proof -
  have b: "list_ex (\<lambda>pe. pe_form pe \<noteq> None \<and> pe_attr pe (js ''data-val-equalto'') \<noteq> None
        \<and> pe_attr pe (js ''data-val-equalto-other'') = None) els = list_ex bad_element els"
    by (simp add: bad_element_def [abs_def] lacks_other_def [abs_def])
  show ?thesis
    unfolding b by (cases "list_ex bad_element els") (simp_all add: parse_simps)
qed

text \<open>
  C31: A form keeps its first validator: rules that a later parsing gathers, for fields that were added to the
  page, are noted in the form's data and never reach the validator.
\<close>

theorem validators_are_final:
  assumes "pf_settings (fs f) = Some v" "\<not> list_ex bad_element els" "last_called f n els = Some pe"
  shows "pf_settings (fst (parse ext fields_of els found fs) f) = Some v
    \<and> map_of (vi_rules (validationInfo (fst (parse_elements ext fields_of els fs) f))) n = Some (fst (made_rules ext fields_of f pe))"
  using parse_elements_info [OF assms(2), of ext fields_of fs f n] assms(1,3)
  by (simp add: parse_simps(2) [OF assms(2)] attach_forms_settings)

definition watched_form :: forms where
  "watched_form = (\<lambda>_. \<lparr>pf_info = None, pf_settings = Some \<lparr>vi_rules = [], vi_messages = []\<rparr>\<rparr>)"

theorem validators_are_final_witness:
  "pf_settings (fst (parse False (\<lambda>_. []) [user_field] [0] watched_form) 0) = Some \<lparr>vi_rules = [], vi_messages = []\<rparr>
    \<and> map_of (vi_rules (validationInfo (fst (parse_elements False (\<lambda>_. []) [user_field] watched_form) 0))) (js ''user'')
      = Some (fst (made_rules False (\<lambda>_. []) 0 user_field))"
proof (rule validators_are_final)
  show "last_called 0 (js ''user'') [user_field] = Some user_field"
    by (simp add: user_field_def data_field_def text_field_def)
qed (simp add: watched_form_def, code_simp)

text \<open>
  A range with a lower bound alone becomes the rule \<open>min\<close> with the bound as a text, and the method compares
  it with the value unit by unit, not as a number.
\<close>

theorem lower_bound_is_text:
  assumes "\<not> lacks_other pe" "pe_attr pe (js ''data-val-range'') \<noteq> None"
    "pe_attr pe (js ''data-val-range-min'') = Some lo" "lo \<noteq> []" "\<not> given (pe_attr pe (js ''data-val-range-max''))"
  shows "map_of (kept_rules (ao_rules (fst (element_options ext fs pe)))) (js ''min'') = Some (Raw (P (VText lo)))
    \<and> minMethod False (VText v) (VText lo) = Verdict (\<not> text_less v lo)"
proof -
  have "map_of (ao_rules (fst (element_options ext fs pe))) (js ''min'') = Some (Single (Some lo))"
    using min_rule [OF assms(1), of ext fs] assms(2-5) by (simp add: given_def)
  moreover have "distinct (keys (ao_rules (fst (element_options ext fs pe))))" by (rule distinct_element_options)
  ultimately show ?thesis
    by (simp add: map_of_kept_rules rule_value_def minMethod_def optional_or_def js_le_def prim_text_def)
qed

theorem lower_bound_is_text_witness:
  "minMethod False (VText (js ''10'')) (VText (js ''5'')) = Verdict False"
proof -
  let ?pe = "data_field ''age'' [(''data-val-range'', ''?''), (''data-val-range-min'', ''5'')]"
  have "\<not> lacks_other ?pe" "pe_attr ?pe (js ''data-val-range'') \<noteq> None" "pe_attr ?pe (js ''data-val-range-min'') = Some (js ''5'')"
    "js ''5'' \<noteq> []" "\<not> given (pe_attr ?pe (js ''data-val-range-max''))"
    by code_simp+
  from lower_bound_is_text [OF this, THEN conjunct2, of "js ''10''"]
  have "minMethod False (VText (js ''10'')) (VText (js ''5'')) = Verdict (\<not> text_less (js ''10'') (js ''5''))" .
  moreover have "text_less (js ''10'') (js ''5'')" by code_simp
  ultimately show ?thesis by simp
qed

end
