(* ===== verification/UnobtrusiveMessages.thy ===== *)
theory UnobtrusiveMessages
  imports Unobtrusive
begin

text \<open>
  The messages of \<open>jquery.validate.unobtrusive.js\<close>: the containers \<open>data-valmsg-for\<close> of a form and its
  summaries, with what \<open>onError\<close>, \<open>onErrors\<close>, \<open>onSuccess\<close> and \<open>onReset\<close> do with them. A span is its position in the
  list of spans, a container its position in the list of containers.
\<close>

text \<open>
  An error element that the validator made: its class \<open>input-validation-error\<close>, and the containers in its data
  \<open>unobtrusiveContainer\<close>.
\<close>

record span =
  sp_html :: jstr
  sp_error :: bool
  sp_shown :: bool
  sp_containers :: "nat list option"

datatype child = Sent jstr | Span nat

record container =
  ct_for :: jstr
  ct_replace :: "jstr option"
  ct_valid :: bool
  ct_error :: bool
  ct_children :: "child list"

text \<open>A summary has the entries of each of its lists.\<close>

record summary =
  sm_valid :: bool
  sm_errors :: bool
  sm_lists :: "jstr list list"

record board =
  spans :: "span list"
  conts :: "container list"
  summaries :: "summary list"
  resetting :: bool

type_synonym json_reader = "jstr \<Rightarrow> json result"

definition containers_for :: "jstr \<Rightarrow> board \<Rightarrow> nat list" where
  "containers_for n bd = filter (\<lambda>i. ct_for (conts bd ! i) = n) [0..<length (conts bd)]"

text \<open>\<open>container.attr( "data-valmsg-replace" )\<close>: that of the first, as JSON when there is one.\<close>

definition replace_attr :: "json_reader \<Rightarrow> nat list \<Rightarrow> board \<Rightarrow> json option result" where
  "replace_attr parse_json cs bd =
     (case cs of
        [] \<Rightarrow> Inr None
      | c # _ \<Rightarrow>
          (case ct_replace (conts bd ! c) of
             None \<Rightarrow> Inr None
           | Some s \<Rightarrow> if s = [] then Inr None else rbind (parse_json s) (\<lambda>j. Inr (Some j))))"

definition update_cont :: "(container \<Rightarrow> container) \<Rightarrow> board \<Rightarrow> nat \<Rightarrow> board" where
  "update_cont f bd c = bd\<lparr>conts := (conts bd)[c := f (conts bd ! c)]\<rparr>"

definition update_span :: "(span \<Rightarrow> span) \<Rightarrow> board \<Rightarrow> nat \<Rightarrow> board" where
  "update_span f bd i = bd\<lparr>spans := (spans bd)[i := f (spans bd ! i)]\<rparr>"

definition mark_error :: "container \<Rightarrow> container" where
  "mark_error c = c\<lparr>ct_valid := False, ct_error := True\<rparr>"

definition mark_valid :: "container \<Rightarrow> container" where
  "mark_valid c = c\<lparr>ct_valid := True, ct_error := False\<rparr>"

definition spans_in :: "container \<Rightarrow> nat list" where
  "spans_in c = concat (map (\<lambda>k. case k of Span i \<Rightarrow> [i] | Sent _ \<Rightarrow> []) (ct_children c))"

text \<open>\<open>.empty()\<close> also drops the data of what it removes.\<close>

definition forget :: "board \<Rightarrow> nat \<Rightarrow> board" where
  "forget = update_span (\<lambda>s. s\<lparr>sp_containers := None\<rparr>)"

definition empty_cont :: "board \<Rightarrow> nat \<Rightarrow> board" where
  "empty_cont bd c = update_cont (\<lambda>k. k\<lparr>ct_children := []\<rparr>) (foldl forget bd (spans_in (conts bd ! c))) c"

text \<open>\<open>error.appendTo( container )\<close>: every container but the last gets a clone.\<close>

definition put_span :: "nat \<Rightarrow> board \<Rightarrow> nat \<Rightarrow> board" where
  "put_span i = update_cont (\<lambda>k. k\<lparr>ct_children := ct_children k @ [Span i]\<rparr>)"

fun append_to :: "nat \<Rightarrow> nat list \<Rightarrow> board \<Rightarrow> board" where
  "append_to i [] bd = bd"
| "append_to i [c] bd = put_span i bd c"
| "append_to i (c # cs) bd =
     append_to i cs (put_span (length (spans bd)) (bd\<lparr>spans := spans bd @ [spans bd ! i]\<rparr>) c)"

text \<open>\<open>onError\<close> places the new error element \<open>i\<close> of an element with the name \<open>n\<close>.\<close>

definition onError :: "json_reader \<Rightarrow> nat \<Rightarrow> jstr \<Rightarrow> board \<Rightarrow> board \<times> unit result" where
  "onError parse_json i n bd =
     (let container = containers_for n bd in
      case replace_attr parse_json container bd of
        Inl err \<Rightarrow> (bd, Inl err)
      | Inr attr \<Rightarrow>
          let replace = (attr \<noteq> None \<and> attr \<noteq> Some (JBool False));
              bd1 = foldl (update_cont mark_error) bd container;
              bd2 = update_span (\<lambda>s. s\<lparr>sp_containers := Some container\<rparr>) bd1 i
          in (if replace
              then append_to i container
                     (update_span (\<lambda>s. s\<lparr>sp_error := False\<rparr>) (foldl empty_cont bd2 container) i)
              else update_span (\<lambda>s. s\<lparr>sp_shown := False\<rparr>) bd2 i, Inr ()))"

text \<open>\<open>onErrors\<close>: an invalid form writes every message into every list of the summaries.\<close>

definition onErrors :: "error_item list \<Rightarrow> board \<Rightarrow> board" where
  "onErrors es bd =
     (if concat (map sm_lists (summaries bd)) \<noteq> [] \<and> es \<noteq> []
      then bd\<lparr>summaries := map (\<lambda>s. s\<lparr>sm_valid := False, sm_errors := True,
                 sm_lists := map (\<lambda>_. map ei_message es) (sm_lists s)\<rparr>) (summaries bd)\<rparr>
      else bd)"

definition onSuccess :: "json_reader \<Rightarrow> nat \<Rightarrow> board \<Rightarrow> board \<times> unit result" where
  "onSuccess parse_json i bd =
     (case sp_containers (spans bd ! i) of
        None \<Rightarrow> (bd, Inr ())
      | Some container \<Rightarrow>
          (case replace_attr parse_json container bd of
             Inl err \<Rightarrow> (bd, Inl err)
           | Inr attr \<Rightarrow>
               let bd1 = forget (foldl (update_cont mark_valid) bd container) i
               in (if truthy attr then foldl empty_cont bd1 container else bd1, Inr ())))"

text \<open>\<open>onReset\<close> resets the validator and marks everything valid; a container keeps its text.\<close>

definition reset_cont :: "board \<Rightarrow> nat \<Rightarrow> board" where
  "reset_cont bd c =
     (if ct_error (conts bd ! c)
      then foldl forget (update_cont mark_valid bd c) (spans_in (conts bd ! c)) else bd)"

definition onReset :: "page \<Rightarrow> board \<times> vstate \<Rightarrow> board \<times> vstate" where
  "onReset pg s =
     (case s of (bd, st) \<Rightarrow>
        if resetting bd then (bd, st)
        else
          (let st' = resetForm pg st;
               bd1 = bd\<lparr>summaries := map (\<lambda>m. if sm_errors m then m\<lparr>sm_valid := True, sm_errors := False\<rparr> else m) (summaries bd)\<rparr>
           in (foldl reset_cont bd1 [0..<length (conts bd1)], st')))"

end
