(* ===== verification/UnobtrusiveBoard.thy ===== *)
theory UnobtrusiveBoard
  imports UnobtrusiveMessages ValidatorSamples
begin

text \<open>
  What \<open>onError\<close>, \<open>onSuccess\<close> and \<open>onReset\<close> leave in the message containers, first operation by operation and then
  as the life of a message.
\<close>

subsection \<open>What the operations leave in the containers\<close>

lemma length_conts_update [simp]: "length (conts (update_cont f bd c)) = length (conts bd)"
  by (simp add: update_cont_def)

lemma conts_update:
  "c < length (conts bd) \<Longrightarrow> conts (update_cont f bd d) ! c = (if c = d then f (conts bd ! c) else conts bd ! c)"
  by (simp add: update_cont_def)

lemma spans_update_cont [simp]: "spans (update_cont f bd c) = spans bd"
  by (simp add: update_cont_def)

lemma spans_update_conts [simp]: "spans (foldl (update_cont f) bd cs) = spans bd"
  by (induction cs arbitrary: bd) simp_all

lemma conts_update_span [simp]: "conts (update_span f bd i) = conts bd"
  by (simp add: update_span_def)

lemma conts_forget [simp]: "conts (forget bd i) = conts bd"
  by (simp add: forget_def)

lemma conts_forgets [simp]: "conts (foldl forget bd is) = conts bd"
  by (induction "is" arbitrary: bd) simp_all

lemma length_conts_foldl:
  "(\<And>bd c. length (conts (f bd c)) = length (conts bd)) \<Longrightarrow> length (conts (foldl f bd cs)) = length (conts bd)"
  by (induction cs arbitrary: bd) simp_all

lemma conts_foldl:
  assumes "\<And>bd d. length (conts (g bd d)) = length (conts bd)"
    "\<And>bd d c. c < length (conts bd) \<Longrightarrow> conts (g bd d) ! c = (if c = d then f (conts bd ! c) else conts bd ! c)"
  shows "distinct cs \<Longrightarrow> c < length (conts bd) \<Longrightarrow>
    conts (foldl g bd cs) ! c = (if c \<in> set cs then f (conts bd ! c) else conts bd ! c)"
  by (induction cs arbitrary: bd) (auto simp: assms)

lemma length_conts_empty [simp]: "length (conts (empty_cont bd c)) = length (conts bd)"
  by (simp add: empty_cont_def)

lemma conts_empty:
  "c < length (conts bd) \<Longrightarrow> conts (empty_cont bd d) ! c = (if c = d then (conts bd ! c)\<lparr>ct_children := []\<rparr> else conts bd ! c)"
  by (simp add: empty_cont_def conts_update)

lemma conts_updates:
  "distinct cs \<Longrightarrow> c < length (conts bd) \<Longrightarrow>
     conts (foldl (update_cont f) bd cs) ! c = (if c \<in> set cs then f (conts bd ! c) else conts bd ! c)"
  by (rule conts_foldl) (simp_all add: conts_update)

lemma conts_empties:
  "distinct cs \<Longrightarrow> c < length (conts bd) \<Longrightarrow>
     conts (foldl empty_cont bd cs) ! c = (if c \<in> set cs then (conts bd ! c)\<lparr>ct_children := []\<rparr> else conts bd ! c)"
  by (rule conts_foldl) (simp_all add: conts_empty)

text \<open>Emptying the containers forgets the data of what was in them, and of nothing else.\<close>

lemma forget_other: "i \<noteq> j \<Longrightarrow> spans (forget bd j) ! i = spans bd ! i"
  by (simp add: forget_def update_span_def)

lemma forgets_other: "i \<notin> set ks \<Longrightarrow> spans (foldl forget bd ks) ! i = spans bd ! i"
  by (induction ks arbitrary: bd) (simp_all add: forget_other)

lemma length_spans_forget [simp]: "length (spans (forget bd j)) = length (spans bd)"
  by (simp add: forget_def update_span_def)

lemma length_spans_forgets [simp]: "length (spans (foldl forget bd ks)) = length (spans bd)"
  by (induction ks arbitrary: bd) simp_all

lemma spans_empties:
  assumes "\<forall>c<length (conts bd). i \<notin> set (spans_in (conts bd ! c))" "set cs \<subseteq> {..<length (conts bd)}"
  shows "spans (foldl empty_cont bd cs) ! i = spans bd ! i \<and> length (spans (foldl empty_cont bd cs)) = length (spans bd)"
  using assms
proof (induction cs arbitrary: bd)
  case (Cons c cs)
  let ?bd = "empty_cont bd c"
  have "\<forall>d<length (conts ?bd). i \<notin> set (spans_in (conts ?bd ! d))"
    using Cons.prems(1) by (auto simp: conts_empty spans_in_def)
  moreover have "spans ?bd ! i = spans bd ! i" "length (spans ?bd) = length (spans bd)"
    using Cons.prems by (simp_all add: empty_cont_def forgets_other)
  ultimately show ?case using Cons.IH [of ?bd] Cons.prems(2) by simp
qed simp

text \<open>An error element is appended once to every container, the original to the last.\<close>

lemma length_append_to [simp]: "length (conts (append_to i cs bd)) = length (conts bd)"
  by (induction i cs bd rule: append_to.induct) (simp_all add: put_span_def)

lemma append_to_conts:
  "distinct cs \<Longrightarrow> c < length (conts bd) \<Longrightarrow>
     (if c \<in> set cs then \<exists>j. conts (append_to i cs bd) ! c = (conts bd ! c)\<lparr>ct_children := ct_children (conts bd ! c) @ [Span j]\<rparr>
          \<and> (c = last cs \<longrightarrow> j = i)
      else conts (append_to i cs bd) ! c = conts bd ! c)
     \<and> length (conts (append_to i cs bd)) = length (conts bd)"
proof (induction i cs bd rule: append_to.induct)
  case (2 i d bd)
  then show ?case by (auto simp: put_span_def conts_update)
next
  case (3 i d d' cs bd)
  let ?bd = "put_span (length (spans bd)) (bd\<lparr>spans := spans bd @ [spans bd ! i]\<rparr>) d"
  have l: "length (conts ?bd) = length (conts bd)" by (simp add: put_span_def)
  have d: "conts ?bd ! c = (if c = d then (conts bd ! c)\<lparr>ct_children := ct_children (conts bd ! c) @ [Span (length (spans bd))]\<rparr> else conts bd ! c)"
    using conts_update [of c "bd\<lparr>spans := spans bd @ [spans bd ! i]\<rparr>"] 3(3) by (simp add: put_span_def)
  have "distinct (d' # cs)" "c < length (conts ?bd)" using 3(2,3) l by simp_all
  note IH = 3(1) [OF this]
  show ?case
  proof (cases "c = d")
    case True
    then have c: "c \<notin> set (d' # cs)" "c \<in> set (d # d' # cs)" using 3(2) by auto
    then have "c \<noteq> last (d' # cs)" by (metis last_in_set list.distinct(1))
    with IH d l True c show ?thesis by (auto simp del: list.set)
  next
    case False
    then have c: "(c \<in> set (d # d' # cs)) = (c \<in> set (d' # cs))" by simp
    from False have d: "conts ?bd ! c = conts bd ! c" using d by simp
    have la: "last (d # d' # cs) = last (d' # cs)" by simp
    have ap: "append_to i (d # d' # cs) bd = append_to i (d' # cs) ?bd" by simp
    show ?thesis using IH unfolding c d l la ap by assumption
  qed
qed simp

lemma append_to_spans: "i < length (spans bd) \<Longrightarrow> spans (append_to i cs bd) ! i = spans bd ! i"
  by (induction i cs bd rule: append_to.induct) (simp_all add: put_span_def nth_append)

text \<open>Where a message of a field is shown: containers for its name that ask to be replaced.\<close>

definition replacing :: "json_reader \<Rightarrow> jstr \<Rightarrow> board \<Rightarrow> bool" where
  "replacing parse_json n bd =
     (case containers_for n bd of
        [] \<Rightarrow> False
      | c # _ \<Rightarrow> (case ct_replace (conts bd ! c) of None \<Rightarrow> False | Some s \<Rightarrow> s \<noteq> [] \<and> parse_json s = Inr (JBool True)))"

definition loose :: "nat \<Rightarrow> board \<Rightarrow> bool" where
  "loose i bd = (i < length (spans bd) \<and> (\<forall>k\<in>set (conts bd). i \<notin> set (spans_in k)))"

lemma containers_for_props:
  "distinct (containers_for n bd)" "c \<in> set (containers_for n bd) \<longleftrightarrow> c < length (conts bd) \<and> ct_for (conts bd ! c) = n"
  by (auto simp: containers_for_def)

lemma replace_attr_replacing: "replacing parse_json n bd \<Longrightarrow> replace_attr parse_json (containers_for n bd) bd = Inr (Some (JBool True))"
  by (auto simp: replacing_def replace_attr_def split: list.splits option.splits)

lemma onError_replaces:
  assumes "replacing parse_json n bd" "loose i bd"
  shows "\<exists>bd'. onError parse_json i n bd = (bd', Inr ())
    \<and> length (conts bd') = length (conts bd)
    \<and> sp_containers (spans bd' ! i) = Some (containers_for n bd)
    \<and> (\<forall>c<length (conts bd). if ct_for (conts bd ! c) = n
         then (\<exists>j. conts bd' ! c = (mark_error (conts bd ! c))\<lparr>ct_children := [Span j]\<rparr> \<and> (c = last (containers_for n bd) \<longrightarrow> j = i))
         else conts bd' ! c = conts bd ! c)"
proof -
  let ?cs = "containers_for n bd"
  let ?b1 = "foldl (update_cont mark_error) bd ?cs"
  let ?b2 = "update_span (\<lambda>s. s\<lparr>sp_containers := Some ?cs\<rparr>) ?b1 i"
  let ?b3 = "foldl empty_cont ?b2 ?cs"
  let ?b4 = "update_span (\<lambda>s. s\<lparr>sp_error := False\<rparr>) ?b3 i"
  let ?b5 = "append_to i ?cs ?b4"
  have e: "onError parse_json i n bd = (?b5, Inr ())"
    by (simp add: onError_def Let_def replace_attr_replacing [OF assms(1)])
  have l1: "length (conts ?b1) = length (conts bd)" by (simp add: length_conts_foldl)
  then have l2: "length (conts ?b2) = length (conts bd)" by simp
  then have l3: "length (conts ?b3) = length (conts bd)" by (simp add: length_conts_foldl)
  have s1: "spans ?b1 = spans bd" by simp
  have i: "i < length (spans bd)" using assms(2) by (simp add: loose_def)
  have c1: "conts ?b1 ! c = (if c \<in> set ?cs then mark_error (conts bd ! c) else conts bd ! c)" if "c < length (conts bd)" for c
    by (rule conts_updates [OF containers_for_props(1) that])
  have c3: "conts ?b3 ! c = (if c \<in> set ?cs then (mark_error (conts bd ! c))\<lparr>ct_children := []\<rparr> else conts bd ! c)"
    if "c < length (conts bd)" for c
    using conts_empties [OF containers_for_props(1), of c ?b2 n bd] that l2 c1 [OF that] by simp
  have "\<forall>c<length (conts ?b2). i \<notin> set (spans_in (conts ?b2 ! c))"
    using assms(2) c1 l1 by (auto simp: loose_def mark_error_def spans_in_def)
  moreover have "set ?cs \<subseteq> {..<length (conts ?b2)}" unfolding l2 by (auto simp: containers_for_props(2))
  ultimately have s3: "spans ?b3 ! i = spans ?b2 ! i" "length (spans ?b3) = length (spans ?b2)"
    using spans_empties by blast+
  have i4: "i < length (spans ?b4)" using s3(2) i s1 by (simp add: update_span_def)
  from append_to_spans [OF i4, of ?cs] have "sp_containers (spans ?b5 ! i) = Some ?cs"
    using s3 i s1 by (simp add: update_span_def)
  moreover have "if c \<in> set ?cs then (\<exists>j. conts ?b5 ! c = (mark_error (conts bd ! c))\<lparr>ct_children := [Span j]\<rparr> \<and> (c = last ?cs \<longrightarrow> j = i))
       else conts ?b5 ! c = conts bd ! c" if "c < length (conts bd)" for c
    using append_to_conts [OF containers_for_props(1), of c ?b4 n bd i] that l3 c3 [OF that] by (auto split: if_splits)
  moreover have "length (conts ?b5) = length (conts bd)"
    using l3 by simp
  ultimately show ?thesis using e by (auto simp: containers_for_props(2))
qed

lemma spans_forget_self: "i < length (spans bd) \<Longrightarrow> sp_containers (spans (forget bd i) ! i) = None"
  by (simp add: forget_def update_span_def)

lemma replacing_marked:
  assumes "replacing parse_json n bd" "length (conts bd') = length (conts bd)"
    "\<forall>c<length (conts bd). ct_for (conts bd' ! c) = ct_for (conts bd ! c) \<and> ct_replace (conts bd' ! c) = ct_replace (conts bd ! c)"
  shows "containers_for n bd' = containers_for n bd" "replacing parse_json n bd'"
proof -
  show c: "containers_for n bd' = containers_for n bd"
    unfolding containers_for_def assms(2) by (rule filter_cong) (use assms(3) in simp_all)
  show "replacing parse_json n bd'"
  proof (cases "containers_for n bd")
    case Nil
    with assms(1) show ?thesis by (simp add: replacing_def)
  next
    case (Cons d ds)
    then have "d < length (conts bd)" using containers_for_props(2) [of d n bd] by simp
    with assms(1,3) Cons show ?thesis by (simp add: replacing_def c)
  qed
qed

lemma onSuccess_clears:
  assumes "replacing parse_json n bd" "sp_containers (spans bd ! i) = Some (containers_for n bd)"
  shows "\<exists>bd'. onSuccess parse_json i bd = (bd', Inr ()) \<and> length (conts bd') = length (conts bd)
    \<and> (\<forall>c<length (conts bd). conts bd' ! c =
        (if ct_for (conts bd ! c) = n then (mark_valid (conts bd ! c))\<lparr>ct_children := []\<rparr> else conts bd ! c))"
proof -
  let ?cs = "containers_for n bd"
  let ?b1 = "forget (foldl (update_cont mark_valid) bd ?cs) i"
  let ?b2 = "foldl empty_cont ?b1 ?cs"
  have "onSuccess parse_json i bd = (?b2, Inr ())"
    using assms(2) by (simp add: onSuccess_def Let_def replace_attr_replacing [OF assms(1)] truthy_def)
  moreover have l: "length (conts ?b1) = length (conts bd)" by (simp add: length_conts_foldl)
  moreover have "length (conts ?b2) = length (conts ?b1)" by (simp add: length_conts_foldl)
  moreover have "conts ?b2 ! c =
        (if ct_for (conts bd ! c) = n then (mark_valid (conts bd ! c))\<lparr>ct_children := []\<rparr> else conts bd ! c)"
    if c: "c < length (conts bd)" for c
  proof -
    have "conts ?b1 ! c = (if c \<in> set ?cs then mark_valid (conts bd ! c) else conts bd ! c)"
      using conts_updates [OF containers_for_props(1) c, of mark_valid] by simp
    with conts_empties [OF containers_for_props(1), of c ?b1 n bd] l c show ?thesis
      by (simp add: containers_for_props(2))
  qed
  ultimately show ?thesis by auto
qed

text \<open>
  C33: A message that is shown and then withdrawn leaves no trace: where the containers of a field ask to be
  replaced, the error is put alone into each of them, marked as an error, and its success empties exactly them and
  marks them valid; no other container changes.
\<close>

theorem error_then_success:
  assumes "replacing parse_json n bd" "loose i bd" "onError parse_json i n bd = (bd1, r1)" "onSuccess parse_json i bd1 = (bd2, r2)"
    "c < length (conts bd)"
  shows "r1 = Inr () \<and> r2 = Inr () \<and>
    (if ct_for (conts bd ! c) = n
     then ct_error (conts bd1 ! c) \<and> \<not> ct_valid (conts bd1 ! c) \<and> length (ct_children (conts bd1 ! c)) = 1
       \<and> conts bd2 ! c = (conts bd ! c)\<lparr>ct_valid := True, ct_error := False, ct_children := []\<rparr>
     else conts bd1 ! c = conts bd ! c \<and> conts bd2 ! c = conts bd ! c)"
proof -
  from onError_replaces [OF assms(1,2)] assms(3) have e: "r1 = Inr ()" "length (conts bd1) = length (conts bd)"
    "sp_containers (spans bd1 ! i) = Some (containers_for n bd)"
    and c1: "\<forall>c<length (conts bd). if ct_for (conts bd ! c) = n
         then (\<exists>j. conts bd1 ! c = (mark_error (conts bd ! c))\<lparr>ct_children := [Span j]\<rparr> \<and> (c = last (containers_for n bd) \<longrightarrow> j = i))
         else conts bd1 ! c = conts bd ! c" by auto
  have same: "\<forall>c<length (conts bd). ct_for (conts bd1 ! c) = ct_for (conts bd ! c) \<and> ct_replace (conts bd1 ! c) = ct_replace (conts bd ! c)"
    using c1 by (auto simp: mark_error_def split: if_splits)
  from replacing_marked [OF assms(1) e(2) same] e(3) have r: "replacing parse_json n bd1"
    and s: "sp_containers (spans bd1 ! i) = Some (containers_for n bd1)" by simp_all
  from onSuccess_clears [OF r s] assms(4) have "r2 = Inr ()"
    and c2: "\<forall>c<length (conts bd1). conts bd2 ! c =
        (if ct_for (conts bd1 ! c) = n then (mark_valid (conts bd1 ! c))\<lparr>ct_children := []\<rparr> else conts bd1 ! c)" by auto
  note r2 = this
  have c: "c < length (conts bd1)" using assms(5) e(2) by simp
  show ?thesis
  proof (cases "ct_for (conts bd ! c) = n")
    case True
    from c1 [rule_format, OF assms(5)] True obtain j where j: "conts bd1 ! c = (mark_error (conts bd ! c))\<lparr>ct_children := [Span j]\<rparr>"
      by auto
    with c2 c have "conts bd2 ! c = (mark_valid (conts bd1 ! c))\<lparr>ct_children := []\<rparr>"
      using True by (simp add: mark_error_def)
    with j True e(1) r2 show ?thesis by (simp add: mark_error_def mark_valid_def)
  next
    case False
    then have "conts bd1 ! c = conts bd ! c" using c1 assms(5) by simp
    with False c2 c e(1) r2 show ?thesis by simp
  qed
qed

definition sample_board :: board where
  "sample_board =
     \<lparr>spans = [\<lparr>sp_html = js ''!'', sp_error = True, sp_shown = True, sp_containers = None\<rparr>],
      conts = [\<lparr>ct_for = js ''user'', ct_replace = Some (js ''true''), ct_valid = True, ct_error = False, ct_children = [Sent (js ''*'')]\<rparr>],
      summaries = [], resetting = False\<rparr>"

definition read_flag :: json_reader where
  "read_flag s = (if s = js ''true'' then Inr (JBool True) else if s = js ''false'' then Inr (JBool False) else Inl (Error (js ''SyntaxError'')))"

theorem error_then_success_witness:
  "case onError read_flag 0 (js ''user'') sample_board of
     (bd1, _) \<Rightarrow> case onSuccess read_flag 0 bd1 of
       (bd2, _) \<Rightarrow> conts bd2 ! 0 = (conts sample_board ! 0)\<lparr>ct_valid := True, ct_error := False, ct_children := []\<rparr>"
proof -
  obtain bd1 r1 where 1: "onError read_flag 0 (js ''user'') sample_board = (bd1, r1)" by (cases "onError read_flag 0 (js ''user'') sample_board")
  obtain bd2 r2 where 2: "onSuccess read_flag 0 bd1 = (bd2, r2)" by (cases "onSuccess read_flag 0 bd1")
  have "replacing read_flag (js ''user'') sample_board" "loose 0 sample_board" "0 < length (conts sample_board)"
    "ct_for (conts sample_board ! 0) = js ''user''" by code_simp+
  with error_then_success [OF this(1,2) 1 2 this(3)] show ?thesis by (simp add: 1 2)
qed

text \<open>
  A reset withdraws the marks and not the texts: afterwards no container and no summary is marked as an error,
  the validator is as after \<open>resetForm\<close>, and every container still holds the message it held.
\<close>

theorem reset_keeps_texts:
  assumes "\<not> resetting bd" "onReset pg (bd, st) = (bd', st')"
  shows "st' = resetForm pg st \<and> map ct_children (conts bd') = map ct_children (conts bd)
    \<and> list_all (\<lambda>k. \<not> ct_error k) (conts bd') \<and> list_all (\<lambda>m. \<not> sm_errors m) (summaries bd')
    \<and> map sm_lists (summaries bd') = map sm_lists (summaries bd)"
proof -
  let ?sm = "map (\<lambda>m. if sm_errors m then m\<lparr>sm_valid := True, sm_errors := False\<rparr> else m) (summaries bd)"
  let ?b = "bd\<lparr>summaries := ?sm\<rparr>"
  let ?f = "\<lambda>k. if ct_error k then mark_valid k else k"
  have fs: "summaries (foldl forget b ks) = summaries b" for b ks
    by (induction ks arbitrary: b) (simp_all add: forget_def update_span_def)
  have l: "length (conts (reset_cont b d)) = length (conts b)" for b d by (simp add: reset_cont_def)
  have n: "conts (reset_cont b d) ! c = (if c = d then ?f (conts b ! c) else conts b ! c)" if "c < length (conts b)" for b d c
    using that by (simp add: reset_cont_def conts_update)
  have s: "summaries (foldl reset_cont b cs) = summaries b" for b cs
    by (induction cs arbitrary: b) (simp_all add: reset_cont_def fs update_cont_def)
  from assms have b': "bd' = foldl reset_cont ?b [0..<length (conts bd)]" and st: "st' = resetForm pg st"
    by (simp_all add: onReset_def Let_def)
  have len: "length (conts bd') = length (conts bd)" using length_conts_foldl [of reset_cont ?b, OF l] by (simp add: b')
  have "conts bd' ! c = ?f (conts bd ! c)" if "c < length (conts bd)" for c
    using conts_foldl [OF l n, of "[0..<length (conts bd)]" c ?b] that by (simp add: b')
  then have k: "conts bd' = map ?f (conts bd)" by (intro nth_equalityI) (simp_all add: len)
  have sm: "summaries bd' = ?sm" by (simp add: b' s)
  show ?thesis
    unfolding k sm st by (auto simp: list_all_iff mark_valid_def)
qed

theorem reset_keeps_texts_witness:
  "map ct_children (conts (fst (onReset (sample_page [] []) (sample_board, fresh)))) = [[Sent (js ''*'')]]"
proof -
  obtain bd' st' where r: "onReset (sample_page [] []) (sample_board, fresh) = (bd', st')"
    by (cases "onReset (sample_page [] []) (sample_board, fresh)")
  have "\<not> resetting sample_board" "map ct_children (conts sample_board) = [[Sent (js ''*'')]]" by code_simp+
  with reset_keeps_texts [OF this(1) r] show ?thesis by (simp add: r)
qed

end
