(* ===== verification/JqSelect.thy ===== *)
theory JqSelect
  imports UnobtrusiveMessages
begin

text \<open>
  The part of jQuery's selector engine (\<open>jquery.js\<close>) that the validation libraries rely on when they look up a
  field by its name: the pattern of an attribute selector, its \<open>preFilter\<close> and the reading of escapes.
\<close>

definition whitespace :: jstr where
  "whitespace = slashed ''[`x20`t`r`n`f]''"

definition ident :: jstr where
  "ident = slashed ''(?:``[`da-fA-F]{1,6}'' @ whitespace @ slashed ''?|``[^`r`n`f]|[`w-]|[^'' @ [0] @ slashed ''-`x7f])+''"

definition attributes :: jstr where
  "attributes =
     slashed ''`['' @ whitespace @ js ''*('' @ ident @ js '')(?:'' @ whitespace @
     js ''*([*^$|!~]?=)'' @ whitespace @
     js ''*(?:'' @ [39] @ slashed ''((?:``.|[^``'' @ [39] @ js ''])*)'' @ [39] @ slashed ''|\"((?:``.|[^``\"])*)\"|('' @ ident @ js ''))|)'' @
     whitespace @ slashed ''*`]''"

definition attr_re :: re where
  "attr_re = literal (js ''^'' @ attributes)"

definition runescape :: re where
  "runescape = literal (slashed ''``[`da-fA-F]{1,6}'' @ whitespace @ slashed ''?|``([^`r`n`f])'')"

unbundle bit_operations_syntax

definition funescape :: "jstr \<Rightarrow> caps \<Rightarrow> jstr" where
  "funescape escape cs =
     (case cap cs 1 of
        Some nonHex \<Rightarrow> nonHex
      | None \<Rightarrow>
          (let code = (case hex_number 0 (js_trim (drop 1 escape)) of None \<Rightarrow> 0 | Some n \<Rightarrow> n) in
           if code < 65536 then [code]
           else (let high = code - 65536 in
                 [(drop_bit 10 high OR 55296) mod 65536, ((high AND 1023) OR 56320) mod 65536])))"

definition unescape_css :: "jstr \<Rightarrow> jstr" where
  "unescape_css s = re_replace_all False runescape funescape s"

text \<open>\<open>matchExpr.ATTR\<close> and \<open>preFilter.ATTR\<close>: the attribute, the operator (undefined when there is none) and the value.\<close>

definition read_attr :: "jstr \<Rightarrow> (jstr \<times> jstr option \<times> jstr) option" where
  "read_attr s =
     (case re_exec False attr_re s of
        None \<Rightarrow> None
      | Some cs \<Rightarrow>
          (let or_else = (\<lambda>a b. case a of None \<Rightarrow> b | Some t \<Rightarrow> if t = [] then b else Some t);
               v = (case or_else (cap cs 3) (or_else (cap cs 4) (cap cs 5)) of None \<Rightarrow> [] | Some t \<Rightarrow> t);
               v' = unescape_css v
           in Some (unescape_css (by_group 1 [] cs), cap cs 2,
                if cap cs 2 = Some (js ''~='') then 32 # v' @ [32] else v')))"


subsection \<open>The first way in which a pattern matches\<close>

definition hits :: "re \<Rightarrow> mst \<Rightarrow> mst \<Rightarrow> bool" where
  "hits p st st' = (\<exists>sts. re_match False p st = st' # sts)"

lemma hits_Eps: "hits Eps st st"
  by (simp add: hits_def)

lemma hits_Bol: "hits Bol ([], r, cs) ([], r, cs)"
  by (simp add: hits_def)

lemma hits_Cls: "in_cls False neg items c \<Longrightarrow> hits (Cls neg items) (b, c # r, cs) (c # b, r, cs)"
  by (simp add: hits_def)

lemma hits_AnyChar: "\<not> is_line_end c \<Longrightarrow> hits AnyChar (b, c # r, cs) (c # b, r, cs)"
  by (simp add: hits_def)

lemma hits_Seq: "hits p st s1 \<Longrightarrow> hits q s1 s2 \<Longrightarrow> hits (Seq p q) st s2"
  by (auto simp: hits_def)

lemma hits_Alt1: "hits p st s1 \<Longrightarrow> hits (Alt p q) st s1"
  by (auto simp: hits_def)

lemma hits_Alt2: "re_match False p st = [] \<Longrightarrow> hits q st s1 \<Longrightarrow> hits (Alt p q) st s1"
  by (simp add: hits_def)

lemma hits_Group: "hits p (b, r, cs) (b', r', cs') \<Longrightarrow> hits (Group n p) (b, r, cs) (b', r', (n, take (length r - length r') r) # cs')"
  by (auto simp: hits_def)

lemma hits_Rep:
  assumes "JsRegex.groups p = []" "hits p st s1" "length (fst (snd s1)) < length (fst (snd st))" "hi \<noteq> Some 0"
    "hits (Rep True (lo - 1) (map_option (\<lambda>h. h - 1) hi) p) s1 s2"
  shows "hits (Rep True lo hi p) st s2"
proof -
  from assms(2) obtain sts where "re_match False p st = s1 # sts" by (auto simp: hits_def)
  moreover from assms(5) obtain sts' where "re_match False (Rep True (lo - 1) (map_option (\<lambda>h. h - 1) hi) p) s1 = s2 # sts'"
    by (auto simp: hits_def)
  ultimately show ?thesis
    using assms(1,3,4) re_match_Rep [of False True lo hi p st]
    by (simp add: hits_def Let_def del: re_match.simps)
qed

lemma hits_Rep_stop: "JsRegex.groups p = [] \<Longrightarrow> re_match False p st = [] \<Longrightarrow> hits (Rep True 0 hi p) st st"
  using re_match_Rep [of False True 0 hi p st] by (simp add: hits_def Let_def del: re_match.simps)

lemma hits_Rep_none: "hits (Rep True 0 (Some 0) p) st st"
  using re_match_Rep [of False True 0 "Some 0" p st] by (simp add: hits_def Let_def del: re_match.simps)

subsection \<open>Escaped texts\<close>

definition meta :: "cunit list" where
  "meta = js ''!\"#$%&'' @ [39] @ js ''()*+,./:;<=>?@['' @ [92] @ js '']^'' @ [96] @ js ''{|}~''"

definition backslashed :: "jstr \<Rightarrow> jstr" where
  "backslashed s = concat (map (\<lambda>c. if c \<in> set meta then [92, c] else [c]) s)"

lemma backslashed_simps [simp]:
  "backslashed [] = []" "backslashed (c # s) = (if c \<in> set meta then [92, c] else [c]) @ backslashed s"
  by (simp_all add: backslashed_def)

lemma escape_re:
  "literal (slashed ''([!\"#$%&'' @ [39] @ slashed ''()*+,./:;<=>?@`[```]^'' @ [96] @ slashed ''{|}~])'') =
     Seq (Group 1 (Seq (Cls False (map (\<lambda>c. Range c c) meta)) Eps)) Eps"
  by code_simp

lemma in_meta: "in_cls False False (map (\<lambda>c. Range c c) cs) c \<longleftrightarrow> c \<in> set cs"
  by (auto simp: in_cls_def list_ex_iff)

lemma replace_meta:
  "re_replace_from False (Seq (Group 1 (Seq (Cls False (map (\<lambda>c. Range c c) cs)) Eps)) Eps) (\<lambda>m cs. 92 # by_group 1 m cs) b s =
     concat (map (\<lambda>c. if c \<in> set cs then [92, c] else [c]) s)"
proof (induction s arbitrary: b)
  case Nil
  then show ?case by (simp add: re_replace_from.simps)
next
  case (Cons c s)
  then show ?case by (simp add: re_replace_from.simps in_meta by_group_def cap_def)
qed

lemma escapeAttributeValue_eq: "escapeAttributeValue v = backslashed v"
  unfolding escapeAttributeValue_def escape_re re_replace_all_def replace_meta backslashed_def ..

lemma escapeCssMeta_eq: "escapeCssMeta v = backslashed v"
proof -
  have re: "literal (slashed ''([``!\"#$%&'' @ [39] @ slashed ''()*+,./:;<=>?@`[`]^'' @ [96] @ slashed ''{|}~])'') =
      Seq (Group 1 (Seq (Cls False (map (\<lambda>c. Range c c) (92 # remove1 92 meta))) Eps)) Eps"
    by code_simp
  have s: "set (92 # remove1 92 meta) = set meta" by code_simp
  show ?thesis
    unfolding escapeCssMeta_def re re_replace_all_def replace_meta s backslashed_def ..
qed

subsection \<open>An escaped text is read back\<close>

lemma runescape_eq:
  "runescape =
     Alt (Seq (ch 92) (Seq (Rep True 1 (Some 6) (Cls False [Digit, Range 97 102, Range 65 70]))
            (Seq (Rep True 0 (Some 1) (Cls False [Range 32 32, Range 9 9, Range 13 13, Range 10 10, Range 12 12])) Eps)))
       (Seq (ch 92) (Seq (Group 1 (Seq (Cls True [Range 13 13, Range 10 10, Range 12 12]) Eps)) Eps))"
  by code_simp

lemma Rep_fails:
  "JsRegex.groups p = [] \<Longrightarrow> re_match False p st = [] \<Longrightarrow> 0 < lo \<Longrightarrow> hi \<noteq> Some 0 \<Longrightarrow> re_match False (Rep True lo hi p) st = []"
  using re_match_Rep [of False True lo hi p st] by (simp add: Let_def del: re_match.simps)

lemma meta_not:
  assumes "c \<in> set meta"
  shows "\<not> is_line_end c" "c \<noteq> 13" "c \<noteq> 10" "c \<noteq> 12" "\<not> is_digit c" "\<not> (97 \<le> c \<and> c \<le> 102)" "\<not> (65 \<le> c \<and> c \<le> 70)"
proof -
  have "\<forall>c\<in>set meta. \<not> is_line_end c \<and> c \<noteq> 13 \<and> c \<noteq> 10 \<and> c \<noteq> 12 \<and> \<not> is_digit c \<and> \<not> (97 \<le> c \<and> c \<le> 102) \<and> \<not> (65 \<le> c \<and> c \<le> 70)"
    by code_simp
  with assms show "\<not> is_line_end c" "c \<noteq> 13" "c \<noteq> 10" "c \<noteq> 12" "\<not> is_digit c" "\<not> (97 \<le> c \<and> c \<le> 102)" "\<not> (65 \<le> c \<and> c \<le> 70)"
    by blast+
qed

lemma runescape_none: "c \<noteq> 92 \<Longrightarrow> re_match False runescape (b, c # r, cs) = []"
  by (simp add: runescape_eq)

lemma runescape_meta:
  assumes "c \<in> set meta"
  shows "hits runescape (b, 92 # c # r, []) (c # 92 # b, r, [(1, [c])])"
proof -
  have "re_match False (Rep True 1 (Some 6) (Cls False [Digit, Range 97 102, Range 65 70])) (92 # b, c # r, []) = []"
    by (rule Rep_fails) (use meta_not [OF assms] in \<open>auto simp: in_cls_def\<close>)
  then have 1: "re_match False (Seq (ch 92) (Seq (Rep True 1 (Some 6) (Cls False [Digit, Range 97 102, Range 65 70]))
            (Seq (Rep True 0 (Some 1) (Cls False [Range 32 32, Range 9 9, Range 13 13, Range 10 10, Range 12 12])) Eps)))
      (b, 92 # c # r, []) = []"
    by (simp del: One_nat_def)
  have "hits (Seq (Cls True [Range 13 13, Range 10 10, Range 12 12]) Eps) (92 # b, c # r, []) (c # 92 # b, r, [])"
    by (rule hits_Seq [OF hits_Cls hits_Eps]) (use meta_not [OF assms] in \<open>auto simp: in_cls_def\<close>)
  from hits_Group [OF this, of 1]
  have "hits (Seq (ch 92) (Seq (Group 1 (Seq (Cls True [Range 13 13, Range 10 10, Range 12 12]) Eps)) Eps))
      (b, 92 # c # r, []) (c # 92 # b, r, [(1, [c])])"
    by (auto intro!: hits_Seq [OF hits_Cls] hits_Seq [OF _ hits_Eps] simp: in_cls_def)
  with 1 show ?thesis unfolding runescape_eq by (rule hits_Alt2)
qed

lemma replace_hit:
  "hits p (b, c # r, []) (b', r', cs) \<Longrightarrow> length r' < length (c # r) \<Longrightarrow>
     re_replace_from False p f b (c # r) = f (take (length (c # r) - length r') (c # r)) cs @ re_replace_from False p f b' r'"
  by (auto simp: hits_def re_replace_from.simps)

lemma funescape_unit: "funescape e [(Suc 0, t)] = t"
  by (simp add: funescape_def cap_def)

lemma unescape_backslashed: "unescape_css (backslashed v) = v"
proof -
  have "re_replace_from False runescape funescape b (backslashed v) = v" for b
  proof (induction v arbitrary: b)
    case Nil
    then show ?case by (simp add: re_replace_from.simps runescape_eq)
  next
    case (Cons c v)
    show ?case
    proof (cases "c \<in> set meta")
      case True
      from replace_hit [OF runescape_meta [OF True], where f = funescape and b = b] True Cons show ?thesis
        by (simp add: funescape_unit)
    next
      case False
      then have "c \<noteq> 92" by (auto simp: meta_def)
      with False Cons show ?thesis by (simp add: re_replace_from.simps runescape_none)
    qed
  qed
  then show ?thesis by (simp add: unescape_css_def re_replace_all_def)
qed

abbreviation quoted_unit :: re where
  "quoted_unit \<equiv> Alt (Seq (ch 92) (Seq AnyChar Eps)) (Seq (Cls True [Range 92 92, Range 39 39]) Eps)"

lemma hits_star:
  "JsRegex.groups p = [] \<Longrightarrow> hits p st s1 \<Longrightarrow> length (fst (snd s1)) < length (fst (snd st)) \<Longrightarrow> hits (star p) s1 s2 \<Longrightarrow> hits (star p) st s2"
  using hits_Rep [of p st s1 None 0 s2] by simp

lemma hits_quoted: "hits (star quoted_unit) (b, backslashed v @ 39 # r, cs) (rev (backslashed v) @ b, 39 # r, cs)"
proof (induction v arbitrary: b)
  case Nil
  have "hits (star quoted_unit) (b, 39 # r, cs) (b, 39 # r, cs)"
    by (rule hits_Rep_stop) (simp_all add: in_cls_def)
  then show ?case by simp
next
  case (Cons c v)
  show ?case
  proof (cases "c \<in> set meta")
    case True
    have 1: "hits quoted_unit (b, 92 # c # backslashed v @ 39 # r, cs) (c # 92 # b, backslashed v @ 39 # r, cs)"
      by (rule hits_Alt1, rule hits_Seq [OF hits_Cls hits_Seq [OF hits_AnyChar hits_Eps]])
        (use meta_not(1) [OF True] in \<open>simp_all add: in_cls_def\<close>)
    have "hits (star quoted_unit) (b, 92 # c # backslashed v @ 39 # r, cs) (rev (backslashed v) @ c # 92 # b, 39 # r, cs)"
      by (rule hits_star [OF _ 1 _ Cons]) simp_all
    with True show ?thesis by simp
  next
    case False
    then have c: "c \<noteq> 92" "c \<noteq> 39" by (auto simp: meta_def)
    have "hits (Seq (Cls True [Range 92 92, Range 39 39]) Eps) (b, c # backslashed v @ 39 # r, cs) (c # b, backslashed v @ 39 # r, cs)"
      by (rule hits_Seq [OF hits_Cls hits_Eps]) (use c in \<open>simp add: in_cls_def\<close>)
    then have 1: "hits quoted_unit (b, c # backslashed v @ 39 # r, cs) (c # b, backslashed v @ 39 # r, cs)"
      by (rule hits_Alt2 [rotated]) (use c in simp)
    have "hits (star quoted_unit) (b, c # backslashed v @ 39 # r, cs) (rev (backslashed v) @ c # b, 39 # r, cs)"
      by (rule hits_star [OF _ 1 _ Cons]) simp_all
    with False show ?thesis by simp
  qed
qed

text \<open>The pattern of an attribute selector.\<close>

abbreviation blanks :: "citem list" where
  "blanks \<equiv> [Range 32 32, Range 9 9, Range 13 13, Range 10 10, Range 12 12]"

abbreviation ident_unit :: re where
  "ident_unit \<equiv>
     Alt (Seq (ch 92) (Seq (Rep True 1 (Some 6) (Cls False [Digit, Range 97 102, Range 65 70])) (Seq (Rep True 0 (Some 1) (Cls False blanks)) Eps)))
       (Alt (Seq (ch 92) (Seq (Cls True [Range 13 13, Range 10 10, Range 12 12]) Eps))
         (Alt (Seq (Cls False [Word, Range 45 45]) Eps) (Seq (Cls True [Range 0 127]) Eps)))"

abbreviation operator_re :: re where
  "operator_re \<equiv> Group 2 (Seq (Rep True 0 (Some 1) (Cls False
     [Range 42 42, Range 94 94, Range 36 36, Range 124 124, Range 33 33, Range 126 126])) (Seq (ch 61) Eps))"

abbreviation quoted_re :: re where
  "quoted_re \<equiv> Seq (ch 39) (Seq (Group 3 (Seq (star quoted_unit) Eps)) (Seq (ch 39) Eps))"

definition other_values :: re where
  "other_values =
     Alt (Seq (ch 34) (Seq (Group 4 (Seq (star (Alt (Seq (ch 92) (Seq AnyChar Eps)) (Seq (Cls True [Range 92 92, Range 34 34]) Eps))) Eps)) (Seq (ch 34) Eps)))
       (Seq (Group 5 (Seq (Rep True 1 None ident_unit) Eps)) Eps)"

lemma attr_re_eq:
  "attr_re =
     Seq Bol (Seq (ch 91) (Seq (star (Cls False blanks)) (Seq (Group 1 (Seq (Rep True 1 None ident_unit) Eps))
     (Seq (Alt (Seq (star (Cls False blanks)) (Seq operator_re
       (Seq (star (Cls False blanks)) (Seq (Alt quoted_re other_values) Eps)))) Eps)
     (Seq (star (Cls False blanks)) (Seq (ch 93) Eps))))))"
  by code_simp

lemma hits_letter:
  assumes "is_word c"
  shows "hits ident_unit (b, c # r, cs) (c # b, r, cs)"
proof -
  from assms have c: "c \<noteq> 92" by (auto simp: is_word_def is_digit_def)
  have "hits (Seq (Cls False [Word, Range 45 45]) Eps) (b, c # r, cs) (c # b, r, cs)"
    by (rule hits_Seq [OF hits_Cls hits_Eps]) (use assms in \<open>simp add: in_cls_def\<close>)
  then have 1: "hits (Alt (Seq (Cls False [Word, Range 45 45]) Eps) (Seq (Cls True [Range 0 127]) Eps)) (b, c # r, cs) (c # b, r, cs)"
    by (rule hits_Alt1)
  show ?thesis by (rule hits_Alt2 [OF _ hits_Alt2 [OF _ 1]]) (use c in simp_all)
qed

lemma hits_letters:
  assumes "\<forall>c\<in>set u. is_word c" "re_match False ident_unit (rev u @ b, r, cs) = []"
  shows "hits (star ident_unit) (b, u @ r, cs) (rev u @ b, r, cs)"
  using assms
proof (induction u arbitrary: b)
  case Nil
  then show ?case by (simp add: hits_Rep_stop del: re_match.simps)
next
  case (Cons c u)
  have 1: "hits ident_unit (b, c # (u @ r), cs) (c # b, u @ r, cs)"
    by (rule hits_letter) (use Cons.prems in simp)
  have 2: "hits (star ident_unit) (c # b, u @ r, cs) (rev u @ c # b, r, cs)"
    by (rule Cons.IH) (use Cons.prems in \<open>simp_all del: re_match.simps\<close>)
  have "hits (star ident_unit) (b, c # (u @ r), cs) (rev u @ c # b, r, cs)"
    by (rule hits_star [OF _ 1 _ 2]) simp_all
  then show ?case by simp
qed

lemma hits_word:
  assumes "u \<noteq> []" "\<forall>c\<in>set u. is_word c" "re_match False ident_unit (rev u @ b, r, cs) = []"
  shows "hits (Rep True 1 None ident_unit) (b, u @ r, cs) (rev u @ b, r, cs)"
proof -
  from assms(1) obtain c u' where u: "u = c # u'" by (cases u) auto
  have 1: "hits ident_unit (b, c # (u' @ r), cs) (c # b, u' @ r, cs)"
    by (rule hits_letter) (use assms u in simp)
  have 2: "hits (star ident_unit) (c # b, u' @ r, cs) (rev u' @ c # b, r, cs)"
    by (rule hits_letters) (use assms u in \<open>simp_all del: re_match.simps\<close>)
  have "hits (Rep True 1 None ident_unit) (b, c # (u' @ r), cs) (rev u' @ c # b, r, cs)"
    by (rule hits_Rep [OF _ 1]) (use 2 in simp_all)
  then show ?thesis by (simp add: u)
qed

lemma hits_no_blank:
  assumes "c \<notin> {32, 9, 13, 10, 12}"
  shows "hits (star (Cls False blanks)) (b, c # r, cs) (b, c # r, cs)"
  by (rule hits_Rep_stop) (use assms in \<open>simp_all add: in_cls_def\<close>)

lemma hits_attr:
  assumes "u \<noteq> []" "\<forall>c\<in>set u. is_word c"
  shows "\<exists>b. hits attr_re ([], 91 # u @ [61, 39] @ backslashed v @ [39, 93], []) (b, [], [(3, backslashed v), (2, [61]), (1, u)])"
proof -
  let ?q = "backslashed v @ [39, 93]" and ?w = "backslashed v"
  have 91: "hits (ch 91) ([], 91 # u @ [61, 39] @ ?q, []) ([91], u @ [61, 39] @ ?q, [])"
    by (rule hits_Cls) simp
  obtain d u' where u: "u = d # u'" using assms(1) by (cases u) auto
  have d: "d \<notin> {32, 9, 13, 10, 12}" using assms(2) by (auto simp: u is_word_def is_digit_def)
  have s1: "hits (star (Cls False blanks)) ([91], u @ [61, 39] @ ?q, []) ([91], u @ [61, 39] @ ?q, [])"
    using hits_no_blank [OF d] by (simp add: u)
  have "hits (Rep True 1 None ident_unit) ([91], u @ [61, 39] @ ?q, []) (rev u @ [91], [61, 39] @ ?q, [])"
    by (rule hits_word) (use assms in \<open>simp_all add: in_cls_def is_word_def is_digit_def\<close>)
  from hits_Group [OF hits_Seq [OF this hits_Eps], of 1]
  have g1: "hits (Group 1 (Seq (Rep True 1 None ident_unit) Eps)) ([91], u @ [61, 39] @ ?q, [])
      (rev u @ [91], [61, 39] @ ?q, [(1, u)])"
    by simp
  have s2: "hits (star (Cls False blanks)) (rev u @ [91], [61, 39] @ ?q, [(1, u)]) (rev u @ [91], [61, 39] @ ?q, [(1, u)])"
    using hits_no_blank [of 61] by simp
  have "hits (Rep True 0 (Some 1) (Cls False [Range 42 42, Range 94 94, Range 36 36, Range 124 124, Range 33 33, Range 126 126]))
      (rev u @ [91], [61, 39] @ ?q, [(1, u)]) (rev u @ [91], [61, 39] @ ?q, [(1, u)])"
    by (rule hits_Rep_stop) (simp_all add: in_cls_def)
  moreover have "hits (Seq (ch 61) Eps) (rev u @ [91], [61, 39] @ ?q, [(1, u)]) (61 # rev u @ [91], [39] @ ?q, [(1, u)])"
    by (simp add: hits_Seq [OF hits_Cls hits_Eps])
  ultimately have g2: "hits operator_re (rev u @ [91], [61, 39] @ ?q, [(1, u)]) (61 # rev u @ [91], [39] @ ?q, [(2, [61]), (1, u)])"
    using hits_Group [OF hits_Seq, where n = 2] by fastforce
  let ?b = "39 # 61 # rev u @ [91]" and ?cs = "[(2, [61]), (1, u)]"
  have s3: "hits (star (Cls False blanks)) (61 # rev u @ [91], [39] @ ?q, ?cs) (61 # rev u @ [91], [39] @ ?q, ?cs)"
    using hits_no_blank [of 39] by simp
  from hits_Group [OF hits_Seq [OF hits_quoted [of ?b v "[93]" ?cs] hits_Eps], of 3]
  have g3: "hits (Group 3 (Seq (star quoted_unit) Eps)) (?b, ?q, ?cs) (rev ?w @ ?b, [39, 93], (3, ?w) # ?cs)"
    by simp
  have "hits (Seq (ch 39) Eps) (rev ?w @ ?b, [39, 93], (3, ?w) # ?cs) (39 # rev ?w @ ?b, [93], (3, ?w) # ?cs)"
    by (simp add: hits_Seq [OF hits_Cls hits_Eps])
  from hits_Seq [OF _ hits_Seq [OF g3 this], of "ch 39" "(61 # rev u @ [91], [39] @ ?q, ?cs)"]
  have "hits quoted_re (61 # rev u @ [91], [39] @ ?q, ?cs) (39 # rev ?w @ ?b, [93], (3, ?w) # ?cs)"
    by (simp add: hits_Cls)
  from hits_Seq [OF hits_Alt1 [OF this, of other_values] hits_Eps]
  have v: "hits (Seq (Alt quoted_re other_values) Eps) (61 # rev u @ [91], [39] @ ?q, ?cs) (39 # rev ?w @ ?b, [93], (3, ?w) # ?cs)" .
  have e: "hits (Seq (star (Cls False blanks)) (Seq (ch 93) Eps)) (39 # rev ?w @ ?b, [93], (3, ?w) # ?cs)
      (93 # 39 # rev ?w @ ?b, [], (3, ?w) # ?cs)"
    by (rule hits_Seq [OF hits_no_blank hits_Seq [OF hits_Cls hits_Eps]]) simp_all
  show ?thesis
    unfolding attr_re_eq
    using hits_Seq [OF hits_Bol hits_Seq [OF 91 hits_Seq [OF s1 hits_Seq [OF g1 hits_Seq
      [OF hits_Alt1 [OF hits_Seq [OF s2 hits_Seq [OF g2 hits_Seq [OF s3 v]]]] e]]]]]
    by blast
qed

lemma plain_backslashed: "set u \<inter> set meta = {} \<Longrightarrow> backslashed u = u"
  by (induction u) auto

lemma read_attr_backslashed:
  assumes "u \<noteq> []" "\<forall>c\<in>set u. is_word c" "set u \<inter> set meta = {}"
  shows "read_attr (91 # u @ [61, 39] @ backslashed v @ [39, 93]) = Some (u, Some (js ''=''), v)"
proof -
  from hits_attr [OF assms(1,2), of v] obtain b sts where
    m: "re_match False attr_re ([], 91 # u @ [61, 39] @ backslashed v @ [39, 93], []) =
      (b, [], [(3, backslashed v), (2, [61]), (1, u)]) # sts" by (auto simp: hits_def)
  obtain p where p: "attr_re = Seq Bol p" using attr_re_eq by blast
  from m have "re_exec False attr_re (91 # u @ [61, 39] @ backslashed v @ [39, 93]) = Some [(3, backslashed v), (2, [61]), (1, u)]"
    unfolding p re_exec_Bol by simp
  moreover have "unescape_css u = u"
    using unescape_backslashed [of u] plain_backslashed [OF assms(3)] by simp
  moreover have "backslashed v = [] \<longleftrightarrow> v = []" by (cases v) auto
  ultimately show ?thesis
    using unescape_backslashed [of v] unescape_backslashed [of "[]"]
    by (auto simp: read_attr_def Let_def cap_def by_group_def js_def)
qed

text \<open>
  C34: The selector that both validation libraries build to look a field up by its name selects exactly that name,
  whatever units the name has.
\<close>

theorem field_selector_exact:
  "read_attr (js ''[name='' @ [39] @ escapeAttributeValue n @ [39] @ js '']'') = Some (js ''name'', Some (js ''=''), n) \<and>
   read_attr (js ''[name='' @ [39] @ escapeCssMeta n @ [39] @ js '']'') = Some (js ''name'', Some (js ''=''), n)"
proof -
  have "js ''name'' \<noteq> []" "\<forall>c\<in>set (js ''name''). is_word c" "set (js ''name'') \<inter> set meta = {}"
    by code_simp+
  from read_attr_backslashed [OF this, of n]
  show ?thesis by (simp add: escapeAttributeValue_eq escapeCssMeta_eq js_def)
qed

end
