(* ===== verification/JqParam.thy ===== *)
theory JqParam
  imports JsObject
begin

text \<open>
  \<open>$.param\<close> (\<open>jquery.js\<close>), with which a remote validation writes down what it asks, so that it need not ask the
  same again; and \<open>encodeURIComponent\<close>, on which it rests.
\<close>

subsection \<open>\<open>encodeURIComponent\<close>\<close>

text \<open>The code points of a text; a surrogate that stands alone has none.\<close>

fun points :: "jstr \<Rightarrow> nat list option" where
  "points [] = Some []"
| "points (c # r) =
     (if 0xD800 \<le> c \<and> c < 0xDC00
      then (case r of
              d # r' \<Rightarrow>
                if 0xDC00 \<le> d \<and> d < 0xE000
                then map_option ((#) (0x10000 + (c - 0xD800) * 0x400 + (d - 0xDC00))) (points r')
                else None
            | [] \<Rightarrow> None)
      else if 0xDC00 \<le> c \<and> c < 0xE000 then None
      else map_option ((#) c) (points r))"

definition unreserved :: "nat \<Rightarrow> bool" where
  "unreserved c = (is_word c \<or> c \<in> set (js ''-.!~*()'' @ [39]))"

definition upper_hex :: "nat \<Rightarrow> cunit" where
  "upper_hex n = (if n < 10 then 48 + n else 55 + n)"

definition percent :: "nat \<Rightarrow> jstr" where
  "percent b = [37, upper_hex (b div 16), upper_hex (b mod 16)]"

definition utf8 :: "nat \<Rightarrow> nat list" where
  "utf8 n =
     (if n < 0x80 then [n]
      else if n < 0x800 then [0xC0 + n div 64, 0x80 + n mod 64]
      else if n < 0x10000 then [0xE0 + n div 4096, 0x80 + n div 64 mod 64, 0x80 + n mod 64]
      else [0xF0 + n div 262144, 0x80 + n div 4096 mod 64, 0x80 + n div 64 mod 64, 0x80 + n mod 64])"

definition encode_point :: "nat \<Rightarrow> jstr" where
  "encode_point n = (if unreserved n then [n] else concat (map percent (utf8 n)))"

definition encodeURIComponent :: "jstr \<Rightarrow> jstr result" where
  "encodeURIComponent s =
     (case points s of None \<Rightarrow> Inl (Error (js ''URIError'')) | Some ps \<Rightarrow> Inr (concat (map encode_point ps)))"

subsection \<open>\<open>$.param\<close>\<close>

text \<open>
  Data to be written: \<open>null\<close>, an array, an object, and anything else as its text, a function as the text of what it
  answers when it is called. Fields are in the order of \<open>for ... in\<close>; one whose value is \<open>undefined\<close> is not there,
  since \<open>$.extend\<close> leaves it out, and inside other data \<open>undefined\<close> is written as \<open>null\<close> is.
\<close>

datatype param_data = Nothing | Scalar jstr | Items "param_data list" | Fields "(jstr \<times> param_data) list"

fun scalar_text :: "param_data \<Rightarrow> jstr" where
  "scalar_text Nothing = []"
| "scalar_text (Scalar s) = s"
| "scalar_text (Items ds) = js_join (js '','') (map scalar_text ds)"
| "scalar_text (Fields _) = js ''[object Object]''"

definition indexed :: "jstr \<Rightarrow> nat \<Rightarrow> param_data \<Rightarrow> jstr" where
  "indexed prefx i v = prefx @ [91] @ (case v of Items _ \<Rightarrow> js_nat i | Fields _ \<Rightarrow> js_nat i | _ \<Rightarrow> []) @ [93]"

text \<open>The pairs of keys and values that are added, in order.\<close>

fun buildParams :: "bool \<Rightarrow> jstr \<Rightarrow> param_data \<Rightarrow> (jstr \<times> jstr) list"
  and build_items :: "bool \<Rightarrow> jstr \<Rightarrow> nat \<Rightarrow> param_data list \<Rightarrow> (jstr \<times> jstr) list"
  and build_fields :: "bool \<Rightarrow> jstr \<Rightarrow> (jstr \<times> param_data) list \<Rightarrow> (jstr \<times> jstr) list" where
  "buildParams traditional prefx (Items ds) =
     (if traditional \<or> re_test False (rx ''`[`]$'') prefx then map (\<lambda>d. (prefx, scalar_text d)) ds
      else build_items traditional prefx 0 ds)"
| "buildParams traditional prefx (Fields fs) =
     (if traditional then [(prefx, scalar_text (Fields fs))] else build_fields traditional prefx fs)"
| "buildParams traditional prefx d = [(prefx, scalar_text d)]"
| "build_items traditional prefx i [] = []"
| "build_items traditional prefx i (d # ds) =
     buildParams traditional (indexed prefx i d) d @ build_items traditional prefx (Suc i) ds"
| "build_fields traditional prefx [] = []"
| "build_fields traditional prefx ((k, d) # fs) =
     buildParams traditional (prefx @ [91] @ k @ [93]) d @ build_fields traditional prefx fs"

definition add_pair :: "jstr \<times> jstr \<Rightarrow> jstr result" where
  "add_pair kv = rbind (encodeURIComponent (fst kv)) (\<lambda>k. rbind (encodeURIComponent (snd kv)) (\<lambda>v. Inr (k @ [61] @ v)))"

fun add_pairs :: "(jstr \<times> jstr) list \<Rightarrow> jstr list result" where
  "add_pairs [] = Inr []"
| "add_pairs (kv # kvs) = rbind (add_pair kv) (\<lambda>s. rbind (add_pairs kvs) (\<lambda>ss. Inr (s # ss)))"

text \<open>\<open>$.param( a, traditional )\<close> of an object or of nothing.\<close>

definition param_string :: "bool \<Rightarrow> (jstr \<times> param_data) list option \<Rightarrow> jstr result" where
  "param_string traditional a =
     (case a of
        None \<Rightarrow> Inr []
      | Some fs \<Rightarrow> rbind (add_pairs (concat (map (\<lambda>(k, d). buildParams traditional k d) fs))) (\<lambda>ss. Inr (js_join [38] ss)))"

text \<open>What a remote validation of a value asks: \<open>$.param( $.extend( { data: value }, param.data ) )\<close>.\<close>

definition optionDataString :: "param_data \<Rightarrow> param_data obj \<Rightarrow> jstr result" where
  "optionDataString v data = param_string False (Some (extend_obj [(js ''data'', v)] data))"


subsection \<open>Reading back\<close>

text \<open>A reader of percent-encoded UTF-8, point by point.\<close>

definition read_byte :: "jstr \<Rightarrow> (nat \<times> jstr) option" where
  "read_byte s =
     (case s of
        c # a # b # r \<Rightarrow>
          if c = 37 then (case (hex_value a, hex_value b) of (Some x, Some y) \<Rightarrow> Some (16 * x + y, r) | _ \<Rightarrow> None)
          else Some (c, a # b # r)
      | c # r \<Rightarrow> if c = 37 then None else Some (c, r)
      | [] \<Rightarrow> None)"

fun read_more :: "nat \<Rightarrow> nat \<Rightarrow> jstr \<Rightarrow> (nat \<times> jstr) option" where
  "read_more 0 n s = Some (n, s)"
| "read_more (Suc k) n s = (case read_byte s of None \<Rightarrow> None | Some (b, r) \<Rightarrow> read_more k (64 * n + (b - 0x80)) r)"

definition read_point :: "jstr \<Rightarrow> (nat \<times> jstr) option" where
  "read_point s =
     (case read_byte s of
        None \<Rightarrow> None
      | Some (b, r) \<Rightarrow>
          if b < 0x80 then Some (b, r)
          else if b < 0xE0 then read_more 1 (b - 0xC0) r
          else if b < 0xF0 then read_more 2 (b - 0xE0) r
          else read_more 3 (b - 0xF0) r)"

lemma hex_upper_hex: "n < 16 \<Longrightarrow> hex_value (upper_hex n) = Some n"
  by (auto simp: upper_hex_def hex_value_def is_digit_def)

lemma read_byte_percent [simp]: "b < 256 \<Longrightarrow> read_byte (percent b @ r) = Some (b, r)"
  by (simp add: read_byte_def percent_def hex_upper_hex)

lemma read_byte_plain: "c \<noteq> 37 \<Longrightarrow> read_byte (c # r) = Some (c, r)"
  by (auto simp: read_byte_def split: list.split)

lemma unreserved_plain: "unreserved c \<Longrightarrow> c < 128 \<and> c \<notin> {37, 38, 61}"
  by (auto simp: unreserved_def is_word_def is_digit_def js_def)

lemma read_more_percent: "b < 64 \<Longrightarrow> read_more (Suc k) n (percent (0x80 + b) @ r) = read_more k (64 * n + b) r"
  by simp

lemma read_point_bytes:
  "b < 0x80 \<Longrightarrow> read_point (percent b @ r) = Some (b, r)"
  "a < 32 \<Longrightarrow> b < 64 \<Longrightarrow> read_point (percent (0xC0 + a) @ percent (0x80 + b) @ r) = Some (64 * a + b, r)"
  "a < 16 \<Longrightarrow> b < 64 \<Longrightarrow> c < 64 \<Longrightarrow>
     read_point (percent (0xE0 + a) @ percent (0x80 + b) @ percent (0x80 + c) @ r) = Some (64 * (64 * a + b) + c, r)"
  "a < 16 \<Longrightarrow> b < 64 \<Longrightarrow> c < 64 \<Longrightarrow> d < 64 \<Longrightarrow>
     read_point (percent (0xF0 + a) @ percent (0x80 + b) @ percent (0x80 + c) @ percent (0x80 + d) @ r) =
       Some (64 * (64 * (64 * a + b) + c) + d, r)"
  by (simp_all add: read_point_def read_more_percent numeral_2_eq_2 numeral_3_eq_3 del: read_more.simps(2))

lemma low: "(k :: nat) * (n div (k * j)) + n div j mod k = n div j"
  by (metis div_mult2_eq mult.commute mult_div_mod_eq)

lemma read_point_encode:
  assumes "n < 0x110000"
  shows "read_point (encode_point n @ r) = Some (n, r)"
proof (cases "unreserved n")
  case True
  with unreserved_plain [OF True] show ?thesis by (simp add: encode_point_def read_point_def read_byte_plain)
next
  case False
  have m: "x mod 64 < 64" for x :: nat by simp
  consider "n < 0x80" | "0x80 \<le> n" "n < 0x800" | "0x800 \<le> n" "n < 0x10000" | "0x10000 \<le> n" by linarith
  then show ?thesis
  proof cases
    case 1
    with False read_point_bytes(1) show ?thesis by (simp add: encode_point_def utf8_def)
  next
    case 2
    then have c: "\<not> n < 0x80" "n div 64 < 32" by (simp_all add: div_less_iff_less_mult)
    have e: "encode_point n @ r = percent (0xC0 + n div 64) @ percent (0x80 + n mod 64) @ r"
      by (simp only: encode_point_def utf8_def False c(1) 2 if_False if_True list.map concat.simps append.simps append_assoc)
    show ?thesis unfolding e read_point_bytes(2) [OF c(2) m] by (simp only: mult_div_mod_eq)
  next
    case 3
    then have c: "\<not> n < 0x80" "\<not> n < 0x800" "n div 4096 < 16" by (simp_all add: div_less_iff_less_mult)
    have e: "encode_point n @ r = percent (0xE0 + n div 4096) @ percent (0x80 + n div 64 mod 64) @ percent (0x80 + n mod 64) @ r"
      by (simp only: encode_point_def utf8_def False c(1,2) 3 if_False if_True list.map concat.simps append.simps append_assoc)
    have "64 * (64 * (n div 4096) + n div 64 mod 64) + n mod 64 = n" using low [of 64 n 64] by simp
    then show ?thesis unfolding e read_point_bytes(3) [OF c(3) m m] by simp
  next
    case 4
    then have c: "\<not> n < 0x80" "\<not> n < 0x800" "\<not> n < 0x10000" "n div 262144 < 16"
      using assms by (simp_all add: div_less_iff_less_mult)
    have e: "encode_point n @ r = percent (0xF0 + n div 262144) @ percent (0x80 + n div 4096 mod 64) @
        percent (0x80 + n div 64 mod 64) @ percent (0x80 + n mod 64) @ r"
      by (simp only: encode_point_def utf8_def False c if_False if_True list.map concat.simps append.simps append_assoc)
    have "64 * (64 * (64 * (n div 262144) + n div 4096 mod 64) + n div 64 mod 64) + n mod 64 = n"
      using low [of 64 n 64] low [of 64 n 4096] by simp
    then show ?thesis unfolding e read_point_bytes(4) [OF c(4) m m m] by simp
  qed
qed

text \<open>The units of a point, and texts whose units are 16 bits wide.\<close>

definition units_of :: "nat \<Rightarrow> jstr" where
  "units_of p = (if p < 0x10000 then [p] else [0xD800 + (p - 0x10000) div 0x400, 0xDC00 + (p - 0x10000) mod 0x400])"

definition utf16 :: "jstr \<Rightarrow> bool" where
  "utf16 s = list_all (\<lambda>c. c < 0x10000) s"

lemma units_of_pair:
  assumes "0xD800 \<le> c" "c < 0xDC00" "0xDC00 \<le> d" "d < 0xE000"
  shows "units_of (0x10000 + (c - 0xD800) * 0x400 + (d - 0xDC00)) = [c, d]"
proof -
  have "(c - 0xD800) * 0x400 + (d - 0xDC00) = (d - 0xDC00) + (c - 0xD800) * 0x400" by simp
  moreover have "d - 0xDC00 < 0x400" using assms by simp
  ultimately have "((c - 0xD800) * 0x400 + (d - 0xDC00)) div 0x400 = c - 0xD800" "((c - 0xD800) * 0x400 + (d - 0xDC00)) mod 0x400 = d - 0xDC00"
    by simp_all
  with assms show ?thesis by (simp add: units_of_def add.assoc)
qed

lemma points_units:
  "points s = Some ps \<Longrightarrow> utf16 s \<Longrightarrow> concat (map units_of ps) = s \<and> (\<forall>p\<in>set ps. p < 0x110000)"
proof (induction s arbitrary: ps rule: points.induct)
  case (2 c r)
  show ?case
  proof (cases "0xD800 \<le> c \<and> c < 0xDC00")
    case True
    with "2.prems" obtain d r' qs where r: "r = d # r'" "0xDC00 \<le> d" "d < 0xE000" "points r' = Some qs"
      and ps: "ps = (0x10000 + (c - 0xD800) * 0x400 + (d - 0xDC00)) # qs"
      by (auto split: list.splits if_splits)
    from 2(1) [OF True r(1) _ r(4)] r "2.prems"(2) have "concat (map units_of qs) = r' \<and> (\<forall>p\<in>set qs. p < 0x110000)"
      by (simp add: utf16_def)
    moreover have "0x10000 + (c - 0xD800) * 0x400 + (d - 0xDC00) < 0x110000"
    proof -
      have "c - 0xD800 \<le> 1023" "d - 0xDC00 \<le> 1023" using True r(2,3) by linarith+
      then have "(c - 0xD800) * 0x400 \<le> 1023 * 0x400" by (intro mult_le_mono1)
      with \<open>d - 0xDC00 \<le> 1023\<close> show ?thesis by linarith
    qed
    ultimately show ?thesis using units_of_pair [of c d] True r ps by simp
  next
    case False
    with "2.prems" obtain qs where q: "points r = Some qs" "ps = c # qs" "\<not> (0xDC00 \<le> c \<and> c < 0xE000)"
      by (auto split: if_splits)
    with 2(2) [OF False q(3) q(1)] "2.prems"(2) show ?thesis by (simp add: utf16_def units_of_def)
  qed
qed simp

lemma encode_point_not_Nil: "n < 0x110000 \<Longrightarrow> encode_point n \<noteq> []"
  using read_point_encode [of n "[]"] by (auto simp: read_point_def read_byte_def)

lemma encode_points_inject:
  "concat (map encode_point ps) = concat (map encode_point qs) \<Longrightarrow> \<forall>p\<in>set ps. p < 0x110000 \<Longrightarrow> \<forall>p\<in>set qs. p < 0x110000 \<Longrightarrow> ps = qs"
proof (induction ps arbitrary: qs)
  case Nil
  then show ?case by (cases qs) (auto simp: encode_point_not_Nil)
next
  case (Cons p ps)
  have p: "read_point (concat (map encode_point (p # ps))) = Some (p, concat (map encode_point ps))"
    using read_point_encode [of p] Cons.prems(2) by simp
  show ?case
  proof (cases qs)
    case Nil
    with Cons.prems(1,2) show ?thesis by (auto simp: encode_point_not_Nil)
  next
    case (Cons q qs')
    with read_point_encode [of q] Cons.prems(3) have "read_point (concat (map encode_point qs)) = Some (q, concat (map encode_point qs'))"
      by simp
    with p Cons.prems(1) have "p = q" "concat (map encode_point ps) = concat (map encode_point qs')" by auto
    with Cons.IH [of qs'] Cons.prems(2,3) Cons show ?thesis by simp
  qed
qed

lemma encodeURIComponent_inject:
  "encodeURIComponent s = Inr x \<Longrightarrow> encodeURIComponent t = Inr x \<Longrightarrow> utf16 s \<Longrightarrow> utf16 t \<Longrightarrow> s = t"
  unfolding encodeURIComponent_def
  by (auto split: option.splits dest!: points_units encode_points_inject)

lemma encoded_units: "encodeURIComponent s = Inr x \<Longrightarrow> 38 \<notin> set x \<and> 61 \<notin> set x"
proof -
  have u: "upper_hex n \<noteq> 38 \<and> upper_hex n \<noteq> 61" if "n < 16" for n using that by (auto simp: upper_hex_def)
  have "38 \<notin> set (encode_point n) \<and> 61 \<notin> set (encode_point n)" for n
    using unreserved_plain [of n] by (auto simp: encode_point_def percent_def upper_hex_def)
  then show "encodeURIComponent s = Inr x \<Longrightarrow> ?thesis"
    by (auto simp: encodeURIComponent_def split: option.splits)
qed


subsection \<open>The text of a request\<close>

lemma add_pair_Inr: "add_pair kv = Inr s \<longleftrightarrow>
    (\<exists>k v. encodeURIComponent (fst kv) = Inr k \<and> encodeURIComponent (snd kv) = Inr v \<and> s = k @ 61 # v)"
  by (auto simp: add_pair_def rbind_Inr_iff)

lemma split_at_equals: "61 \<notin> set k \<Longrightarrow> 61 \<notin> set k' \<Longrightarrow> k @ 61 # v = k' @ 61 # v' \<longleftrightarrow> k = k' \<and> v = v'"
proof (induction k arbitrary: k')
  case Nil
  then show ?case by (cases k') auto
next
  case (Cons c k)
  then show ?case by (cases k') auto
qed

lemma add_pair_inject:
  assumes "add_pair kv = Inr s" "add_pair kv' = Inr s" "utf16 (fst kv)" "utf16 (snd kv)" "utf16 (fst kv')" "utf16 (snd kv')"
  shows "kv = kv'"
proof -
  from assms(1) obtain k v where 1: "encodeURIComponent (fst kv) = Inr k" "encodeURIComponent (snd kv) = Inr v" "s = k @ 61 # v"
    unfolding add_pair_Inr by blast
  from assms(2) obtain k' v' where 2: "encodeURIComponent (fst kv') = Inr k'" "encodeURIComponent (snd kv') = Inr v'" "s = k' @ 61 # v'"
    unfolding add_pair_Inr by blast
  from 1(3) 2(3) encoded_units [OF 1(1)] encoded_units [OF 2(1)] have "k = k'" "v = v'"
    by (simp_all add: split_at_equals)
  with 1 2 assms(3-6) have "fst kv = fst kv'" "snd kv = snd kv'" by (auto intro: encodeURIComponent_inject)
  then show ?thesis by (simp add: prod_eq_iff)
qed

definition utf16_pairs :: "(jstr \<times> jstr) list \<Rightarrow> bool" where
  "utf16_pairs kvs = list_all (\<lambda>(k, v). utf16 k \<and> utf16 v) kvs"

lemma add_pairs_inject:
  "add_pairs kvs = Inr ss \<Longrightarrow> add_pairs kvs' = Inr ss \<Longrightarrow> utf16_pairs kvs \<Longrightarrow> utf16_pairs kvs' \<Longrightarrow> kvs = kvs'"
proof (induction kvs arbitrary: kvs' ss)
  case Nil
  then show ?case by (cases kvs') (auto simp: rbind_Inr_iff)
next
  case (Cons kv kvs)
  then obtain s ss' where s: "add_pair kv = Inr s" "add_pairs kvs = Inr ss'" "ss = s # ss'" by (auto simp: rbind_Inr_iff)
  with Cons.prems(2) obtain kv' kvs'' where k: "kvs' = kv' # kvs''" "add_pair kv' = Inr s" "add_pairs kvs'' = Inr ss'"
    by (cases kvs') (auto simp: rbind_Inr_iff)
  have "kv = kv'" by (rule add_pair_inject [OF s(1) k(2)]) (use Cons.prems(3,4) k(1) in \<open>auto simp: utf16_pairs_def\<close>)
  moreover have "kvs = kvs''" by (rule Cons.IH [OF s(2) k(3)]) (use Cons.prems(3,4) k(1) in \<open>auto simp: utf16_pairs_def\<close>)
  ultimately show ?case using k(1) by simp
qed

lemma add_pairs_units: "add_pairs kvs = Inr ss \<Longrightarrow> \<forall>s\<in>set ss. 38 \<notin> set s \<and> s \<noteq> []"
proof (induction kvs arbitrary: ss)
  case (Cons kv kvs)
  then obtain s ss' where s: "add_pair kv = Inr s" "add_pairs kvs = Inr ss'" "ss = s # ss'" by (auto simp: rbind_Inr_iff)
  from s(1) have "38 \<notin> set s \<and> s \<noteq> []" by (auto simp: add_pair_Inr dest: encoded_units)
  with Cons.IH [OF s(2)] s(3) show ?case by simp
qed simp

lemma join_amp_inject:
  assumes "\<forall>s\<in>set ss. 38 \<notin> set s \<and> s \<noteq> []" "\<forall>s\<in>set ts. 38 \<notin> set s \<and> s \<noteq> []" "js_join [38] ss = js_join [38] ts"
  shows "ss = ts"
proof (cases "ss = [] \<or> ts = []")
  case True
  moreover have "js_join [38] us = [] \<Longrightarrow> \<forall>s\<in>set us. s \<noteq> [] \<Longrightarrow> us = []" for us
    by (induction "[38 :: nat]" us rule: js_join.induct) auto
  ultimately show ?thesis using assms by (metis js_join.simps(1))
next
  case False
  with assms js_split_join [of ss 38] js_split_join [of ts 38] show ?thesis by metis
qed

definition scalars :: "(jstr \<times> jstr) list \<Rightarrow> param_data obj" where
  "scalars kvs = map (\<lambda>(k, v). (k, Scalar v)) kvs"

lemma param_string_scalars:
  "param_string False (Some (scalars kvs)) = rbind (add_pairs kvs) (\<lambda>ss. Inr (js_join [38] ss))"
proof -
  have "concat (map (\<lambda>(k, d). buildParams False k d) (scalars kvs)) = kvs"
    by (induction kvs) (auto simp: scalars_def)
  then show ?thesis by (simp add: param_string_def)
qed

lemma param_string_inject:
  assumes "param_string False (Some (scalars kvs)) = Inr x" "param_string False (Some (scalars kvs')) = Inr x"
    "utf16_pairs kvs" "utf16_pairs kvs'"
  shows "kvs = kvs'"
proof -
  from assms(1) obtain ss where s: "add_pairs kvs = Inr ss" "x = js_join [38] ss"
    by (auto simp: param_string_scalars rbind_Inr_iff)
  from assms(2) obtain ts where t: "add_pairs kvs' = Inr ts" "x = js_join [38] ts"
    by (auto simp: param_string_scalars rbind_Inr_iff)
  have "ss = ts" using join_amp_inject [OF add_pairs_units [OF s(1)] add_pairs_units [OF t(1)]] s(2) t(2) by simp
  with add_pairs_inject [OF s(1) _ assms(3,4)] t(1) show ?thesis by simp
qed

lemma extend_disjoint: "distinct (keys b) \<Longrightarrow> set (keys a) \<inter> set (keys b) = {} \<Longrightarrow> extend_obj a b = a @ b"
proof (induction b arbitrary: a)
  case (Cons x b)
  then show ?case by (cases x) (auto simp: put_new)
qed simp

lemma same_request_same_question:
  assumes "distinct (keys fs)" "distinct (keys fs')" "js ''data'' \<notin> set (keys fs)" "js ''data'' \<notin> set (keys fs')"
    "utf16_pairs ((js ''data'', v) # fs)" "utf16_pairs ((js ''data'', v') # fs')"
    "optionDataString (Scalar v) (scalars fs) = Inr x" "optionDataString (Scalar v') (scalars fs') = Inr x'"
  shows "x = x' \<longleftrightarrow> v = v' \<and> fs = fs'"
proof -
  have o: "optionDataString (Scalar u) (scalars gs) = param_string False (Some (scalars ((js ''data'', u) # gs)))"
    if "distinct (keys gs)" "js ''data'' \<notin> set (keys gs)" for u gs
  proof -
    have "keys (scalars gs) = keys gs" by (induction gs) (auto simp: scalars_def)
    with that have "extend_obj [(js ''data'', Scalar u)] (scalars gs) = [(js ''data'', Scalar u)] @ scalars gs"
      by (intro extend_disjoint) simp_all
    then show ?thesis by (simp add: optionDataString_def scalars_def)
  qed
  from assms(7,8) param_string_inject [OF _ _ assms(5,6), of x] show ?thesis
    by (auto simp: o [OF assms(1,3)] o [OF assms(2,4)])
qed

end
