(* ===== verification/ValidatorRemote.thy ===== *)
theory ValidatorRemote
  imports ValidatorSamples JqParam
begin

text \<open>
  When a remote rule asks the server: the memory of the last question (\<open>previousValue\<close>) meets the text that
  \<open>$.param\<close> makes of a question.
\<close>

lemma previouses_set_own: "previouses (set_own_message n m st) = previouses st"
  by (simp add: set_own_message_def split: option.split custom.split)

lemma previouses_own: "previouses (own_messages n st) = previouses st"
  by (simp add: own_messages_def)

text \<open>Swapping the messages leaves the memory of the question and of its answer alone.\<close>

lemma remembered:
  assumes "i < length (previouses st)"
  shows "old (previouses (remember_message n i st) ! i) = old (previouses st ! i)"
    "prev_valid (previouses (remember_message n i st) ! i) = prev_valid (previouses st ! i)"
  using assms
  by (simp_all add: remember_message_def previouses_set_own previouses_own update_previous_def Let_def)

lemma remote_cases:
  assumes "optional_of (form pg) (form pg ! e) = Inr False" "previous_of st e = Some i" "i < length (previouses st)"
  shows "old (previouses st ! i) = Some (data_string pg v p) \<Longrightarrow> snd (remote pg e v p st) = Inr (Verdict (prev_valid (previouses st ! i)))
      \<and> requests (fst (remote pg e v p st)) = requests st"
    and "old (previouses st ! i) \<noteq> Some (data_string pg v p) \<Longrightarrow> snd (remote pg e v p st) = Inr Pending
      \<and> map_of (inflight (fst (remote pg e v p st))) (name_of pg e) = Some (e, v, i)"
proof -
  have p: "previousValue pg e st = (st, i)" using assms(2) by (simp add: previousValue_def)
  {
    assume "old (previouses st ! i) = Some (data_string pg v p)"
    with assms p show "snd (remote pg e v p st) = Inr (Verdict (prev_valid (previouses st ! i)))
      \<and> requests (fst (remote pg e v p st)) = requests st"
      by (simp add: remote_def remembered Let_def)
  next
    assume "old (previouses st ! i) \<noteq> Some (data_string pg v p)"
    with assms p show "snd (remote pg e v p st) = Inr Pending
      \<and> map_of (inflight (fst (remote pg e v p st))) (name_of pg e) = Some (e, v, i)"
      by (simp add: remote_def remembered send_request_def Let_def)
  }
qed

text \<open>
  C38: A remote rule asks the server exactly when it has something new to ask: after a question about a value with
  further fields, the same question is answered from memory and sends nothing, and any other value or field makes
  the field wait for a new answer.
\<close>

theorem remote_asks_iff:
  assumes "optional_of (form pg) (form pg ! e) = Inr False" "previous_of st e = Some i" "i < length (previouses st)"
    "old (previouses st ! i) = Some x" "optionDataString (Scalar u) (scalars fs) = Inr x"
    "optionDataString (Scalar v) (scalars fs') = Inr (data_string pg (VText v) p)"
    "distinct (keys fs)" "distinct (keys fs')" "js ''data'' \<notin> set (keys fs)" "js ''data'' \<notin> set (keys fs')"
    "utf16_pairs ((js ''data'', u) # fs)" "utf16_pairs ((js ''data'', v) # fs')"
  shows "snd (remote pg e (VText v) p st) =
      Inr (if u = v \<and> fs = fs' then Verdict (prev_valid (previouses st ! i)) else Pending)
    \<and> map_of (inflight (fst (remote pg e (VText v) p st))) (name_of pg e) =
      (if u = v \<and> fs = fs' then map_of (inflight st) (name_of pg e) else Some (e, VText v, i))"
proof -
  have "x = data_string pg (VText v) p \<longleftrightarrow> u = v \<and> fs = fs'"
    by (rule same_request_same_question [OF assms(7-12) assms(5,6)])
  then show ?thesis using remote_cases [OF assms(1-3), of "VText v" p] assms(4) by (auto simp: requests_def)
qed

definition asking_page :: page where
  "asking_page = (two_fields ''bob'' ''oslo'')\<lparr>data_string := \<lambda>v _. js ''data='' @ val_text v\<rparr>"

definition asked :: vstate where
  "asked = fresh\<lparr>previouses := [\<lparr>old = Some (js ''data=ann''), prev_valid = True, prev_message = [], originalMessage = None\<rparr>],
     previous_of := [0 \<mapsto> 0]\<rparr>"

theorem remote_asks_iff_witness:
  "snd (remote asking_page 0 (VText (js ''bob'')) (P (VText (js ''/check''))) asked) =
      Inr (if js ''ann'' = js ''bob'' \<and> ([] :: (jstr \<times> jstr) list) = [] then Verdict (prev_valid (previouses asked ! 0)) else Pending)
    \<and> map_of (inflight (fst (remote asking_page 0 (VText (js ''bob'')) (P (VText (js ''/check''))) asked))) (name_of asking_page 0) =
      (if js ''ann'' = js ''bob'' \<and> ([] :: (jstr \<times> jstr) list) = [] then map_of (inflight asked) (name_of asking_page 0)
       else Some (0, VText (js ''bob''), 0))"
  by (rule remote_asks_iff) code_simp+


end
