(* ===== verification/JqClasses.thy ===== *)
theory JqClasses
  imports JsPrelude
begin

text \<open>
  The class names of an element (\<open>jquery.js\<close>: \<open>addClass\<close>, \<open>removeClass\<close>, \<open>toggleClass\<close>, \<open>hasClass\<close>). jQuery keeps them
  as one text and searches it for a name between spaces; the validation libraries use them as sets of names. An element
  is its attribute \<open>class\<close>, which may be absent.
\<close>

subsection \<open>Words\<close>

text \<open>\<open>s.match( rnothtmlwhite ) || []\<close>: the words between the white space of HTML.\<close>

definition html_white :: "cunit \<Rightarrow> bool" where
  "html_white c = (c \<in> {32, 9, 10, 12, 13})"

definition html_words :: "jstr \<Rightarrow> jstr list" where
  "html_words s = filter (\<lambda>w. w \<noteq> []) (js_split 32 (map (\<lambda>c. if html_white c then 32 else c) s))"

definition stripAndCollapse :: "jstr \<Rightarrow> jstr" where
  "stripAndCollapse s = js_join [32] (html_words s)"

definition getClass :: "jstr option \<Rightarrow> jstr" where
  "getClass a = (case a of None \<Rightarrow> [] | Some s \<Rightarrow> s)"

text \<open>What \<open>addClass\<close> and the others are given: a text, an array of texts, or something else.\<close>

datatype class_value = ClassText jstr | ClassList "jstr list" | NoClass

definition classesToArray :: "class_value \<Rightarrow> jstr list" where
  "classesToArray v = (case v of ClassText s \<Rightarrow> html_words s | ClassList ws \<Rightarrow> ws | NoClass \<Rightarrow> [])"

subsection \<open>Operations\<close>

text \<open>\<open>cur.replace( p, r )\<close> with texts: the first occurrence.\<close>

fun replace_first :: "jstr \<Rightarrow> jstr \<Rightarrow> jstr \<Rightarrow> jstr" where
  "replace_first p r [] = (if p = [] then r else [])"
| "replace_first p r (c # cs) =
     (if js_starts_with (c # cs) p then r @ drop (length p) (c # cs) else c # replace_first p r cs)"

definition spaced :: "jstr \<Rightarrow> jstr" where
  "spaced s = [32] @ s @ [32]"

text \<open>The loops end at an empty class.\<close>

fun add_loop :: "jstr list \<Rightarrow> jstr \<Rightarrow> jstr" where
  "add_loop [] cur = cur"
| "add_loop (clazz # classes) cur =
     (if clazz = [] then cur
      else add_loop classes (if js_includes cur (spaced clazz) then cur else cur @ clazz @ [32]))"

lemma length_replace_first: "js_includes s p \<Longrightarrow> length (replace_first p r s) = length s + length r - length p"
proof (induction s)
  case (Cons c s)
  show ?case
  proof (cases "js_starts_with (c # s) p")
    case True
    then have "length p \<le> length (c # s)" by (simp only: js_starts_with_iff prefix_length_le)
    with True show ?thesis by simp
  next
    case False
    with Cons.prems have i: "js_includes s p" by simp
    then have "length p \<le> length s" by (simp add: js_includes_iff sublist_length_le)
    with Cons.IH [OF i] False show ?thesis by simp
  qed
qed simp

function remove_all :: "jstr \<Rightarrow> jstr \<Rightarrow> jstr" where
  "remove_all clazz cur =
     (if js_includes cur (spaced clazz) then remove_all clazz (replace_first (spaced clazz) [32] cur) else cur)"
  by pat_completeness auto
termination
proof (relation "measure (\<lambda>(clazz, cur). length cur)")
  fix clazz cur :: jstr
  assume i: "js_includes cur (spaced clazz)"
  then have "length (spaced clazz) \<le> length cur" by (simp add: js_includes_iff sublist_length_le)
  with length_replace_first [OF i, of "[32]"]
  show "((clazz, replace_first (spaced clazz) [32] cur), (clazz, cur)) \<in> measure (\<lambda>(clazz, cur). length cur)"
    by (simp add: spaced_def)
qed simp

declare remove_all.simps [simp del]

fun remove_loop :: "jstr list \<Rightarrow> jstr \<Rightarrow> jstr" where
  "remove_loop [] cur = cur"
| "remove_loop (clazz # classes) cur = (if clazz = [] then cur else remove_loop classes (remove_all clazz cur))"

definition set_class :: "jstr \<Rightarrow> jstr option \<Rightarrow> jstr option" where
  "set_class finalValue a = (if getClass a \<noteq> finalValue then Some finalValue else a)"

definition addClass :: "class_value \<Rightarrow> jstr option \<Rightarrow> jstr option" where
  "addClass v a =
     (let classes = classesToArray v in
      if classes = [] then a
      else set_class (stripAndCollapse (add_loop classes (spaced (stripAndCollapse (getClass a))))) a)"

definition removeClass :: "class_value \<Rightarrow> jstr option \<Rightarrow> jstr option" where
  "removeClass v a =
     (let classes = classesToArray v in
      if classes = [] then a
      else set_class (stripAndCollapse (remove_loop classes (spaced (stripAndCollapse (getClass a))))) a)"

text \<open>\<open>hasClass\<close> on one element.\<close>

definition hasClass :: "jstr \<Rightarrow> jstr option \<Rightarrow> bool" where
  "hasClass selector a = js_includes (spaced (stripAndCollapse (getClass a))) (spaced selector)"

text \<open>\<open>toggleClass\<close>: to a given state, name by name, or the whole attribute, which is stored beside the element.\<close>

fun toggle_loop :: "jstr list \<Rightarrow> jstr option \<Rightarrow> jstr option" where
  "toggle_loop [] a = a"
| "toggle_loop (className # classNames) a =
     (if className = [] then a
      else toggle_loop classNames
        (if hasClass className a then removeClass (ClassText className) a else addClass (ClassText className) a))"

definition toggleClass :: "class_value \<Rightarrow> bool option \<Rightarrow> jstr option \<Rightarrow> jstr option" where
  "toggleClass v stateVal a =
     (if v = NoClass then a
      else (case stateVal of
              Some b \<Rightarrow> if b then addClass v a else removeClass v a
            | None \<Rightarrow> toggle_loop (classesToArray v) a))"

definition toggle_whole :: "bool \<Rightarrow> jstr option \<times> jstr \<Rightarrow> jstr option \<times> jstr" where
  "toggle_whole is_false e =
     (case e of
        (a, stored) \<Rightarrow>
          let className = getClass a; stored' = (if className \<noteq> [] then className else stored)
          in (Some (if className \<noteq> [] \<or> is_false then [] else stored'), stored'))"

subsection \<open>Texts of words\<close>

definition word :: "jstr \<Rightarrow> bool" where
  "word w = (w \<noteq> [] \<and> list_all (\<lambda>c. \<not> html_white c) w)"

lemma word_plain: "word w \<Longrightarrow> w \<noteq> [] \<and> 32 \<notin> set w"
  by (auto simp: word_def html_white_def list_all_iff)

lemma html_words_word: "w \<in> set (html_words s) \<Longrightarrow> word w"
proof -
  assume w: "w \<in> set (html_words s)"
  let ?t = "map (\<lambda>c. if html_white c then 32 else c) s"
  from w have s: "w \<in> set (js_split 32 ?t)" "w \<noteq> []" by (simp_all add: html_words_def)
  have "\<not> html_white c" if c: "c \<in> set w" for c
  proof -
    have "c \<noteq> 32" using js_split_parts [OF s(1)] c by blast
    moreover have "c \<in> set ?t" using js_split_sub [OF s(1)] c by blast
    ultimately show ?thesis by auto
  qed
  with s(2) show "word w" by (simp add: word_def list_all_iff)
qed

text \<open>The texts that the loops work on: some spaces, then each name with a space after it.\<close>

definition padded :: "nat \<Rightarrow> jstr list \<Rightarrow> jstr" where
  "padded k ws = replicate k 32 @ concat (map (\<lambda>w. w @ [32]) ws)"

lemma js_join_spaces: "ws \<noteq> [] \<Longrightarrow> js_join [32] ws @ [32] = concat (map (\<lambda>w. w @ [32]) ws)"
  by (induction "[32 :: nat]" ws rule: js_join.induct) simp_all

lemma spaced_join: "\<exists>k. spaced (js_join [32] ws) = padded (Suc k) ws"
proof (cases "ws = []")
  case True
  then have "spaced (js_join [32] ws) = padded (Suc 1) ws" by (simp add: spaced_def padded_def)
  then show ?thesis by blast
next
  case False
  then have "spaced (js_join [32] ws) = padded (Suc 0) ws" by (simp add: spaced_def padded_def js_join_spaces)
  then show ?thesis by blast
qed

lemma html_white_space [simp]: "html_white 32"
  by (simp add: html_white_def)

lemma html_words_Nil [simp]: "html_words [] = []"
  by (simp add: html_words_def)

lemma html_words_space [simp]: "html_words (32 # s) = html_words s"
  by (simp add: html_words_def)

lemma map_word: "word w \<Longrightarrow> map (\<lambda>c. if html_white c then 32 else c) w = w"
  by (rule map_idI) (auto simp: word_def list_all_iff)

lemma html_words_Cons [simp]: "word w \<Longrightarrow> html_words (w @ 32 # s) = w # html_words s"
  using word_plain [of w] by (simp add: html_words_def map_word js_split_append_sep)

lemma html_words_one [simp]: "word w \<Longrightarrow> html_words w = [w]"
  using word_plain [of w] by (simp add: html_words_def map_word js_split_no_sep)

lemma html_words_concat: "list_all word ws \<Longrightarrow> html_words (concat (map (\<lambda>w. w @ [32]) ws)) = ws"
  by (induction ws) simp_all

lemma html_words_padded [simp]: "list_all word ws \<Longrightarrow> html_words (padded k ws) = ws"
  by (induction k) (simp_all add: padded_def html_words_concat)

lemma html_words_join [simp]: "list_all word ws \<Longrightarrow> html_words (js_join [32] ws) = ws"
  by (induction "[32 :: nat]" ws rule: js_join.induct) simp_all

lemma words_of_text: "list_all word (html_words s)"
  using html_words_word by (auto simp: list_all_iff)

lemma words_collapsed [simp]: "html_words (stripAndCollapse s) = html_words s"
  by (simp add: stripAndCollapse_def words_of_text)

subsection \<open>Searching\<close>

lemma includes_skip: "32 \<notin> set w \<Longrightarrow> js_includes (w @ s) (spaced c) = js_includes s (spaced c)"
  by (induction w) (auto simp: spaced_def)

lemma starts_with_word:
  "word w \<Longrightarrow> word c \<Longrightarrow> js_starts_with (w @ 32 # s) (c @ [32]) \<longleftrightarrow> w = c"
proof -
  have "32 \<notin> set w \<Longrightarrow> 32 \<notin> set c \<Longrightarrow> js_starts_with (w @ 32 # s) (c @ [32]) \<longleftrightarrow> w = c"
  proof (induction w arbitrary: c)
    case Nil
    then show ?case by (cases c) auto
  next
    case (Cons x w)
    then show ?case by (cases c) auto
  qed
  then show "word w \<Longrightarrow> word c \<Longrightarrow> ?thesis" using word_plain by blast
qed

lemma starts_with_space: "word c \<Longrightarrow> \<not> js_starts_with (32 # s) (c @ t)"
  using word_plain [of c] by (cases c) auto

lemma includes_words:
  "word c \<Longrightarrow> list_all word ws \<Longrightarrow> js_includes (32 # concat (map (\<lambda>w. w @ [32]) ws)) (spaced c) \<longleftrightarrow> c \<in> set ws"
proof (induction ws)
  case Nil
  then show ?case using word_plain [of c] by (cases c) (auto simp: spaced_def)
next
  case (Cons w ws)
  let ?r = "concat (map (\<lambda>w. w @ [32]) ws)"
  have "js_includes (32 # w @ 32 # ?r) (spaced c) \<longleftrightarrow> w = c \<or> js_includes (w @ 32 # ?r) (spaced c)"
    using starts_with_word [of w c ?r] Cons.prems by (simp add: spaced_def)
  also have "\<dots> \<longleftrightarrow> w = c \<or> js_includes (32 # ?r) (spaced c)"
    using includes_skip [of w "32 # ?r" c] word_plain [of w] Cons.prems by simp
  finally show ?case using Cons by auto
qed

lemma includes_padded:
  assumes "word c" "list_all word ws"
  shows "js_includes (padded (Suc k) ws) (spaced c) \<longleftrightarrow> c \<in> set ws"
proof (induction k)
  case 0
  show ?case using includes_words [OF assms] by (simp add: padded_def)
next
  case (Suc k)
  have "js_includes (32 # padded (Suc k) ws) (spaced c) = js_includes (padded (Suc k) ws) (spaced c)"
    using starts_with_space [OF assms(1), of "replicate k 32 @ concat (map (\<lambda>w. w @ [32]) ws)" "[32]"]
    by (simp add: padded_def spaced_def)
  with Suc show ?case by (simp add: padded_def)
qed


subsection \<open>The loops on names\<close>

lemma add_padded:
  "list_all word cs \<Longrightarrow> list_all word ws \<Longrightarrow>
    add_loop cs (padded (Suc k) ws) = padded (Suc k) (foldl (\<lambda>ws c. if c \<in> set ws then ws else ws @ [c]) ws cs)"
proof (induction cs arbitrary: ws)
  case (Cons c cs)
  then have c: "word c" by simp
  let ?ws = "if c \<in> set ws then ws else ws @ [c]"
  have "(if js_includes (padded (Suc k) ws) (spaced c) then padded (Suc k) ws else padded (Suc k) ws @ c @ [32]) =
      padded (Suc k) ?ws"
    unfolding includes_padded [OF c Cons.prems(2)] by (simp add: padded_def)
  moreover have "list_all word ?ws" using Cons.prems by simp
  ultimately show ?case using Cons.IH [of ?ws] Cons.prems word_plain [OF c] by simp
qed simp

lemma replace_skip: "32 \<notin> set w \<Longrightarrow> replace_first (spaced c) r (w @ s) = w @ replace_first (spaced c) r s"
  by (induction w) (auto simp: spaced_def)

lemma replace_words:
  "word c \<Longrightarrow> list_all word ws \<Longrightarrow> c \<in> set ws \<Longrightarrow>
    replace_first (spaced c) [32] (32 # concat (map (\<lambda>w. w @ [32]) ws)) = 32 # concat (map (\<lambda>w. w @ [32]) (remove1 c ws))"
proof (induction ws)
  case (Cons w ws)
  let ?r = "concat (map (\<lambda>w. w @ [32]) ws)"
  have s: "js_starts_with (32 # w @ 32 # ?r) (spaced c) \<longleftrightarrow> w = c"
    using starts_with_word [of w c ?r] Cons.prems by (simp add: spaced_def)
  show ?case
  proof (cases "w = c")
    case True
    with s have "replace_first (spaced c) [32] (32 # w @ 32 # ?r) = [32] @ drop (length (spaced c)) (32 # w @ 32 # ?r)"
      by simp
    with True show ?thesis by (simp add: spaced_def)
  next
    case False
    with s have "replace_first (spaced c) [32] (32 # w @ 32 # ?r) = 32 # replace_first (spaced c) [32] (w @ 32 # ?r)"
      by simp
    also have "\<dots> = 32 # w @ replace_first (spaced c) [32] (32 # ?r)"
      using replace_skip [of w c "[32]" "32 # ?r"] word_plain [of w] Cons.prems by simp
    finally show ?thesis using Cons False by simp
  qed
qed simp

lemma replace_padded:
  assumes "word c" "list_all word ws" "c \<in> set ws"
  shows "replace_first (spaced c) [32] (padded (Suc k) ws) = padded (Suc k) (remove1 c ws)"
proof (induction k)
  case 0
  show ?case using replace_words [OF assms] by (simp add: padded_def)
next
  case (Suc k)
  have "replace_first (spaced c) [32] (32 # padded (Suc k) ws) = 32 # replace_first (spaced c) [32] (padded (Suc k) ws)"
    using starts_with_space [OF assms(1), of "replicate k 32 @ concat (map (\<lambda>w. w @ [32]) ws)" "[32]"]
    by (simp add: padded_def spaced_def)
  with Suc show ?case by (simp add: padded_def)
qed

lemma remove_padded:
  "word c \<Longrightarrow> list_all word ws \<Longrightarrow> remove_all c (padded (Suc k) ws) = padded (Suc k) (filter (\<lambda>w. w \<noteq> c) ws)"
proof (induction "length ws" arbitrary: ws rule: less_induct)
  case less
  note c = includes_padded [OF less.prems, of k]
  show ?case
  proof (cases "c \<in> set ws")
    case True
    have "length (remove1 c ws) < length ws" using True length_pos_if_in_set [OF True] by (simp add: length_remove1)
    moreover have "list_all word (remove1 c ws)" using less.prems(2) by (auto simp: list_all_iff dest: notin_set_remove1)
    ultimately have "remove_all c (padded (Suc k) (remove1 c ws)) = padded (Suc k) (filter (\<lambda>w. w \<noteq> c) (remove1 c ws))"
      using less.hyps less.prems(1) by blast
    moreover have "filter (\<lambda>w. w \<noteq> c) (remove1 c ws) = filter (\<lambda>w. w \<noteq> c) ws" by (induction ws) auto
    ultimately show ?thesis
      using True by (simp add: remove_all.simps [of c "padded (Suc k) ws"] c replace_padded [OF less.prems True])
  next
    case False
    then have "filter (\<lambda>w. w \<noteq> c) ws = ws" by (auto intro: filter_True)
    with False show ?thesis by (simp add: remove_all.simps [of c "padded (Suc k) ws"] c)
  qed
qed

lemma remove_loop_padded:
  "list_all word cs \<Longrightarrow> list_all word ws \<Longrightarrow>
    remove_loop cs (padded (Suc k) ws) = padded (Suc k) (filter (\<lambda>w. w \<notin> set cs) ws)"
proof (induction cs arbitrary: ws)
  case (Cons c cs)
  have "list_all word (filter (\<lambda>w. w \<noteq> c) ws)" using Cons.prems(2) by (auto simp: list_all_iff)
  moreover have "filter (\<lambda>w. w \<notin> set cs) (filter (\<lambda>w. w \<noteq> c) ws) = filter (\<lambda>w. w \<notin> set (c # cs)) ws"
    by (auto intro: filter_cong)
  ultimately show ?case
    using Cons.IH [of "filter (\<lambda>w. w \<noteq> c) ws"] Cons.prems word_plain [of c] by (simp add: remove_padded)
qed simp


subsection \<open>Classes as lists of names\<close>

definition class_list :: "jstr option \<Rightarrow> jstr list" where
  "class_list a = html_words (getClass a)"

definition add_name :: "jstr list \<Rightarrow> jstr \<Rightarrow> jstr list" where
  "add_name ws c = (if c \<in> set ws then ws else ws @ [c])"

definition toggle_name :: "jstr list \<Rightarrow> jstr \<Rightarrow> jstr list" where
  "toggle_name ws c = (if c \<in> set ws then filter (\<lambda>w. w \<noteq> c) ws else ws @ [c])"

lemma class_list_words [simp]: "list_all word (class_list a)"
  by (simp add: class_list_def words_of_text)

lemma getClass_set [simp]: "getClass (set_class s a) = s"
  by (simp add: set_class_def getClass_def)

lemma spaced_class: "\<exists>k. spaced (stripAndCollapse (getClass a)) = padded (Suc k) (class_list a)"
  unfolding stripAndCollapse_def class_list_def by (rule spaced_join)

lemma list_all_add: "list_all word cs \<Longrightarrow> list_all word ws \<Longrightarrow> list_all word (foldl add_name ws cs)"
  by (induction cs arbitrary: ws) (simp_all add: add_name_def)

lemma class_list_add: "class_list (addClass (ClassText v) a) = foldl add_name (class_list a) (html_words v)"
proof -
  obtain k where k: "spaced (stripAndCollapse (getClass a)) = padded (Suc k) (class_list a)" using spaced_class by blast
  have "html_words (add_loop (html_words v) (padded (Suc k) (class_list a))) = foldl add_name (class_list a) (html_words v)"
    using list_all_add [OF words_of_text class_list_words]
    by (simp add: add_padded words_of_text add_name_def [abs_def])
  then show ?thesis by (simp add: addClass_def classesToArray_def k class_list_def Let_def)
qed

lemma class_list_remove: "class_list (removeClass (ClassText v) a) = filter (\<lambda>w. w \<notin> set (html_words v)) (class_list a)"
proof -
  obtain k where k: "spaced (stripAndCollapse (getClass a)) = padded (Suc k) (class_list a)" using spaced_class by blast
  have "list_all word (filter (\<lambda>w. w \<notin> set (html_words v)) (class_list a))"
    using class_list_words [of a] by (auto simp: list_all_iff)
  then have "html_words (remove_loop (html_words v) (padded (Suc k) (class_list a))) =
      filter (\<lambda>w. w \<notin> set (html_words v)) (class_list a)"
    by (simp add: remove_loop_padded words_of_text)
  then show ?thesis by (simp add: removeClass_def classesToArray_def k class_list_def Let_def)
qed

lemma hasClass_word: "word c \<Longrightarrow> hasClass c a \<longleftrightarrow> c \<in> set (class_list a)"
  using spaced_class [of a] by (auto simp: hasClass_def includes_padded)

lemma class_list_toggle: "class_list (toggleClass (ClassText v) None a) = foldl toggle_name (class_list a) (html_words v)"
proof -
  have "list_all word cs \<Longrightarrow> class_list (toggle_loop cs a) = foldl toggle_name (class_list a) cs" for cs
  proof (induction cs arbitrary: a)
    case (Cons c cs)
    then have c: "word c" by simp
    have "class_list (if hasClass c a then removeClass (ClassText c) a else addClass (ClassText c) a) = toggle_name (class_list a) c"
      using c by (simp add: hasClass_word class_list_add class_list_remove toggle_name_def add_name_def)
    with Cons word_plain [OF c] show ?case by simp
  qed simp
  from this [OF words_of_text] show ?thesis by (simp add: toggleClass_def classesToArray_def)
qed

text \<open>
  C37: The attribute \<open>class\<close> under jQuery is a list of names without regard to the white space in it: \<open>addClass\<close>
  appends the names that are not there, \<open>removeClass\<close> takes every one of them away, \<open>toggleClass\<close> does one or the
  other name by name, and \<open>hasClass\<close> asks whether a name is in the list.
\<close>

theorem class_names_refined:
  assumes "word c"
  shows "class_list (addClass (ClassText v) a) = foldl add_name (class_list a) (html_words v)
    \<and> class_list (removeClass (ClassText v) a) = filter (\<lambda>w. w \<notin> set (html_words v)) (class_list a)
    \<and> class_list (toggleClass (ClassText v) None a) = foldl toggle_name (class_list a) (html_words v)
    \<and> (hasClass c a \<longleftrightarrow> c \<in> set (class_list a))"
  using hasClass_word [OF assms] by (simp add: class_list_add class_list_remove class_list_toggle)

theorem class_names_refined_witness:
  "class_list (addClass (ClassText (js ''b a'')) (Some (js ''  a ab ''))) = foldl add_name (class_list (Some (js ''  a ab ''))) (html_words (js ''b a''))
    \<and> class_list (removeClass (ClassText (js ''b a'')) (Some (js ''  a ab ''))) =
        filter (\<lambda>w. w \<notin> set (html_words (js ''b a''))) (class_list (Some (js ''  a ab '')))
    \<and> class_list (toggleClass (ClassText (js ''b a'')) None (Some (js ''  a ab ''))) =
        foldl toggle_name (class_list (Some (js ''  a ab ''))) (html_words (js ''b a''))
    \<and> (hasClass (js ''b'') (Some (js ''  a ab '')) \<longleftrightarrow> js ''b'' \<in> set (class_list (Some (js ''  a ab ''))))"
  by (rule class_names_refined) code_simp

text \<open>
  \<open>highlight\<close> and \<open>unhighlight\<close> of the validator are \<open>addClass\<close> of one class and \<open>removeClass\<close> of another: the two
  classes are then as the model of the validator has them, and no other name changes.
\<close>

theorem swap_classes:
  assumes "word on" "word off" "on \<noteq> off" "word c"
  shows "hasClass c (removeClass (ClassText off) (addClass (ClassText on) a)) \<longleftrightarrow> c = on \<or> c \<noteq> off \<and> hasClass c a"
  using assms by (auto simp: hasClass_word class_list_add class_list_remove add_name_def)

text \<open>Toggling the whole attribute twice brings it back.\<close>

theorem toggle_whole_twice:
  assumes "s \<noteq> []"
  shows "toggle_whole False (toggle_whole False (Some s, stored)) = (Some s, s)"
  using assms by (simp add: toggle_whole_def getClass_def Let_def)


end
