(* ===== verification/JqExtend.thy ===== *)
theory JqExtend
  imports JsObject
begin

text \<open>
  \<open>$.extend\<close> (\<open>jquery.js\<close>), shallow and deep, with which the validator merges its defaults and the options of a form.
  Data are trees: objects with their fields in order, arrays, and anything else as an atom (\<open>null\<close>, numbers, texts,
  functions, objects that are not plain). A hole of an array is \<open>undefined\<close>.
\<close>

datatype 'a data = Undef | Atom 'a | Elements "'a data list" | Object "(jstr \<times> 'a data) list"

fun is_undef :: "'a data \<Rightarrow> bool" where
  "is_undef Undef = True"
| "is_undef _ = False"

definition field_of :: "jstr \<Rightarrow> 'a data obj \<Rightarrow> 'a data" where
  "field_of k fs = (case map_of fs k of None \<Rightarrow> Undef | Some v \<Rightarrow> v)"

definition proto :: jstr where
  "proto = js ''__proto__''"

subsection \<open>Merging\<close>

text \<open>
  \<open>merged src copy\<close> is what a deep extension puts in the place of \<open>src\<close>: an object or array goes into a target of
  its own kind, or else into an empty one; everything else replaces. \<open>for ... in\<close> over an array visits its elements by
  their index.
\<close>

fun extend_fields :: "bool \<Rightarrow> 'a data obj \<Rightarrow> 'a data obj \<Rightarrow> 'a data obj"
  and extend_items :: "'a data list \<Rightarrow> 'a data list \<Rightarrow> 'a data list"
  and merged :: "'a data \<Rightarrow> 'a data \<Rightarrow> 'a data" where
  "extend_fields deep target [] = target"
| "extend_fields deep target ((name, copy) # options) =
     (if name = proto \<or> is_undef copy then extend_fields deep target options
      else extend_fields deep (put name (if deep then merged (field_of name target) copy else copy) target) options)"
| "extend_items target [] = target"
| "extend_items [] (copy # options) =
     (let rest = extend_items [] options in
      if is_undef copy then (if rest = [] then [] else Undef # rest) else merged Undef copy # rest)"
| "extend_items (src # target) (copy # options) =
     (if is_undef copy then src else merged src copy) # extend_items target options"
| "merged src (Object fs) = Object (extend_fields True (case src of Object gs \<Rightarrow> gs | _ \<Rightarrow> []) fs)"
| "merged src (Elements vs) = Elements (extend_items (case src of Elements ts \<Rightarrow> ts | _ \<Rightarrow> []) vs)"
| "merged src Undef = Undef"
| "merged src (Atom a) = Atom a"

text \<open>\<open>$.extend( deep, target, ... )\<close> with objects; one that is \<open>null\<close> or \<open>undefined\<close> is passed over.\<close>

definition extend_all :: "bool \<Rightarrow> 'a data obj \<Rightarrow> 'a data obj option list \<Rightarrow> 'a data obj" where
  "extend_all deep target options =
     foldl (\<lambda>t opts. case opts of None \<Rightarrow> t | Some fs \<Rightarrow> extend_fields deep t fs) target options"

text \<open>\<open>this.settings = $.extend( true, {}, $.validator.defaults, options )\<close>\<close>

definition validator_settings :: "'a data obj \<Rightarrow> 'a data obj option \<Rightarrow> 'a data obj" where
  "validator_settings defaults options = extend_all True [] [Some defaults, options]"

subsection \<open>Reading along a path\<close>

fun at_path :: "jstr list \<Rightarrow> 'a data \<Rightarrow> 'a data" where
  "at_path [] v = v"
| "at_path (k # ks) v = (case v of Object fs \<Rightarrow> at_path ks (field_of k fs) | _ \<Rightarrow> Undef)"

text \<open>Nothing stands at a path, and nothing but an object on the way to it.\<close>

fun missing :: "jstr list \<Rightarrow> 'a data \<Rightarrow> bool" where
  "missing [] v = is_undef v"
| "missing (k # ks) v = (case v of Undef \<Rightarrow> True | Object fs \<Rightarrow> missing ks (field_of k fs) | _ \<Rightarrow> False)"

text \<open>The names of an object are distinct, at every depth.\<close>

fun well_formed :: "'a data \<Rightarrow> bool" where
  "well_formed (Object fs) = (distinct (keys fs) \<and> (\<forall>x\<in>set fs. well_formed (snd x)))"
| "well_formed (Elements vs) = (\<forall>v\<in>set vs. well_formed v)"
| "well_formed _ = True"

definition extended :: "'a data \<Rightarrow> 'a data \<Rightarrow> 'a data" where
  "extended src copy = (if is_undef copy then src else merged src copy)"

lemma is_undef_iff: "is_undef v \<longleftrightarrow> v = Undef"
  by (cases v) simp_all

lemma field_put: "field_of k (put name v fs) = (if k = name then v else field_of k fs)"
  by (simp add: field_of_def map_of_put)

lemma field_Cons: "field_of k ((name, v) # fs) = (if k = name then v else field_of k fs)"
  by (simp add: field_of_def)

lemma field_absent: "k \<notin> set (keys fs) \<Longrightarrow> field_of k fs = Undef"
  by (induction fs) (auto simp: field_of_def)

lemma field_extend:
  "distinct (keys ws) \<Longrightarrow> k \<noteq> proto \<Longrightarrow> field_of k (extend_fields True fs ws) = extended (field_of k fs) (field_of k ws)"
proof (induction ws arbitrary: fs)
  case Nil
  then show ?case by (simp add: extended_def field_of_def)
next
  case (Cons w ws)
  obtain name v where w: "w = (name, v)" by (cases w)
  show ?case
  proof (cases "k = name")
    case True
    with Cons.prems w have "field_of k ws = Undef" by (simp add: field_absent)
    with True Cons w show ?thesis by (auto simp: extended_def field_put field_Cons)
  next
    case False
    with Cons w show ?thesis by (auto simp: extended_def field_put field_Cons)
  qed
qed

lemma well_formed_field: "well_formed (Object fs) \<Longrightarrow> well_formed (field_of k fs)"
  by (auto simp: field_of_def split: option.split dest!: map_of_SomeD)

lemma at_path_Undef [simp]: "at_path ks Undef = Undef"
  by (cases ks) simp_all

lemma extended_Undef [simp]: "extended v Undef = v"
  by (simp add: extended_def)

lemma extended_Object: "extended v (Object ws) = Object (extend_fields True (case v of Object gs \<Rightarrow> gs | _ \<Rightarrow> []) ws)"
  by (simp add: extended_def)

lemma at_extended_Object:
  assumes "well_formed (Object ws)" "k \<noteq> proto"
  shows "at_path (k # ks) (extended v (Object ws)) =
    at_path ks (extended (field_of k (case v of Object gs \<Rightarrow> gs | _ \<Rightarrow> [])) (field_of k ws))"
  using assms field_extend [of ws k] by (simp add: extended_Object)

lemma at_extended:
  "well_formed w \<Longrightarrow> proto \<notin> set ks \<Longrightarrow> at_path ks w = Atom a \<Longrightarrow> at_path ks (extended v w) = Atom a"
proof (induction ks arbitrary: v w)
  case Nil
  then show ?case by (simp add: extended_def)
next
  case (Cons k ks)
  then obtain ws where w: "w = Object ws" by (auto split: data.splits)
  from Cons.prems w have "well_formed (field_of k ws)" "at_path ks (field_of k ws) = Atom a" "proto \<notin> set ks" "k \<noteq> proto"
    by (auto intro: well_formed_field simp del: well_formed.simps)
  with Cons.IH at_extended_Object Cons.prems(1) w show ?case by metis
qed

lemma at_missing:
  "well_formed w \<Longrightarrow> proto \<notin> set ks \<Longrightarrow> missing ks w \<Longrightarrow> at_path ks (extended v w) = at_path ks v"
proof (induction ks arbitrary: v w)
  case Nil
  then show ?case by (simp add: extended_def)
next
  case (Cons k ks)
  show ?case
  proof (cases w)
    case (Object ws)
    with Cons.prems have f: "well_formed (field_of k ws)" "missing ks (field_of k ws)" "proto \<notin> set ks" "k \<noteq> proto"
      by (auto intro: well_formed_field simp del: well_formed.simps)
    have "at_path (k # ks) (extended v w) = at_path ks (field_of k (case v of Object gs \<Rightarrow> gs | _ \<Rightarrow> []))"
      using at_extended_Object [of ws k ks v] Cons.IH [OF f(1,3,2)] Cons.prems(1) Object f(4) by simp
    then show ?thesis by (auto simp: field_of_def split: data.split)
  qed (use Cons.prems in simp_all)
qed

lemma validator_settings_extended: "Object (validator_settings defaults (Some options)) =
    extended (extended (Object []) (Object defaults)) (Object options)"
  by (simp add: validator_settings_def extend_all_def extended_Object)

text \<open>
  The settings of a validator are, at every path, what the options of the form say, and where these say nothing,
  what the defaults say.
\<close>

theorem options_override_defaults:
  assumes "well_formed (Object defaults)" "well_formed (Object options)" "proto \<notin> set ks"
    "at_path ks (Object options) = Atom a \<or> missing ks (Object options) \<and> at_path ks (Object defaults) = Atom a"
  shows "at_path ks (Object (validator_settings defaults (Some options))) = Atom a"
  using assms at_extended at_missing unfolding validator_settings_extended by metis

theorem options_override_defaults_witness:
  "at_path [js ''messages'', js ''b''] (Object (validator_settings
      [(js ''messages'', Object [(js ''a'', Atom (1 :: nat)), (js ''b'', Atom 2)])]
      (Some [(js ''messages'', Object [(js ''a'', Atom 3)])]))) = Atom 2"
  by (rule options_override_defaults) code_simp+

subsection \<open>Pollution\<close>

text \<open>No name \<open>__proto__\<close> at any depth.\<close>

fun unpolluted :: "'a data \<Rightarrow> bool" where
  "unpolluted (Object fs) = (\<forall>x\<in>set fs. fst x \<noteq> proto \<and> unpolluted (snd x))"
| "unpolluted (Elements vs) = (\<forall>v\<in>set vs. unpolluted v)"
| "unpolluted _ = True"

lemma unpolluted_field: "unpolluted (Object fs) \<Longrightarrow> unpolluted (field_of k fs)"
  by (auto simp: field_of_def split: option.split dest!: map_of_SomeD)

lemma unpolluted_put: "unpolluted (Object fs) \<Longrightarrow> k \<noteq> proto \<Longrightarrow> unpolluted v \<Longrightarrow> unpolluted (Object (put k v fs))"
  by (induction k v fs rule: put.induct) auto

lemma unpolluted_merge:
  fixes target options :: "'a data obj" and targets sources :: "'a data list" and src copy :: "'a data"
  shows "deep \<Longrightarrow> unpolluted (Object target) \<Longrightarrow> unpolluted (Object (extend_fields deep target options))"
  "unpolluted (Elements targets) \<Longrightarrow> unpolluted (Elements (extend_items targets sources))"
  "unpolluted src \<Longrightarrow> unpolluted (merged src copy)"
proof (induction deep target options and targets sources and src copy rule: extend_fields_extend_items_merged.induct)
  case (2 deep target name copy options)
  show ?case
  proof (cases "name = proto \<or> is_undef copy")
    case True
    with 2 show ?thesis by (auto simp del: unpolluted.simps)
  next
    case False
    with 2 have "unpolluted (Object (put name (merged (field_of name target) copy) target))"
      by (intro unpolluted_put 2 unpolluted_field) (simp_all del: unpolluted.simps)
    with 2 False show ?thesis by (simp del: unpolluted.simps)
  qed
next
  case (6 src fs)
  then show ?case by (cases src) (simp_all)
next
  case (7 src vs)
  then show ?case by (cases src) (simp_all)
qed (auto simp: Let_def)

text \<open>
  Extending deeply never brings in a name \<open>__proto__\<close>, at whatever depth the options have one: what was
  free of it stays so.
\<close>

theorem extend_keeps_prototypes:
  assumes "unpolluted (Object target)"
  shows "unpolluted (Object (extend_all True target options))"
proof -
  have "unpolluted (Object t) \<Longrightarrow> unpolluted (Object (foldl (\<lambda>t opts. case opts of None \<Rightarrow> t | Some fs \<Rightarrow> extend_fields True t fs) t options))" for t
    by (induction options arbitrary: t) (simp_all add: unpolluted_merge(1) del: unpolluted.simps split: option.split)
  with assms show ?thesis by (simp add: extend_all_def del: unpolluted.simps)
qed

subsection \<open>Shallow extension\<close>

text \<open>\<open>extend_obj\<close>, which the models of the validator use, is the shallow extension by what is there.\<close>

lemma extend_shallow:
  "extend_fields False target options = extend_obj target (filter (\<lambda>(k, v). k \<noteq> proto \<and> \<not> is_undef v) options)"
  by (induction options arbitrary: target) auto


end
