(* ===== verification/JqCallbacks.thy ===== *)
theory JqCallbacks
  imports JqClasses
begin

text \<open>
  \<open>$.Callbacks\<close> (\<open>jquery.js\<close>), the lists of callbacks behind every deferred answer of a request. What a callback
  does is an argument: the operations that it applies to its own list while it runs, and how it ends. While a list
  fires, operations on it only note what is to be past, so a callback never fires the list inside itself.
\<close>

subsection \<open>The state of a list\<close>

record settings =
  set_once :: bool
  set_memory :: bool
  set_unique :: bool
  set_stopOnFalse :: bool

text \<open>\<open>createOptions\<close>: each word of the text switches a setting on.\<close>

definition createOptions :: "jstr \<Rightarrow> settings" where
  "createOptions s =
     (let flags = html_words s in
      \<lparr>set_once = js ''once'' \<in> set flags, set_memory = js ''memory'' \<in> set flags, set_unique = js ''unique'' \<in> set flags,
       set_stopOnFalse = js ''stopOnFalse'' \<in> set flags\<rparr>)"

text \<open>
  \<open>list = None\<close> is the empty text that a spent or disabled list leaves; \<open>memory = None\<close> is a memory that counts as
  false. \<open>called\<close> is what has been called so far, with which arguments. A value stands for the context and the arguments of a call.
\<close>

record ('f, 'a) callbacks =
  listed :: "'f list option"
  queue :: "'a list"
  firingIndex :: int
  memory :: "'a option"
  fired :: bool
  firing :: bool
  locked :: bool
  called :: "('f \<times> 'a) list"

text \<open>\<open>Add\<close> has the functions that its arguments hold, arrays of them looked through.\<close>

datatype ('f, 'a) operation =
  Add "'f list" | Remove "'f list" | Empty | Disable | Lock | FireWith 'a

datatype ending = Returns | ReturnsFalse | Throws

type_synonym ('f, 'a) behaviour = "'f \<Rightarrow> 'a \<Rightarrow> ('f, 'a) operation list \<times> ending"

definition Callbacks :: "('f, 'a) callbacks" where
  "Callbacks = \<lparr>listed = Some [], queue = [], firingIndex = -1, memory = None, fired = False, firing = False,
     locked = False, called = []\<rparr>"

definition items :: "('f, 'a) callbacks \<Rightarrow> 'f list" where
  "items cb = (case listed cb of None \<Rightarrow> [] | Some fs \<Rightarrow> fs)"

text \<open>\<open>has\<close> with a callback and without.\<close>

definition has_fn :: "'f \<Rightarrow> ('f, 'a) callbacks \<Rightarrow> bool" where
  "has_fn f cb = (f \<in> set (items cb))"

definition has_any :: "('f, 'a) callbacks \<Rightarrow> bool" where
  "has_any cb = (items cb \<noteq> [])"

definition disabled :: "('f, 'a) callbacks \<Rightarrow> bool" where
  "disabled cb = (listed cb = None)"

subsection \<open>Operations while the list fires\<close>

fun push_all :: "bool \<Rightarrow> 'f list \<Rightarrow> 'f list \<Rightarrow> 'f list" where
  "push_all unique fs [] = fs"
| "push_all unique fs (g # gs) = push_all unique (if \<not> unique \<or> g \<notin> set fs then fs @ [g] else fs) gs"

text \<open>
  \<open>remove\<close> of one callback: from \<open>index\<close> on, every occurrence goes, and the firing index moves with those that are
  taken away before or at it. \<open>keep\<close> is what the search has passed, reversed.
\<close>

fun remove_from :: "'f \<Rightarrow> 'f list \<Rightarrow> 'f list \<Rightarrow> int \<Rightarrow> 'f list \<times> int" where
  "remove_from f keep [] i = (rev keep, i)"
| "remove_from f keep (g # gs) i =
     (if g = f then remove_from f keep gs (if int (length keep) \<le> i then i - 1 else i)
      else remove_from f (g # keep) gs i)"

definition remove_one :: "('f, 'a) callbacks \<Rightarrow> 'f \<Rightarrow> ('f, 'a) callbacks" where
  "remove_one cb f =
     (case listed cb of
        None \<Rightarrow> cb
      | Some fs \<Rightarrow> (case remove_from f [] fs (firingIndex cb) of (fs', i) \<Rightarrow> cb\<lparr>listed := Some fs', firingIndex := i\<rparr>))"

definition add_items :: "settings \<Rightarrow> 'f list \<Rightarrow> ('f, 'a) callbacks \<Rightarrow> ('f, 'a) callbacks" where
  "add_items s gs cb = cb\<lparr>listed := map_option (\<lambda>fs. push_all (set_unique s) fs gs) (listed cb)\<rparr>"

definition disable :: "('f, 'a) callbacks \<Rightarrow> ('f, 'a) callbacks" where
  "disable cb = cb\<lparr>locked := True, queue := [], listed := None, memory := None\<rparr>"

definition lock :: "('f, 'a) callbacks \<Rightarrow> ('f, 'a) callbacks" where
  "lock cb =
     (let cb1 = cb\<lparr>locked := True, queue := []\<rparr> in
      if memory cb1 = None \<and> \<not> firing cb1 then cb1\<lparr>listed := None, memory := None\<rparr> else cb1)"

text \<open>What an operation does short of firing.\<close>

definition note_op :: "settings \<Rightarrow> ('f, 'a) operation \<Rightarrow> ('f, 'a) callbacks \<Rightarrow> ('f, 'a) callbacks" where
  "note_op s op cb =
     (case op of
        Add gs \<Rightarrow>
          if listed cb = None then cb
          else (let cb1 = (case memory cb of
                    Some m \<Rightarrow> if firing cb then cb else cb\<lparr>firingIndex := int (length (items cb)) - 1, queue := queue cb @ [m]\<rparr>
                  | None \<Rightarrow> cb)
                in add_items s gs cb1)
      | Remove gs \<Rightarrow> foldl remove_one cb gs
      | Empty \<Rightarrow> if listed cb = None then cb else cb\<lparr>listed := Some []\<rparr>
      | Disable \<Rightarrow> disable cb
      | Lock \<Rightarrow> lock cb
      | FireWith a \<Rightarrow> if locked cb then cb else cb\<lparr>queue := queue cb @ [a]\<rparr>)"

subsection \<open>Firing\<close>

text \<open>The inner loop calls the callback after the firing index; a callback that throws leaves the list firing.\<close>

definition call_next :: "settings \<Rightarrow> ('f, 'a) behaviour \<Rightarrow> 'a \<Rightarrow> ('f, 'a) callbacks \<Rightarrow> ('f, 'a) callbacks \<times> ending" where
  "call_next s does m cb =
     (let i = firingIndex cb + 1; f = items cb ! nat i; cb1 = cb\<lparr>firingIndex := i, called := called cb @ [(f, m)]\<rparr>
      in case does f m of
           (ops, e) \<Rightarrow>
             (let cb2 = foldl (\<lambda>cb op. note_op s op cb) cb1 ops
              in (if e = ReturnsFalse \<and> set_stopOnFalse s
                  then cb2\<lparr>firingIndex := int (length (items cb2)), memory := None\<rparr> else cb2, e)))"

text \<open>What follows the loops.\<close>

definition settle :: "settings \<Rightarrow> ('f, 'a) callbacks \<Rightarrow> ('f, 'a) callbacks" where
  "settle s cb =
     (let cb1 = (if set_memory s then cb else cb\<lparr>memory := None\<rparr>);
          cb2 = cb1\<lparr>firing := False\<rparr>
      in if locked cb2 then cb2\<lparr>listed := (if memory cb2 = None then None else Some [])\<rparr> else cb2)"

text \<open>
  The loops of \<open>fire\<close>; \<open>m\<close> is the value being delivered, which the memory holds until a callback disables the list.
  A list whose callbacks keep firing it never comes to rest: then the value is \<open>None\<close>.
\<close>

partial_function (option) fire_loop ::
    "settings \<Rightarrow> ('f, 'a) behaviour \<Rightarrow> 'a \<Rightarrow> ('f, 'a) callbacks \<Rightarrow> ('f, 'a) callbacks option" where
  "fire_loop s does m cb =
     (if firingIndex cb + 1 < int (length (items cb))
      then (case call_next s does m cb of
              (cb', e) \<Rightarrow> if e = Throws then Some cb' else fire_loop s does m cb')
      else
        (let cb' = cb\<lparr>firingIndex := -1\<rparr> in
         case queue cb' of
           [] \<Rightarrow> Some (settle s cb')
         | a # as \<Rightarrow> fire_loop s does a (cb'\<lparr>queue := as, memory := Some a\<rparr>)))"

text \<open>How \<open>fire\<close> begins: with the value that its loops deliver first, if there is one.\<close>

definition start_fire :: "settings \<Rightarrow> ('f, 'a) callbacks \<Rightarrow> ('f, 'a) callbacks \<times> 'a option" where
  "start_fire s cb =
     (let cb1 = cb\<lparr>locked := locked cb \<or> set_once s, fired := True, firing := True\<rparr> in
      case queue cb1 of
        [] \<Rightarrow> (settle s cb1, None)
      | a # as \<Rightarrow> (cb1\<lparr>queue := as, memory := Some a\<rparr>, Some a))"

definition fire_queue :: "settings \<Rightarrow> ('f, 'a) behaviour \<Rightarrow> ('f, 'a) callbacks \<Rightarrow> ('f, 'a) callbacks option" where
  "fire_queue s does cb =
     (case start_fire s cb of
        (cb', None) \<Rightarrow> Some cb'
      | (cb', Some a) \<Rightarrow> fire_loop s does a cb')"

text \<open>An operation from outside: \<open>add\<close> and \<open>fireWith\<close> fire when they may.\<close>

definition would_fire :: "('f, 'a) operation \<Rightarrow> ('f, 'a) callbacks \<Rightarrow> bool" where
  "would_fire op cb =
     (case op of
        Add _ \<Rightarrow> listed cb \<noteq> None \<and> memory cb \<noteq> None \<and> \<not> firing cb
      | FireWith _ \<Rightarrow> \<not> locked cb \<and> \<not> firing cb
      | _ \<Rightarrow> False)"

definition perform :: "settings \<Rightarrow> ('f, 'a) behaviour \<Rightarrow> ('f, 'a) operation \<Rightarrow> ('f, 'a) callbacks \<Rightarrow> ('f, 'a) callbacks option" where
  "perform s does op cb =
     (let cb1 = note_op s op cb in if would_fire op cb then fire_queue s does cb1 else Some cb1)"

fun performs :: "settings \<Rightarrow> ('f, 'a) behaviour \<Rightarrow> ('f, 'a) operation list \<Rightarrow> ('f, 'a) callbacks \<Rightarrow> ('f, 'a) callbacks option" where
  "performs s does [] cb = Some cb"
| "performs s does (op # ops) cb = Option.bind (perform s does op cb) (performs s does ops)"

lemmas firing_defs = perform_def would_fire_def fire_queue_def start_fire_def

text \<open>\<open>$.Callbacks( "once memory" )\<close>, the lists of a deferred\<close>

definition once_memory :: settings where
  "once_memory = createOptions (js ''once memory'')"

lemma once_memory_simps [simp]: "set_once once_memory" "set_memory once_memory" "\<not> set_unique once_memory" "\<not> set_stopOnFalse once_memory"
  by code_simp+

subsection \<open>Callbacks that leave the list alone\<close>

definition inert :: "('f, 'a) behaviour \<Rightarrow> bool" where
  "inert does = (\<forall>f a. fst (does f a) = [] \<and> snd (does f a) \<noteq> Throws)"

text \<open>The callbacks up to the first that stops the list.\<close>

fun until :: "('f \<Rightarrow> bool) \<Rightarrow> 'f list \<Rightarrow> 'f list" where
  "until stops [] = []"
| "until stops (f # fs) = (if stops f then [f] else f # until stops fs)"

definition stops :: "settings \<Rightarrow> ('f, 'a) behaviour \<Rightarrow> 'a \<Rightarrow> 'f \<Rightarrow> bool" where
  "stops s does a f = (set_stopOnFalse s \<and> snd (does f a) = ReturnsFalse)"

lemma fire_loop_inert:
  assumes "inert does" "listed cb = Some fs" "queue cb = []" "firingIndex cb = int i - 1" "i \<le> length fs"
  shows "fire_loop s does m cb = Some (settle s (cb\<lparr>firingIndex := -1,
      called := called cb @ map (\<lambda>f. (f, m)) (until (stops s does m) (drop i fs)),
      memory := (if \<exists>f\<in>set (drop i fs). stops s does m f then None else memory cb)\<rparr>))"
  using assms
proof (induction "length fs - i" arbitrary: i cb)
  case 0
  then show ?case by (simp add: fire_loop.simps [of s does m cb] items_def)
next
  case (Suc n)
  then have i: "i < length fs" by simp
  let ?f = "fs ! i"
  have d: "drop i fs = ?f # drop (Suc i) fs" using i by (simp add: Cons_nth_drop_Suc)
  have e: "fst (does ?f m) = []" "snd (does ?f m) \<noteq> Throws" using Suc.prems(1) by (simp_all add: inert_def)
  let ?cb = "cb\<lparr>firingIndex := int i, called := called cb @ [(?f, m)]\<rparr>"
  show ?case
  proof (cases "stops s does m ?f")
    case True
    let ?c = "?cb\<lparr>firingIndex := int (length fs), memory := None\<rparr>"
    have "call_next s does m cb = (?c, ReturnsFalse)"
      using True e Suc.prems(2,4) by (simp add: call_next_def Let_def items_def stops_def split_beta)
    moreover have "fire_loop s does m ?c = Some (settle s (?c\<lparr>firingIndex := -1\<rparr>))"
      using Suc.prems(2,3) by (subst fire_loop.simps) (simp add: items_def)
    ultimately show ?thesis
      using True d i Suc.prems(2,4) by (simp add: fire_loop.simps [of s does m cb] items_def) (cases cb, simp)
  next
    case False
    have "call_next s does m cb = (?cb, snd (does ?f m))"
      using False e Suc.prems(2,4) by (auto simp: call_next_def Let_def items_def stops_def split_beta)
    moreover have "fire_loop s does m ?cb = Some (settle s (?cb\<lparr>firingIndex := -1,
      called := called ?cb @ map (\<lambda>f. (f, m)) (until (stops s does m) (drop (Suc i) fs)),
      memory := (if \<exists>f\<in>set (drop (Suc i) fs). stops s does m f then None else memory ?cb)\<rparr>))"
      by (rule Suc.hyps(1)) (use Suc.hyps(2) Suc.prems i in simp_all)
    ultimately show ?thesis
      using False d i e Suc.prems(2,4) by (simp add: fire_loop.simps [of s does m cb] items_def)
  qed
qed

text \<open>
  Firing a list calls its callbacks once each in the order in which they were added, with the value that is fired,
  up to the first that returns false when the list stops on false.
\<close>

theorem fire_calls_in_order:
  assumes "inert does" "listed cb = Some fs" "queue cb = []" "firingIndex cb = -1" "\<not> firing cb" "\<not> locked cb"
  shows "\<exists>cb'. perform s does (FireWith a) cb = Some cb' \<and>
    called cb' = called cb @ map (\<lambda>f. (f, a)) (until (stops s does a) fs) \<and> \<not> firing cb' \<and> fired cb'"
proof -
  let ?cb = "cb\<lparr>locked := set_once s, fired := True, firing := True, queue := [], memory := Some a\<rparr>"
  have "perform s does (FireWith a) cb = fire_loop s does a ?cb"
    using assms(3,5,6) by (simp add: firing_defs note_op_def Let_def)
  moreover have "fire_loop s does a ?cb = Some (settle s (?cb\<lparr>firingIndex := -1,
      called := called ?cb @ map (\<lambda>f. (f, a)) (until (stops s does a) (drop 0 fs)),
      memory := (if \<exists>f\<in>set (drop 0 fs). stops s does a f then None else memory ?cb)\<rparr>))"
    by (rule fire_loop_inert) (use assms in simp_all)
  ultimately show ?thesis by (auto simp: settle_def Let_def)
qed

theorem fire_calls_in_order_witness:
  "\<exists>cb'. perform once_memory (\<lambda>_ _. ([], Returns)) (FireWith True) (Callbacks\<lparr>listed := Some [3 :: nat, 5]\<rparr>) = Some cb' \<and>
    called cb' = called (Callbacks\<lparr>listed := Some [3 :: nat, 5]\<rparr>) @
      map (\<lambda>f. (f, True)) (until (stops once_memory (\<lambda>_ _. ([], Returns)) True) [3, 5]) \<and> \<not> firing cb' \<and> fired cb'"
  by (rule fire_calls_in_order) (simp_all add: inert_def Callbacks_def)


subsection \<open>A callback that throws\<close>

lemma notes_keep: "firing cb \<Longrightarrow> firing (note_op s op cb) \<and> called (note_op s op cb) = called cb"
proof -
  have r: "firing (foldl remove_one cb gs) = firing cb \<and> called (foldl remove_one cb gs) = called cb" for gs and cb :: "('a, 'b) callbacks"
    by (induction gs arbitrary: cb) (simp_all add: remove_one_def split: option.split prod.split)
  show "firing cb \<Longrightarrow> ?thesis"
    using r by (simp add: note_op_def add_items_def disable_def lock_def Let_def split: operation.split option.split)
qed

lemma foldl_notes_keep: "firing cb \<Longrightarrow> firing (foldl (\<lambda>cb op. note_op s op cb) cb ops) \<and>
    called (foldl (\<lambda>cb op. note_op s op cb) cb ops) = called cb"
  by (induction ops arbitrary: cb) (simp_all add: notes_keep)

lemma perform_firing: "firing cb \<Longrightarrow> perform s does op cb = Some (note_op s op cb)"
  by (simp add: firing_defs Let_def split: operation.split)

lemma performs_firing:
  "firing cb \<Longrightarrow> \<exists>cb'. performs s does ops cb = Some cb' \<and> firing cb' \<and> called cb' = called cb"
proof (induction ops arbitrary: cb)
  case (Cons op ops)
  with notes_keep [of cb s op] Cons.IH [of "note_op s op cb"] show ?case by (simp add: perform_firing)
qed simp

lemma call_next_firing: "firing cb \<Longrightarrow> call_next s does m cb = (cb', e) \<Longrightarrow> firing cb'"
  using foldl_notes_keep [of "cb\<lparr>firingIndex := firingIndex cb + 1, called := called cb @ [(items cb ! nat (firingIndex cb + 1), m)]\<rparr>" s
      "fst (does (items cb ! nat (firingIndex cb + 1)) m)"]
  by (auto simp: call_next_def Let_def split: prod.splits if_splits)

text \<open>
  A callback that throws jams its list for good: the list stays firing, and whatever is added or fired later,
  no callback is ever called again.
\<close>

theorem throwing_callback_jams:
  assumes "\<not> locked cb" "\<not> firing cb" "queue cb = []" "firingIndex cb = -1" "listed cb = Some (f # fs)" "snd (does f a) = Throws"
  shows "\<exists>cb1 cb2. perform s does (FireWith a) cb = Some cb1 \<and> called cb1 = called cb @ [(f, a)]
    \<and> performs s does ops cb1 = Some cb2 \<and> called cb2 = called cb1"
proof -
  let ?cb = "cb\<lparr>locked := set_once s, fired := True, firing := True, queue := [], memory := Some a\<rparr>"
  let ?c = "?cb\<lparr>firingIndex := 0, called := called cb @ [(f, a)]\<rparr>"
  let ?d = "foldl (\<lambda>cb op. note_op s op cb) ?c (fst (does f a))"
  have "perform s does (FireWith a) cb = fire_loop s does a ?cb"
    using assms(1-3) by (simp add: firing_defs note_op_def Let_def)
  moreover have "call_next s does a ?cb = (?d, Throws)"
    using assms(4-6) by (simp add: call_next_def Let_def items_def split_beta)
  ultimately have p: "perform s does (FireWith a) cb = Some ?d"
    using assms(4,5) by (simp add: fire_loop.simps [of s does a ?cb] items_def)
  have d: "firing ?d" "called ?d = called cb @ [(f, a)]" using foldl_notes_keep [of ?c s "fst (does f a)"] by simp_all
  from performs_firing [OF d(1), of s does ops] d(2) p show ?thesis by auto
qed

theorem throwing_callback_jams_witness:
  "\<exists>cb1 cb2. perform once_memory (\<lambda>_ _. ([], Throws)) (FireWith (7 :: nat)) (Callbacks\<lparr>listed := Some [1 :: nat]\<rparr>) = Some cb1
    \<and> called cb1 = called (Callbacks\<lparr>listed := Some [1 :: nat]\<rparr>) @ [(1, 7)]
    \<and> performs once_memory (\<lambda>_ _. ([], Throws)) [Add [2]] cb1 = Some cb2 \<and> called cb2 = called cb1"
  by (rule throwing_callback_jams) (simp_all add: Callbacks_def)

subsection \<open>The list of a deferred as a promise\<close>

text \<open>
  What \<open>$.Callbacks( "once memory" )\<close> promises, without indices, queues and flags: the callbacks wait for a value,
  then each one is called with it, those that come later at once. Disabling and locking a list that waits, disabling
  one that delivers, and a callback that throws silence it for good. \<open>throws\<close> tells which callbacks throw, and with
  which value.
\<close>

datatype ('f, 'a) promise = Awaits "'f list" | Delivers 'a | Silent

definition calls :: "('f \<Rightarrow> 'a \<Rightarrow> bool) \<Rightarrow> 'a \<Rightarrow> 'f list \<Rightarrow> ('f \<times> 'a) list" where
  "calls throws a fs = map (\<lambda>f. (f, a)) (until (\<lambda>f. throws f a) fs)"

definition after_calls :: "('f \<Rightarrow> 'a \<Rightarrow> bool) \<Rightarrow> 'a \<Rightarrow> 'f list \<Rightarrow> ('f, 'a) promise" where
  "after_calls throws a fs = (if list_ex (\<lambda>f. throws f a) fs then Silent else Delivers a)"

fun promise_step :: "('f \<Rightarrow> 'a \<Rightarrow> bool) \<Rightarrow> ('f, 'a) operation \<Rightarrow> ('f, 'a) promise \<Rightarrow> ('f, 'a) promise \<times> ('f \<times> 'a) list" where
  "promise_step throws (Add gs) (Awaits fs) = (Awaits (fs @ gs), [])"
| "promise_step throws (Remove gs) (Awaits fs) = (Awaits (filter (\<lambda>f. f \<notin> set gs) fs), [])"
| "promise_step throws Empty (Awaits fs) = (Awaits [], [])"
| "promise_step throws (FireWith a) (Awaits fs) = (after_calls throws a fs, calls throws a fs)"
| "promise_step throws (Add gs) (Delivers a) = (after_calls throws a gs, calls throws a gs)"
| "promise_step throws Lock (Delivers a) = (Delivers a, [])"
| "promise_step throws Empty (Delivers a) = (Delivers a, [])"
| "promise_step throws (Remove gs) (Delivers a) = (Delivers a, [])"
| "promise_step throws (FireWith b) (Delivers a) = (Delivers a, [])"
| "promise_step throws op p = (Silent, [])"

fun promise_calls :: "('f \<Rightarrow> 'a \<Rightarrow> bool) \<Rightarrow> ('f, 'a) operation list \<Rightarrow> ('f, 'a) promise \<Rightarrow> ('f \<times> 'a) list" where
  "promise_calls throws [] p = []"
| "promise_calls throws (op # ops) p = (case promise_step throws op p of (p', cs) \<Rightarrow> cs @ promise_calls throws ops p')"

text \<open>Callbacks that leave the list alone while they run; they may throw.\<close>

definition hands_off :: "('f, 'a) behaviour \<Rightarrow> bool" where
  "hands_off does \<longleftrightarrow> (\<forall>f a. fst (does f a) = [])"

definition throwing :: "('f, 'a) behaviour \<Rightarrow> 'f \<Rightarrow> 'a \<Rightarrow> bool" where
  "throwing does f a = (snd (does f a) = Throws)"

definition waiting :: "'f list \<Rightarrow> ('f, 'a) callbacks" where
  "waiting fs = Callbacks\<lparr>listed := Some fs\<rparr>"

definition settled :: "'a \<Rightarrow> ('f \<times> 'a) list \<Rightarrow> ('f, 'a) callbacks" where
  "settled a past = Callbacks\<lparr>listed := Some [], memory := Some a, fired := True, locked := True, called := past\<rparr>"

definition spent :: "('f, 'a) callbacks \<Rightarrow> bool" where
  "spent cb \<longleftrightarrow> firing cb \<or> listed cb = None \<and> locked cb"

text \<open>Which promise a list stands for.\<close>

fun stands_for :: "('f, 'a) callbacks \<Rightarrow> ('f, 'a) promise \<Rightarrow> bool" where
  "stands_for cb (Awaits fs) = (cb = waiting fs)"
| "stands_for cb (Delivers a) = (cb = settled a (called cb))"
| "stands_for cb Silent = spent cb"

lemma push_all_plain: "push_all False fs gs = fs @ gs"
  by (induction gs arbitrary: fs) simp_all

lemma fire_loop_hands_off:
  assumes "hands_off does" "listed cb = Some fs" "queue cb = []" "firing cb" "firingIndex cb = int i - 1" "i \<le> length fs"
  shows "\<exists>cb'. fire_loop once_memory does m cb = Some cb'
    \<and> called cb' = called cb @ calls (throwing does) m (drop i fs)
    \<and> (if list_ex (\<lambda>f. throwing does f m) (drop i fs) then firing cb'
       else cb' = settle once_memory (cb\<lparr>firingIndex := -1, called := called cb'\<rparr>))"
  using assms
proof (induction "length fs - i" arbitrary: i cb)
  case 0
  then show ?case
    by (simp add: fire_loop.simps [of once_memory does m cb] items_def calls_def settle_def Let_def)
next
  case (Suc n)
  then have i: "i < length fs" by simp
  let ?f = "fs ! i"
  have d: "drop i fs = ?f # drop (Suc i) fs" using i by (simp add: Cons_nth_drop_Suc)
  have e: "fst (does ?f m) = []" using Suc.prems(1) by (simp add: hands_off_def)
  let ?cb = "cb\<lparr>firingIndex := int i, called := called cb @ [(?f, m)]\<rparr>"
  have c: "call_next once_memory does m cb = (?cb, snd (does ?f m))"
    using e Suc.prems(2,5) by (simp add: call_next_def Let_def items_def split_beta)
  have l: "fire_loop once_memory does m cb =
      (if throwing does ?f m then Some ?cb else fire_loop once_memory does m ?cb)"
    using i Suc.prems(2,5) c by (simp add: fire_loop.simps [of once_memory does m cb] items_def throwing_def)
  show ?case
  proof (cases "throwing does ?f m")
    case True
    with l d Suc.prems(4) show ?thesis by (simp add: calls_def)
  next
    case False
    have "\<exists>cb'. fire_loop once_memory does m ?cb = Some cb'
      \<and> called cb' = called ?cb @ calls (throwing does) m (drop (Suc i) fs)
      \<and> (if list_ex (\<lambda>f. throwing does f m) (drop (Suc i) fs) then firing cb'
         else cb' = settle once_memory (?cb\<lparr>firingIndex := -1, called := called cb'\<rparr>))"
      by (rule Suc.hyps(1)) (use Suc.hyps(2) Suc.prems i in simp_all)
    then obtain cb' where "fire_loop once_memory does m ?cb = Some cb'"
      "called cb' = called ?cb @ calls (throwing does) m (drop (Suc i) fs)"
      "if list_ex (\<lambda>f. throwing does f m) (drop (Suc i) fs) then firing cb'
         else cb' = settle once_memory (?cb\<lparr>firingIndex := -1, called := called cb'\<rparr>)" by blast
    with False l d show ?thesis by (intro exI [of _ cb']) (simp add: calls_def split: if_splits)
  qed
qed

lemma fire_waiting:
  assumes "hands_off does"
  shows "\<exists>cb'. perform once_memory does (FireWith a) (waiting fs) = Some cb'
    \<and> stands_for cb' (after_calls (throwing does) a fs) \<and> called cb' = calls (throwing does) a fs"
proof -
  let ?cb = "(waiting fs)\<lparr>locked := True, fired := True, firing := True, memory := Some a\<rparr>"
  have "perform once_memory does (FireWith a) (waiting fs) = fire_loop once_memory does a ?cb"
    by (simp add: firing_defs note_op_def Let_def waiting_def Callbacks_def)
  moreover obtain cb' where "fire_loop once_memory does a ?cb = Some cb'" "called cb' = calls (throwing does) a fs"
    "if list_ex (\<lambda>f. throwing does f a) fs then firing cb'
     else cb' = settle once_memory (?cb\<lparr>firingIndex := -1, called := called cb'\<rparr>)"
    using fire_loop_hands_off [OF assms, of ?cb fs 0 a] by (auto simp: waiting_def Callbacks_def)
  ultimately show ?thesis
    by (cases cb') (auto simp: after_calls_def spent_def settle_def settled_def waiting_def Callbacks_def Let_def split: if_splits)
qed

lemma add_settled:
  assumes "hands_off does"
  shows "\<exists>cb'. perform once_memory does (Add gs) (settled a past) = Some cb'
    \<and> stands_for cb' (after_calls (throwing does) a gs) \<and> called cb' = past @ calls (throwing does) a gs"
proof -
  let ?cb = "(settled a past)\<lparr>listed := Some gs, firing := True\<rparr>"
  have "perform once_memory does (Add gs) (settled a past) = fire_loop once_memory does a ?cb"
    by (simp add: firing_defs note_op_def Let_def settled_def Callbacks_def add_items_def push_all_plain items_def)
  moreover obtain cb' where "fire_loop once_memory does a ?cb = Some cb'" "called cb' = past @ calls (throwing does) a gs"
    "if list_ex (\<lambda>f. throwing does f a) gs then firing cb'
     else cb' = settle once_memory (?cb\<lparr>firingIndex := -1, called := called cb'\<rparr>)"
    using fire_loop_hands_off [OF assms, of ?cb gs 0 a] by (auto simp: settled_def Callbacks_def)
  ultimately show ?thesis
    by (cases cb') (auto simp: after_calls_def spent_def settle_def settled_def Callbacks_def Let_def split: if_splits)
qed

text \<open>Removing callbacks from a list that is not firing.\<close>

lemma remove_from_filter: "i < 0 \<Longrightarrow> remove_from f keep fs i = (rev keep @ filter (\<lambda>g. g \<noteq> f) fs, i)"
  by (induction f keep fs i rule: remove_from.induct) auto

lemma remove_listed: "listed cb = Some fs \<Longrightarrow> firingIndex cb < 0 \<Longrightarrow>
    foldl remove_one cb gs = cb\<lparr>listed := Some (filter (\<lambda>f. f \<notin> set gs) fs)\<rparr>"
proof (induction gs arbitrary: cb fs)
  case (Cons g gs)
  then have "remove_one cb g = cb\<lparr>listed := Some (filter (\<lambda>f. f \<noteq> g) fs)\<rparr>"
    by (simp add: remove_one_def remove_from_filter)
  with Cons.IH [of "cb\<lparr>listed := Some (filter (\<lambda>f. f \<noteq> g) fs)\<rparr>" "filter (\<lambda>f. f \<noteq> g) fs"] Cons.prems
  show ?case by (simp add: conj_commute)
qed simp

lemma remove_disabled: "listed cb = None \<Longrightarrow> foldl remove_one cb gs = cb"
  by (induction gs) (simp_all add: remove_one_def)

lemma perform_spent:
  assumes "spent cb"
  shows "\<exists>cb'. perform s does op cb = Some cb' \<and> spent cb' \<and> called cb' = called cb"
proof (cases "firing cb")
  case True
  with notes_keep [OF True, of s op] show ?thesis by (simp add: perform_firing spent_def)
next
  case False
  with assms have "listed cb = None" "locked cb" by (simp_all add: spent_def)
  with False show ?thesis
    by (cases op) (auto simp: perform_def would_fire_def note_op_def remove_disabled disable_def lock_def spent_def Let_def)
qed

text \<open>One operation on the list is one step of its promise.\<close>

lemma perform_stands_for:
  assumes "hands_off does" "stands_for cb p" "promise_step (throwing does) op p = (p', cs)"
  shows "\<exists>cb'. perform once_memory does op cb = Some cb' \<and> stands_for cb' p' \<and> called cb' = called cb @ cs"
proof (cases p)
  case (Awaits fs)
  with assms(2) have cb: "cb = waiting fs" by simp
  show ?thesis
  proof (cases op)
    case (FireWith a)
    with fire_waiting [OF assms(1), of a fs] Awaits assms(3) cb show ?thesis by (auto simp: waiting_def Callbacks_def)
  qed (use assms(3) Awaits cb in \<open>auto simp: firing_defs note_op_def waiting_def Callbacks_def add_items_def push_all_plain
      remove_listed disable_def lock_def spent_def Let_def\<close>)
next
  case (Delivers a)
  with assms(2) obtain past where cb: "cb = settled a past" by auto
  show ?thesis
  proof (cases op)
    case (Add gs)
    with add_settled [OF assms(1), of gs a past] Delivers assms(3) cb show ?thesis by (auto simp: settled_def)
  qed (use assms(3) Delivers cb in \<open>auto simp: firing_defs note_op_def settled_def Callbacks_def
      remove_listed disable_def lock_def spent_def Let_def\<close>)
next
  case Silent
  with assms(3) have "p' = Silent \<and> cs = []" by (cases op) simp_all
  with perform_spent [of cb once_memory does op] assms(2) Silent show ?thesis by simp
qed

lemma performs_stands_for:
  assumes "hands_off does"
  shows "stands_for cb p \<Longrightarrow> \<exists>cb'. performs once_memory does ops cb = Some cb'
    \<and> called cb' = called cb @ promise_calls (throwing does) ops p"
proof (induction ops arbitrary: cb p)
  case (Cons op ops)
  obtain p' cs where p: "promise_step (throwing does) op p = (p', cs)" by fastforce
  from perform_stands_for [OF assms Cons.prems p] obtain c where
    "perform once_memory does op cb = Some c" "stands_for c p'" "called c = called cb @ cs" by blast
  with Cons.IH [of c p'] p show ?case by auto
qed simp

text \<open>
  C35: The list behind an answer is a promise. For callbacks that do not touch their list while they run (C36 has those
  that do), and whatever sequence of operations comes from outside, the callbacks that are called, and with what, are
  those of the abstract promise: none before the first value; then each one that was added and not removed, once, in
  the order of adding, with that value, up to one that throws; those added later at once with the same value; and
  none once the list is silenced.
\<close>

theorem once_memory_promise:
  assumes "hands_off does"
  shows "map_option called (performs once_memory does ops Callbacks) =
    Some (promise_calls (throwing does) ops (Awaits []))"
proof -
  have "stands_for Callbacks (Awaits [])" by (simp add: waiting_def Callbacks_def)
  from performs_stands_for [OF assms this, of ops] show ?thesis by (auto simp: Callbacks_def)
qed

theorem once_memory_promise_witness:
  "map_option called (performs once_memory (\<lambda>f _. ([], if f = 3 then Throws else Returns))
      [Add [1 :: nat, 5], Remove [5], FireWith (7 :: nat), Add [2], FireWith 8, Add [3, 4], Add [6]] Callbacks) =
    Some [(1, 7), (2, 7), (3, 7)]"
proof -
  let ?does = "\<lambda>f _. ([], if f = 3 then Throws else Returns)"
  have "hands_off ?does" by (simp add: hands_off_def)
  from once_memory_promise [OF this, of "[Add [1 :: nat, 5], Remove [5], FireWith (7 :: nat), Add [2], FireWith 8, Add [3, 4], Add [6]]"]
  show ?thesis by (simp add: throwing_def calls_def after_calls_def)
qed

subsection \<open>One value\<close>

text \<open>Once a list that fires once is locked, one value is all it ever delivers, whatever its callbacks do.\<close>

definition single :: "'a \<Rightarrow> ('f, 'a) callbacks \<Rightarrow> bool" where
  "single a cb = (locked cb \<and> (\<forall>x\<in>set (called cb). snd x = a) \<and> set (queue cb) \<subseteq> {a} \<and> memory cb \<in> {None, Some a})"

lemma single_remove: "single a (foldl remove_one cb gs) = single a cb"
  by (induction gs arbitrary: cb) (simp_all add: remove_one_def single_def split: option.split prod.split)

lemma single_note: "single a cb \<Longrightarrow> single a (note_op s op cb)"
proof (cases op)
  case (Remove gs)
  then show "single a cb \<Longrightarrow> ?thesis" by (simp add: note_op_def single_remove)
qed (auto simp: note_op_def add_items_def disable_def lock_def Let_def single_def split: option.split)

lemma single_notes: "single a cb \<Longrightarrow> single a (foldl (\<lambda>cb op. note_op s op cb) cb ops)"
  by (induction ops arbitrary: cb) (simp_all add: single_note)

lemma single_call_next:
  assumes "single a cb" "call_next s does a cb = (cb', e)"
  shows "single a cb'"
proof -
  let ?f = "items cb ! nat (firingIndex cb + 1)"
  have "single a (cb\<lparr>firingIndex := firingIndex cb + 1, called := called cb @ [(?f, a)]\<rparr>)"
    using assms(1) by (auto simp: single_def)
  from single_notes [OF this, of s "fst (does ?f a)"] assms(2) show ?thesis
    by (auto simp: call_next_def Let_def single_def split: prod.splits if_splits)
qed

lemma single_settle: "single a cb \<Longrightarrow> single a (settle s cb)"
  by (simp add: settle_def single_def Let_def)

lemma single_fire_loop:
  assumes "fire_loop s does m cb = Some cb'" "single a cb" "m = a"
  shows "single a cb'"
proof -
  have "single a cb \<longrightarrow> m = a \<longrightarrow> single a cb'"
  proof (rule fire_loop.raw_induct [where P = "\<lambda>s does m cb y. single a cb \<longrightarrow> m = a \<longrightarrow> single a y", OF _ assms(1)], intro impI)
    fix loop :: "settings \<Rightarrow> ('a, 'b) behaviour \<Rightarrow> 'b \<Rightarrow> ('a, 'b) callbacks \<Rightarrow> ('a, 'b) callbacks option" and s does m cb y
    assume IH: "\<And>s does m cb y. loop s does m cb = Some y \<Longrightarrow> single a cb \<longrightarrow> m = a \<longrightarrow> single a y"
      and eq: "(if firingIndex cb + 1 < int (length (items cb))
        then (case call_next s does m cb of (cb', e) \<Rightarrow> if e = Throws then Some cb' else loop s does m cb')
        else (let cb' = cb\<lparr>firingIndex := -1\<rparr> in
           case queue cb' of [] \<Rightarrow> Some (settle s cb') | a # as \<Rightarrow> loop s does a (cb'\<lparr>queue := as, memory := Some a\<rparr>))) = Some y"
      and cb: "single a cb" and m: "m = a"
    show "single a y"
    proof (cases "firingIndex cb + 1 < int (length (items cb))")
      case True
      obtain c e where c: "call_next s does m cb = (c, e)" by (cases "call_next s does m cb")
      with single_call_next [of a cb s does c e] cb m have "single a c" by simp
      with IH [of s does m c y] eq True c m show ?thesis by (auto split: if_splits)
    next
      case False
      show ?thesis
      proof (cases "queue cb")
        case Nil
        from cb have "single a (settle s (cb\<lparr>firingIndex := -1\<rparr>))" by (intro single_settle) (simp add: single_def)
        with False eq Nil show ?thesis by (simp add: Let_def)
      next
        case (Cons b bs)
        with cb have "b = a" "single a (cb\<lparr>firingIndex := -1, queue := bs, memory := Some b\<rparr>)" by (auto simp: single_def)
        with IH False eq Cons show ?thesis by (simp add: Let_def)
      qed
    qed
  qed
  with assms(2,3) show ?thesis by blast
qed

text \<open>A list that has not been fired and not been locked.\<close>

definition untouched :: "('f, 'a) callbacks \<Rightarrow> bool" where
  "untouched cb = (\<not> locked cb \<and> called cb = [] \<and> queue cb = [] \<and> memory cb = None \<and> \<not> firing cb)"

lemma untouched_remove: "untouched (foldl remove_one cb gs) = untouched cb"
  by (induction gs arbitrary: cb) (simp_all add: remove_one_def untouched_def split: option.split prod.split)

lemma single_fire:
  assumes "set_once s" "fire_queue s does cb = Some cb'" "\<forall>x\<in>set (called cb). snd x = a" "set (queue cb) \<subseteq> {a}" "memory cb \<in> {None, Some a}"
  shows "single a cb'"
proof (cases "queue cb")
  case Nil
  have "single a (cb\<lparr>locked := True, fired := True, firing := True\<rparr>)" using assms(3-5) by (simp add: single_def)
  from single_settle [OF this, of s] assms(1,2) Nil show ?thesis by (simp add: fire_queue_def start_fire_def Let_def)
next
  case (Cons b bs)
  let ?cb = "cb\<lparr>locked := True, fired := True, firing := True, queue := bs, memory := Some b\<rparr>"
  have "fire_loop s does b ?cb = Some cb'" using assms(1,2) Cons by (simp add: fire_queue_def start_fire_def Let_def)
  moreover have "single a ?cb" "b = a" using assms(3-5) Cons by (auto simp: single_def)
  ultimately show ?thesis by (rule single_fire_loop)
qed

lemma perform_single:
  assumes "set_once s" "perform s does op cb = Some cb'" "untouched cb \<or> (\<exists>a. single a cb)"
  shows "untouched cb' \<or> (\<exists>a. single a cb')"
  using assms(3)
proof
  assume "\<exists>a. single a cb"
  then obtain a where a: "single a cb" by blast
  then have n: "single a (note_op s op cb)" by (rule single_note)
  have "perform s does op cb = Some (note_op s op cb) \<or> perform s does op cb = fire_queue s does (note_op s op cb)"
    by (simp add: firing_defs Let_def split: operation.split)
  with n assms(1,2) single_fire [of s does "note_op s op cb" cb' a] show ?thesis by (auto simp: single_def)
next
  assume u: "untouched cb"
  show ?thesis
  proof (cases op)
    case (Add gs)
    with u assms(2) show ?thesis by (auto simp: firing_defs note_op_def add_items_def untouched_def Let_def split: if_splits)
  next
    case (Remove gs)
    with u assms(2) show ?thesis by (auto simp: firing_defs note_op_def untouched_remove)
  next
    case (FireWith a)
    with u assms(2) have "fire_queue s does (cb\<lparr>queue := [a]\<rparr>) = Some cb'"
      by (simp add: firing_defs note_op_def untouched_def)
    with single_fire [OF assms(1) this, of a] u show ?thesis by (auto simp: untouched_def)
  next
    case Lock
    with u assms(2) show ?thesis by (auto simp: firing_defs note_op_def lock_def untouched_def single_def Let_def)
  next
    case Disable
    with u assms(2) show ?thesis by (auto simp: firing_defs note_op_def disable_def untouched_def single_def)
  next
    case Empty
    with u assms(2) show ?thesis by (auto simp: firing_defs note_op_def untouched_def split: if_splits)
  qed
qed

text \<open>
  A list that fires once never delivers two values, whatever its callbacks do to it while they run, and whether
  they throw or not.
\<close>

theorem once_delivers_one_value:
  assumes "set_once s" "performs s does ops Callbacks = Some cb" "(f, a) \<in> set (called cb)" "(g, b) \<in> set (called cb)"
  shows "a = b"
proof -
  have "performs s does ops cb0 = Some cb \<Longrightarrow> untouched cb0 \<or> (\<exists>a. single a cb0) \<Longrightarrow> untouched cb \<or> (\<exists>a. single a cb)" for cb0
  proof (induction ops arbitrary: cb0)
    case (Cons op ops)
    then obtain c where "perform s does op cb0 = Some c" "performs s does ops c = Some cb" by (auto split: bind_splits)
    with perform_single [OF assms(1)] Cons show ?case by blast
  qed simp
  moreover have "untouched Callbacks" by (simp add: untouched_def Callbacks_def)
  ultimately have "untouched cb \<or> (\<exists>a. single a cb)" using assms(2) by blast
  then show ?thesis
  proof
    assume "untouched cb"
    with assms(3) show ?thesis by (simp add: untouched_def)
  next
    assume "\<exists>c. single c cb"
    then obtain c where "\<forall>x\<in>set (called cb). snd x = c" by (auto simp: single_def)
    from bspec [OF this assms(3)] bspec [OF this assms(4)] show ?thesis by simp
  qed
qed

theorem once_delivers_one_value_witness: "(7 :: nat) = 7"
proof (rule once_delivers_one_value [where f = 1 and g = 2])
  show "set_once once_memory" by simp
  show "performs once_memory (\<lambda>_ _. ([FireWith 9], Returns)) [Add [1 :: nat, 2], FireWith (7 :: nat)] Callbacks =
      Some (settled 7 [(1, 7), (2, 7)])"
    by (simp add: firing_defs note_op_def add_items_def fire_queue_def start_fire_def fire_loop.simps call_next_def items_def settle_def
        settled_def Callbacks_def push_all_plain Let_def)
qed (simp_all add: settled_def)

end
