(* ===== verification/JqDeferred.thy ===== *)
theory JqDeferred
  imports JqCallbacks Machines
begin

text \<open>
  \<open>$.Deferred\<close> (\<open>jquery.js\<close>), what a request answers to: six callback lists wired to each other, and a state. A
  listener is arbitrary: it may add listeners and settle the deferred while it runs, and it may throw; it does not
  catch what these calls throw. So the model is
  a machine with a stack of the loops and calls that are under way. The handlers that \<open>then\<close> adds only set a timer when
  they are called; what they do when it goes off is not modelled.
\<close>

subsection \<open>The lists\<close>

datatype which = Progress | Done | Fail

text \<open>For each of the three, the list of \<open>progress\<close>, \<open>done\<close>, \<open>fail\<close> and that of the handlers of \<open>then\<close>.\<close>

datatype place = Outer which | Inner which

datatype deferred_state = Unsettled | Resolved | Rejected

text \<open>What a list holds: the functions that wire the lists to each other, and those that were added.\<close>

datatype 'g wired = SetState deferred_state | Disables place | Locks place | Fires which | Listener 'g

record ('g, 'a) deferred =
  lists :: "place \<Rightarrow> ('g wired, 'a) callbacks"
  state :: deferred_state

text \<open>The third and fourth column of \<open>tuples\<close>.\<close>

definition kind :: "place \<Rightarrow> settings" where
  "kind p = (if p \<in> {Outer Progress, Inner Progress} then createOptions (js ''memory'') else createOptions (js ''once memory''))"

definition other :: "which \<Rightarrow> which" where
  "other w = (case w of Done \<Rightarrow> Fail | Fail \<Rightarrow> Done | Progress \<Rightarrow> Progress)"

text \<open>The sixth column.\<close>

definition state_of :: "which \<Rightarrow> deferred_state" where
  "state_of w = (case w of Done \<Rightarrow> Resolved | Fail \<Rightarrow> Rejected | Progress \<Rightarrow> Unsettled)"

definition wiring :: "which \<Rightarrow> 'g wired list" where
  "wiring w =
     (if w = Progress then []
      else [SetState (state_of w), Disables (Outer (other w)), Disables (Inner (other w)), Locks (Outer Progress), Locks (Inner Progress)])
     @ [Fires w]"

definition Deferred :: "('g, 'a) deferred" where
  "Deferred =
     \<lparr>lists = (\<lambda>p. case p of Outer w \<Rightarrow> add_items (kind p) (wiring w) Callbacks | Inner w \<Rightarrow> Callbacks), state = Unsettled\<rparr>"

subsection \<open>What is done to a deferred\<close>

text \<open>\<open>progress\<close>, \<open>done\<close> and \<open>fail\<close>; \<open>notifyWith\<close>, \<open>resolveWith\<close> and \<open>rejectWith\<close>; \<open>then\<close>.\<close>

datatype ('g, 'a) deferred_call = Listen which "'g list" | Settle which 'a | Then 'g

type_synonym ('g, 'a) listeners = "'g \<Rightarrow> 'a \<Rightarrow> ('g, 'a) deferred_call list \<times> ending"

definition operations :: "('g, 'a) deferred_call \<Rightarrow> (place \<times> ('g wired, 'a) operation) list" where
  "operations r =
     (case r of
        Listen w gs \<Rightarrow> [(Outer w, Add (map Listener gs))]
      | Settle w a \<Rightarrow> [(Outer w, FireWith a)]
      | Then g \<Rightarrow> map (\<lambda>w. (Inner w, Add [Listener g])) [Progress, Done, Fail])"

text \<open>The stack: a list that fires a value, or the operations that a call still makes and how it ends.\<close>

datatype ('g, 'a) frame = Loop place 'a | Calls "(place \<times> ('g wired, 'a) operation) list" ending

type_synonym ('g, 'a) config = "('g, 'a) deferred \<times> ('g, 'a) frame list"

definition put_list :: "place \<Rightarrow> ('g wired, 'a) callbacks \<Rightarrow> ('g, 'a) deferred \<Rightarrow> ('g, 'a) deferred" where
  "put_list p cb d = d\<lparr>lists := (lists d)(p := cb)\<rparr>"

definition operate :: "place \<Rightarrow> ('g wired, 'a) operation \<Rightarrow> ('g, 'a) config \<Rightarrow> ('g, 'a) config" where
  "operate p op c =
     (case c of
        (d, frames) \<Rightarrow>
          let cb = lists d p; cb1 = note_op (kind p) op cb in
          if would_fire op cb
          then (case start_fire (kind p) cb1 of
                  (cb2, None) \<Rightarrow> (put_list p cb2 d, frames)
                | (cb2, Some a) \<Rightarrow> (put_list p cb2 d, Loop p a # frames))
          else (put_list p cb1 d, frames))"

definition call_wired :: "('g, 'a) listeners \<Rightarrow> place \<Rightarrow> 'g wired \<Rightarrow> 'a \<Rightarrow> ('g, 'a) config \<Rightarrow> ('g, 'a) config" where
  "call_wired does p f a c =
     (case f of
        SetState s \<Rightarrow> (case c of (d, frames) \<Rightarrow> (d\<lparr>state := s\<rparr>, frames))
      | Disables q \<Rightarrow> operate q Disable c
      | Locks q \<Rightarrow> operate q Lock c
      | Fires w \<Rightarrow> operate (Inner w) (FireWith a) c
      | Listener g \<Rightarrow>
          (case p of
             Inner _ \<Rightarrow> c
           | Outer _ \<Rightarrow>
               (case c of (d, frames) \<Rightarrow>
                  (case does g a of (rs, e) \<Rightarrow> (d, Calls (concat (map operations rs)) e # frames)))))"

text \<open>
  One step of what is under way: the loops of \<open>fire\<close> (\<open>call_next\<close> and \<open>fire_loop\<close> of a single list), an operation of a
  listener, its end. An exception leaves all that is under way.
\<close>

definition loop_step :: "('g, 'a) listeners \<Rightarrow> place \<Rightarrow> 'a \<Rightarrow> ('g, 'a) deferred \<Rightarrow> ('g, 'a) frame list \<Rightarrow> ('g, 'a) config" where
  "loop_step does p a d frames =
     (let cb = lists d p in
      if firingIndex cb + 1 < int (length (items cb))
      then
        (let i = firingIndex cb + 1; f = items cb ! nat i
         in call_wired does p f a (put_list p (cb\<lparr>firingIndex := i, called := called cb @ [(f, a)]\<rparr>) d, Loop p a # frames))
      else
        (let cb1 = cb\<lparr>firingIndex := -1\<rparr> in
         case queue cb1 of
           [] \<Rightarrow> (put_list p (settle (kind p) cb1) d, frames)
         | b # bs \<Rightarrow> (put_list p (cb1\<lparr>queue := bs, memory := Some b\<rparr>) d, Loop p b # frames)))"

fun advance :: "('g, 'a) listeners \<Rightarrow> ('g, 'a) config \<Rightarrow> ('g, 'a) config" where
  "advance does (d, []) = (d, [])"
| "advance does (d, Loop p a # frames) = loop_step does p a d frames"
| "advance does (d, Calls [] e # frames) = (d, if e = Throws then [] else frames)"
| "advance does (d, Calls ((p, op) # ops) e # frames) = operate p op (d, Calls ops e # frames)"

inductive deferred_step :: "('g, 'a) listeners \<Rightarrow> ('g, 'a) config \<Rightarrow> ('g, 'a) config \<Rightarrow> bool" for does where
  goes_on: "frames \<noteq> [] \<Longrightarrow> deferred_step does (d, frames) (advance does (d, frames))"
| request: "deferred_step does (d, []) (d, [Calls (operations r) Returns])"

subsection \<open>What the lists keep\<close>

text \<open>Nothing but what belongs there is ever in a list, and no operation on the stack adds anything else.\<close>

definition allowed :: "place \<Rightarrow> 'g wired set" where
  "allowed p = (case p of Outer w \<Rightarrow> set (wiring w) | Inner _ \<Rightarrow> {}) \<union> range Listener"

definition sound_op :: "place \<times> ('g wired, 'a) operation \<Rightarrow> bool" where
  "sound_op x = (case x of
      (_, Add fs) \<Rightarrow> set fs \<subseteq> range Listener
    | (Outer _, FireWith _) \<Rightarrow> True
    | _ \<Rightarrow> False)"

definition sound_frame :: "('g, 'a) frame \<Rightarrow> bool" where
  "sound_frame fr = (case fr of Loop _ _ \<Rightarrow> True | Calls ops _ \<Rightarrow> list_all sound_op ops)"

definition sound_list :: "place \<Rightarrow> ('g wired, 'a) callbacks \<Rightarrow> bool" where
  "sound_list p cb = (set (items cb) \<subseteq> allowed p \<and> -1 \<le> firingIndex cb)"

definition sound :: "('g, 'a) config \<Rightarrow> bool" where
  "sound c = ((\<forall>p. sound_list p (lists (fst c) p)) \<and> list_all sound_frame (snd c))"

lemma operations_sound: "list_all sound_op (operations r)"
  by (cases r) (auto simp: operations_def sound_op_def)

lemma requests_sound: "list_all sound_op (concat (map operations rs))"
  using operations_sound by (induction rs) auto

lemma set_push_all: "set (push_all u fs gs) = set fs \<union> set gs"
  by (induction gs arbitrary: fs) auto

lemma items_simps [simp]:
  "items (cb\<lparr>queue := x1\<rparr>) = items cb" "items (cb\<lparr>firingIndex := x2\<rparr>) = items cb" "items (cb\<lparr>memory := x3\<rparr>) = items cb"
  "items (cb\<lparr>fired := x4\<rparr>) = items cb" "items (cb\<lparr>firing := x5\<rparr>) = items cb" "items (cb\<lparr>locked := x5\<rparr>) = items cb"
  "items (cb\<lparr>called := x6\<rparr>) = items cb" "items (cb\<lparr>listed := x7\<rparr>) = (case x7 of None \<Rightarrow> [] | Some fs \<Rightarrow> fs)"
  by (simp_all add: items_def)

text \<open>The operations that are ever carried out on a list.\<close>

definition wired_op :: "place \<Rightarrow> ('g wired, 'a) operation \<Rightarrow> bool" where
  "wired_op p op = (case op of Add fs \<Rightarrow> set fs \<subseteq> range Listener | FireWith _ \<Rightarrow> True | Disable \<Rightarrow> True | Lock \<Rightarrow> True | _ \<Rightarrow> False)"

lemma sound_op_wired: "sound_op (p, op) \<Longrightarrow> wired_op p op"
  by (auto simp: sound_op_def wired_op_def split: operation.splits place.splits)

lemma sound_note: "sound_list p cb \<Longrightarrow> wired_op p op \<Longrightarrow> sound_list p (note_op s op cb)"
proof (cases op)
  case (Add fs)
  moreover assume "sound_list p cb" "wired_op p op"
  ultimately show ?thesis
    by (cases "listed cb")
      (auto simp: sound_list_def wired_op_def note_op_def add_items_def items_def set_push_all allowed_def Let_def split: option.splits)
qed (auto simp: sound_list_def wired_op_def note_op_def disable_def lock_def Let_def)

lemma sound_settle: "sound_list p cb \<Longrightarrow> sound_list p (settle s cb)"
  by (auto simp: sound_list_def settle_def Let_def)

lemma sound_start: "sound_list p cb \<Longrightarrow> start_fire s cb = (cb', r) \<Longrightarrow> sound_list p cb'"
proof -
  assume p: "sound_list p cb"
  then have "sound_list p (cb\<lparr>locked := locked cb \<or> set_once s, fired := True, firing := True\<rparr>)" by (simp add: sound_list_def)
  from sound_settle [OF this, of s] p show "start_fire s cb = (cb', r) \<Longrightarrow> ?thesis"
    by (auto simp: start_fire_def sound_list_def Let_def split: list.splits)
qed

lemma put_list_simps [simp]: "lists (put_list p cb d) q = (if q = p then cb else lists d q)" "state (put_list p cb d) = state d"
  by (simp_all add: put_list_def)

lemma sound_operate: "sound (d, fs) \<Longrightarrow> wired_op p op \<Longrightarrow> sound (operate p op (d, fs))"
proof -
  assume s: "sound (d, fs)" and w: "wired_op p op"
  then have n: "sound_list p (note_op (kind p) op (lists d p))" by (simp add: sound_def sound_note)
  obtain cb r where b: "start_fire (kind p) (note_op (kind p) op (lists d p)) = (cb, r)" by fastforce
  from s n sound_start [OF n b] show ?thesis
    by (cases r) (simp_all add: operate_def sound_def sound_frame_def b Let_def)
qed

lemma sound_call:
  assumes "sound (d, fs)" "f \<in> allowed p"
  shows "sound (call_wired does p f a (d, fs))"
proof (cases f)
  case (Listener g)
  obtain rs e where "does g a = (rs, e)" by fastforce
  with Listener assms(1) show ?thesis
    by (simp add: call_wired_def sound_def sound_frame_def requests_sound split: place.split)
next
  case (SetState s)
  with assms(1) show ?thesis by (simp add: call_wired_def sound_def)
qed (use assms(1) in \<open>simp_all add: call_wired_def sound_operate wired_op_def\<close>)

lemma sound_loop:
  assumes "sound (d, Loop p a # fs)"
  shows "sound (loop_step does p a d fs)"
proof -
  let ?cb = "lists d p"
  let ?i = "firingIndex ?cb + 1"
  have l: "sound_list p ?cb" and o: "\<And>q. sound_list q (lists d q)" and f: "list_all sound_frame fs"
    using assms by (simp_all add: sound_def)
  show ?thesis
  proof (cases "?i < int (length (items ?cb))")
    case True
    with l have i: "items ?cb ! nat ?i \<in> allowed p" by (auto simp: sound_list_def)
    from l have n: "0 \<le> 2 + firingIndex ?cb" by (simp add: sound_list_def)
    have "sound (put_list p (?cb\<lparr>firingIndex := ?i, called := called ?cb @ [(items ?cb ! nat ?i, a)]\<rparr>) d, Loop p a # fs)"
      using o f by (simp add: sound_def sound_list_def sound_frame_def n)
    from sound_call [OF this i] True show ?thesis by (simp add: loop_step_def Let_def)
  next
    case False
    have "sound_list p (?cb\<lparr>firingIndex := -1\<rparr>)" using l by (simp add: sound_list_def)
    from sound_settle [OF this, of "kind p"] False l o f show ?thesis
      by (auto simp: loop_step_def sound_def sound_list_def sound_frame_def Let_def split: list.split)
  qed
qed

lemma sound_advance: "sound c \<Longrightarrow> sound (advance does c)"
proof (induction does c rule: advance.induct)
  case (2 does d p a frames)
  then show ?case by (simp add: sound_loop)
next
  case (3 does d e frames)
  then show ?case by (simp add: sound_def)
next
  case (4 does d p op ops e frames)
  then have "sound (d, Calls ops e # frames)" "wired_op p op"
    using sound_op_wired [of p op] by (simp_all add: sound_def sound_frame_def)
  then show ?case by (simp add: sound_operate)
qed simp


subsection \<open>One value and one outcome\<close>

definition delivers :: "'a \<Rightarrow> ('f, 'a) callbacks \<Rightarrow> bool" where
  "delivers a cb = ((\<forall>x\<in>set (called cb). snd x = a) \<and> set (queue cb) \<subseteq> {a} \<and> memory cb \<in> {None, Some a})"

definition idle :: "('f, 'a) callbacks \<Rightarrow> bool" where
  "idle cb = (called cb = [] \<and> queue cb = [] \<and> memory cb = None \<and> \<not> firing cb)"

definition dead :: "('f, 'a) callbacks \<Rightarrow> bool" where
  "dead cb = (idle cb \<and> locked cb \<and> listed cb = None)"

definition fresh_list :: "which \<Rightarrow> ('g wired, 'a) callbacks \<Rightarrow> bool" where
  "fresh_list w cb = (idle cb \<and> \<not> locked cb \<and> firingIndex cb = -1 \<and> (\<exists>gs. listed cb = Some (wiring w @ map Listener gs)))"

text \<open>What the lists are once the deferred is settled, and what their loops deliver.\<close>

definition keeps :: "which \<Rightarrow> 'a \<Rightarrow> place \<Rightarrow> ('g wired, 'a) callbacks \<Rightarrow> bool" where
  "keeps w a p cb =
     (if p = Outer w then delivers a cb \<and> locked cb
      else if p = Inner w then delivers a cb
      else if p = Outer (other w) then dead cb
      else if p = Inner (other w) then idle cb
      else True)"

definition speaks :: "which \<Rightarrow> 'a \<Rightarrow> place \<Rightarrow> 'a \<Rightarrow> bool" where
  "speaks w a p m = (p \<in> {Outer Progress, Inner Progress} \<or> p \<in> {Outer w, Inner w} \<and> m = a)"

text \<open>Operations on a settled deferred: handlers are fired with its value alone.\<close>

definition admissible :: "which \<Rightarrow> 'a \<Rightarrow> place \<Rightarrow> ('g wired, 'a) operation \<Rightarrow> bool" where
  "admissible w a p op = (wired_op p op \<and> (\<forall>b. op = FireWith b \<longrightarrow> p \<noteq> Inner (other w) \<and> (p = Inner w \<longrightarrow> b = a)))"

lemma delivers_note: "delivers a cb \<Longrightarrow> wired_op p op \<Longrightarrow> (\<And>b. op = FireWith b \<Longrightarrow> b = a \<or> locked cb) \<Longrightarrow>
    delivers a (note_op s op cb) \<and> (locked cb \<longrightarrow> locked (note_op s op cb))"
  by (cases op) (auto simp: delivers_def wired_op_def note_op_def add_items_def disable_def lock_def Let_def split: option.split)

lemma settle_keeps: "delivers a cb \<Longrightarrow> delivers a (settle s cb)" "locked (settle s cb) = locked cb"
  by (simp_all add: delivers_def settle_def Let_def)

lemma delivers_start: "delivers a cb \<Longrightarrow> start_fire s cb = (cb', r) \<Longrightarrow>
    delivers a cb' \<and> (locked cb \<longrightarrow> locked cb') \<and> (\<forall>m. r = Some m \<longrightarrow> m = a)"
proof -
  assume v: "delivers a cb"
  then have "delivers a (cb\<lparr>locked := locked cb \<or> set_once s, fired := True, firing := True\<rparr>)" by (simp add: delivers_def)
  from settle_keeps(1) [OF this, of s] v show "start_fire s cb = (cb', r) \<Longrightarrow> ?thesis"
    by (auto simp: start_fire_def delivers_def settle_keeps Let_def split: list.splits)
qed

lemma idle_note: "idle cb \<Longrightarrow> wired_op p op \<Longrightarrow> (\<And>b. op = FireWith b \<Longrightarrow> locked cb) \<Longrightarrow> idle (note_op s op cb) \<and> \<not> would_fire op cb"
  by (cases op) (auto simp: idle_def wired_op_def note_op_def add_items_def disable_def lock_def would_fire_def Let_def)

lemma dead_note: "dead cb \<Longrightarrow> wired_op p op \<Longrightarrow> dead (note_op s op cb) \<and> \<not> would_fire op cb"
  by (cases op) (auto simp: dead_def idle_def wired_op_def note_op_def disable_def lock_def would_fire_def Let_def)

lemma keeps_note:
  assumes "keeps w a p cb" "admissible w a p op" "w \<noteq> Progress"
  shows "keeps w a p (note_op s op cb) \<and>
    (would_fire op cb \<longrightarrow> start_fire s (note_op s op cb) = (cb', r) \<longrightarrow> keeps w a p cb' \<and> (\<forall>m. r = Some m \<longrightarrow> speaks w a p m))"
proof -
  have op: "wired_op p op" using assms(2) by (simp add: admissible_def)
  consider "p = Outer w \<or> p = Inner w" | "p = Outer (other w)" | "p = Inner (other w)" | "p \<in> {Outer Progress, Inner Progress}"
    using assms(3) by (cases p; cases w; cases "case p of Outer x \<Rightarrow> x | Inner x \<Rightarrow> x") (auto simp: other_def)
  then show ?thesis
  proof cases
    case 1
    then have v: "delivers a cb" "p = Outer w \<longrightarrow> locked cb" using assms(1) by (auto simp: keeps_def)
    with delivers_note [OF v(1) op, of s] assms(2) 1
    have n: "delivers a (note_op s op cb)" "p = Outer w \<longrightarrow> locked (note_op s op cb)" by (auto simp: admissible_def)
    with delivers_start [OF n(1), of s cb' r] 1 show ?thesis by (auto simp: keeps_def speaks_def)
  next
    case 2
    then have "dead cb" using assms(1,3) by (cases w) (auto simp: keeps_def other_def)
    from dead_note [OF this op, of s] 2 assms(3) show ?thesis by (cases w) (auto simp: keeps_def other_def)
  next
    case 3
    then have "idle cb" using assms(1,3) by (cases w) (auto simp: keeps_def other_def)
    from idle_note [OF this op, of s] 3 assms(2,3) show ?thesis by (cases w) (auto simp: keeps_def other_def admissible_def)
  next
    case 4
    with assms(3) show ?thesis by (cases w) (auto simp: keeps_def other_def speaks_def)
  qed
qed

definition settled_as :: "which \<Rightarrow> 'a \<Rightarrow> ('g, 'a) config \<Rightarrow> bool" where
  "settled_as w a c =
     (w \<noteq> Progress \<and> state (fst c) = state_of w \<and> (\<forall>p. keeps w a p (lists (fst c) p))
      \<and> (\<forall>p m. Loop p m \<in> set (snd c) \<longrightarrow> speaks w a p m))"

lemma settled_operate:
  assumes "settled_as w a (d, fs)" "admissible w a p op"
  shows "settled_as w a (operate p op (d, fs))"
proof -
  obtain cb r where b: "start_fire (kind p) (note_op (kind p) op (lists d p)) = (cb, r)" by fastforce
  have w: "w \<noteq> Progress" and k: "\<And>p. keeps w a p (lists d p)" using assms(1) by (simp_all add: settled_as_def)
  from keeps_note [OF k assms(2) w, of "kind p" cb r] b assms(1) show ?thesis
    by (cases r) (auto simp: operate_def settled_as_def Let_def)
qed

lemma settled_call:
  assumes "settled_as w a (d, fs)" "f \<in> allowed p" "speaks w a p m"
  shows "settled_as w a (call_wired does p f m (d, fs))"
proof (cases f)
  case (Listener g)
  obtain rs e where "does g m = (rs, e)" by fastforce
  with Listener assms(1) show ?thesis by (auto simp: call_wired_def settled_as_def split: place.split)
next
  case (SetState s)
  with assms have "s = state_of w" by (cases w) (auto simp: allowed_def wiring_def speaks_def settled_as_def split: place.splits if_splits)
  with assms(1) SetState show ?thesis by (simp add: call_wired_def settled_as_def)
next
  case (Fires v)
  then have p: "p = Outer v" using assms(2) by (auto simp: allowed_def wiring_def split: place.splits if_splits)
  have "w \<noteq> Progress" using assms(1) by (simp add: settled_as_def)
  with p assms(3) have "admissible w a (Inner v) (FireWith m)"
    by (cases w) (auto simp: admissible_def wired_op_def speaks_def other_def)
  with settled_operate [OF assms(1)] Fires show ?thesis by (simp add: call_wired_def)
qed (simp_all add: call_wired_def settled_operate [OF assms(1)] admissible_def wired_op_def)


text \<open>A list whose loop goes round keeps what it is: the call noted, the queue shortened, or the loops over.\<close>

lemma keeps_rounds:
  assumes "keeps w a p cb" "speaks w a p m" "w \<noteq> Progress"
  shows "keeps w a p (cb\<lparr>firingIndex := i, called := called cb @ [(f, m)]\<rparr>)"
    "keeps w a p (settle s (cb\<lparr>firingIndex := i\<rparr>))"
    "queue cb = b # bs \<Longrightarrow> keeps w a p (cb\<lparr>firingIndex := i, queue := bs, memory := Some b\<rparr>) \<and> speaks w a p b"
proof -
  consider "p \<in> {Outer w, Inner w}" "m = a" | "p \<in> {Outer Progress, Inner Progress}"
    using assms(2) by (auto simp: speaks_def)
  then have "keeps w a p (cb\<lparr>firingIndex := i, called := called cb @ [(f, m)]\<rparr>) \<and> keeps w a p (settle s (cb\<lparr>firingIndex := i\<rparr>))
    \<and> (queue cb = b # bs \<longrightarrow> keeps w a p (cb\<lparr>firingIndex := i, queue := bs, memory := Some b\<rparr>) \<and> speaks w a p b)"
  proof cases
    case 1
    then have v: "delivers a cb" "p = Outer w \<longrightarrow> locked cb" using assms(1) by (auto simp: keeps_def)
    then have "delivers a (cb\<lparr>firingIndex := i\<rparr>)" by (simp add: delivers_def)
    from settle_keeps(1) [OF this, of s] 1 v show ?thesis
      by (auto simp: keeps_def speaks_def settle_keeps(2) delivers_def)
  next
    case 2
    with assms(3) show ?thesis by (cases w) (auto simp: keeps_def speaks_def other_def)
  qed
  then show "keeps w a p (cb\<lparr>firingIndex := i, called := called cb @ [(f, m)]\<rparr>)"
    "keeps w a p (settle s (cb\<lparr>firingIndex := i\<rparr>))"
    "queue cb = b # bs \<Longrightarrow> keeps w a p (cb\<lparr>firingIndex := i, queue := bs, memory := Some b\<rparr>) \<and> speaks w a p b"
    by blast+
qed

lemma called_in: "sound_list p cb \<Longrightarrow> firingIndex cb + 1 < int (length (items cb)) \<Longrightarrow> items cb ! nat (firingIndex cb + 1) \<in> allowed p"
  by (auto simp: sound_list_def)

lemma settled_loop:
  assumes "settled_as w a (d, Loop p m # fs)" "sound (d, Loop p m # fs)"
  shows "settled_as w a (loop_step does p m d fs)"
proof -
  let ?cb = "lists d p"
  let ?i = "firingIndex ?cb + 1"
  have l: "sound_list p ?cb" using assms(2) by (simp add: sound_def)
  have w: "w \<noteq> Progress" and k: "keeps w a p ?cb" and m: "speaks w a p m" using assms(1) by (simp_all add: settled_as_def)
  show ?thesis
  proof (cases "?i < int (length (items ?cb))")
    case True
    let ?f = "items ?cb ! nat ?i"
    have "settled_as w a (put_list p (?cb\<lparr>firingIndex := ?i, called := called ?cb @ [(?f, m)]\<rparr>) d, Loop p m # fs)"
      using assms(1) keeps_rounds(1) [OF k m w] by (simp add: settled_as_def)
    from settled_call [OF this called_in [OF l True] m] True show ?thesis by (simp add: loop_step_def Let_def)
  next
    case False
    with assms(1) keeps_rounds(2,3) [OF k m w, where i = "-1"] show ?thesis
      by (auto simp: loop_step_def settled_as_def Let_def split: list.split)
  qed
qed

lemma settled_advance:
  assumes "settled_as w a c" "sound c"
  shows "settled_as w a (advance does c)"
  using assms
proof (induction does c rule: advance.induct)
  case (2 does d p m fs)
  then show ?case by (simp add: settled_loop)
next
  case (3 does d e fs)
  then show ?case by (auto simp: settled_as_def)
next
  case (4 does d p op ops e fs)
  then have "sound_op (p, op)" by (simp add: sound_def sound_frame_def)
  then have "admissible w a p op"
    using sound_op_wired [of p op] by (auto simp: admissible_def sound_op_def split: place.splits)
  moreover have "settled_as w a (d, Calls ops e # fs)" using 4 by (auto simp: settled_as_def)
  ultimately show ?case by (simp add: settled_operate)
qed simp

subsection \<open>Before the deferred is settled\<close>

definition waits :: "place \<Rightarrow> ('g wired, 'a) callbacks \<Rightarrow> bool" where
  "waits p cb = (case p of Outer w \<Rightarrow> w = Progress \<or> fresh_list w cb | Inner w \<Rightarrow> w = Progress \<or> idle cb)"

definition only_progress :: "('g, 'a) frame list \<Rightarrow> bool" where
  "only_progress fs = (\<forall>p m. Loop p m \<in> set fs \<longrightarrow> p \<in> {Outer Progress, Inner Progress})"

definition unsettled :: "('g, 'a) config \<Rightarrow> bool" where
  "unsettled c = (state (fst c) = Unsettled \<and> (\<forall>p. waits p (lists (fst c) p)) \<and> only_progress (snd c))"

text \<open>The list that settles the deferred has begun to fire; its first two functions are still to be called.\<close>

definition settling :: "which \<Rightarrow> 'a \<Rightarrow> ('g, 'a) config \<Rightarrow> bool" where
  "settling w a c =
     (w \<noteq> Progress \<and> (\<forall>p. p \<noteq> Outer w \<longrightarrow> waits p (lists (fst c) p))
      \<and> (\<exists>fs. snd c = Loop (Outer w) a # fs \<and> only_progress fs)
      \<and> (let cb = lists (fst c) (Outer w) in
         delivers a cb \<and> locked cb \<and> (\<exists>gs. items cb = wiring w @ map Listener gs)
         \<and> (firingIndex cb = -1 \<and> called cb = [] \<and> state (fst c) = Unsettled \<or> firingIndex cb = 0 \<and> state (fst c) = state_of w)))"

lemma listeners_map: "set fs \<subseteq> range Listener \<Longrightarrow> \<exists>gs. fs = map Listener gs"
  by (simp add: ex_map_conv image_iff subset_iff)

lemma waits_note:
  assumes "waits p cb" "wired_op p op" "op = Disable \<or> op = Lock \<Longrightarrow> p \<in> {Outer Progress, Inner Progress}"
    "\<And>b. op = FireWith b \<Longrightarrow> p \<in> {Outer Progress, Inner Progress}"
  shows "waits p (note_op (kind p) op cb) \<and> (p \<notin> {Outer Progress, Inner Progress} \<longrightarrow> \<not> would_fire op cb)"
proof (cases "p \<in> {Outer Progress, Inner Progress}")
  case True
  then show ?thesis by (auto simp: waits_def)
next
  case False
  then obtain gs where op: "op = Add (map Listener gs)"
    using assms(2-4) listeners_map by (cases op) (auto simp: wired_op_def)
  have once: "\<not> set_unique (kind p)" by (simp add: kind_def) code_simp
  show ?thesis
  proof (cases p)
    case (Outer w)
    with assms(1) False obtain hs where "listed cb = Some (wiring w @ map Listener hs)" "fresh_list w cb"
      by (auto simp: waits_def fresh_list_def)
    moreover have "wiring w @ map Listener hs @ map Listener gs = wiring w @ map Listener (hs @ gs)" by simp
    ultimately show ?thesis
      using Outer op once
      by (auto simp: waits_def fresh_list_def idle_def note_op_def add_items_def would_fire_def push_all_plain Let_def simp del: map_append)
  next
    case (Inner w)
    with assms(1) False have "idle cb" by (auto simp: waits_def)
    with Inner op show ?thesis by (auto simp: waits_def idle_def note_op_def add_items_def would_fire_def)
  qed
qed


text \<open>An operation on an unsettled deferred leaves it so, or is the one that settles it.\<close>

definition phased :: "('g, 'a) config \<Rightarrow> bool" where
  "phased c = (unsettled c \<or> (\<exists>w a. settling w a c \<or> settled_as w a c))"

lemma kind_once: "w \<noteq> Progress \<Longrightarrow> set_once (kind (Outer w))"
  by (simp add: kind_def) code_simp

lemma unsettled_push: "unsettled (d, fs) \<Longrightarrow> unsettled (d, Calls ops e # fs)"
  by (simp add: unsettled_def only_progress_def)

lemma unsettled_operate:
  assumes "unsettled (d, fs)" "wired_op p op" "op = Disable \<or> op = Lock \<Longrightarrow> p \<in> {Outer Progress, Inner Progress}"
    "\<And>b w. op = FireWith b \<Longrightarrow> p = Inner w \<Longrightarrow> w = Progress"
  shows "phased (operate p op (d, fs))"
proof (cases "\<exists>a. op = FireWith a \<and> p \<notin> {Outer Progress, Inner Progress}")
  case True
  with assms(4) obtain w a where w: "op = FireWith a" "p = Outer w" "w \<noteq> Progress" by (cases p) auto
  let ?cb = "lists d p"
  have f: "fresh_list w ?cb" using assms(1) w by (auto simp: unsettled_def waits_def split: place.splits)
  then have "operate p op (d, fs) =
      (put_list p (?cb\<lparr>queue := [], locked := True, fired := True, firing := True, memory := Some a\<rparr>) d, Loop p a # fs)"
    using w by (cases ?cb) (simp add: operate_def note_op_def would_fire_def start_fire_def fresh_list_def idle_def kind_once)
  moreover have "settling w a (put_list p (?cb\<lparr>queue := [], locked := True, fired := True, firing := True, memory := Some a\<rparr>) d, Loop p a # fs)"
    using assms(1) f w by (auto simp: settling_def unsettled_def fresh_list_def idle_def delivers_def Let_def items_def)
  ultimately show ?thesis by (auto simp: phased_def)
next
  case False
  obtain cb r where b: "start_fire (kind p) (note_op (kind p) op (lists d p)) = (cb, r)" by fastforce
  have "waits p (lists d p)" using assms(1) by (simp add: unsettled_def)
  from waits_note [OF this assms(2,3)] False
  have n: "waits p (note_op (kind p) op (lists d p))" "p \<notin> {Outer Progress, Inner Progress} \<longrightarrow> \<not> would_fire op (lists d p)" by auto
  have "waits p cb" if "p \<in> {Outer Progress, Inner Progress}" using that by (auto simp: waits_def)
  with n assms(1) b have "unsettled (operate p op (d, fs))"
    by (cases r) (auto simp: operate_def unsettled_def only_progress_def Let_def)
  then show ?thesis by (simp add: phased_def)
qed

lemma unsettled_loop:
  assumes "unsettled (d, Loop p m # fs)" "sound (d, Loop p m # fs)"
  shows "phased (loop_step does p m d fs)"
proof -
  let ?cb = "lists d p"
  let ?i = "firingIndex ?cb + 1"
  have l: "sound_list p ?cb" using assms(2) by (simp add: sound_def)
  have p: "p \<in> {Outer Progress, Inner Progress}" using assms(1) by (auto simp: unsettled_def only_progress_def)
  then have any: "waits p cb" for cb :: "('a wired, 'b) callbacks" by (auto simp: waits_def)
  show ?thesis
  proof (cases "?i < int (length (items ?cb))")
    case True
    let ?f = "items ?cb ! nat ?i"
    let ?d = "put_list p (?cb\<lparr>firingIndex := ?i, called := called ?cb @ [(?f, m)]\<rparr>) d"
    have u: "unsettled (?d, Loop p m # fs)" using assms(1) any by (simp add: unsettled_def)
    have f: "?f = Fires Progress \<or> ?f \<in> range Listener"
      using called_in [OF l True] p by (auto simp: allowed_def wiring_def)
    then have "phased (call_wired does p ?f m (?d, Loop p m # fs))"
    proof
      assume "?f = Fires Progress"
      moreover have "phased (operate (Inner Progress) (FireWith m) (?d, Loop p m # fs))"
        by (rule unsettled_operate [OF u]) (simp_all add: wired_op_def)
      ultimately show ?thesis by (simp add: call_wired_def)
    next
      assume "?f \<in> range Listener"
      then obtain g where g: "?f = Listener g" by blast
      obtain rs e where "does g m = (rs, e)" by fastforce
      with g have "call_wired does p ?f m (?d, Loop p m # fs) \<in>
          {(?d, Loop p m # fs), (?d, Calls (concat (map operations rs)) e # Loop p m # fs)}"
        by (simp add: call_wired_def split: place.split)
      with u unsettled_push [OF u] have "unsettled (call_wired does p ?f m (?d, Loop p m # fs))" by auto
      then show ?thesis by (simp add: phased_def)
    qed
    with True show ?thesis by (simp add: loop_step_def Let_def)
  next
    case False
    with assms(1) any have "unsettled (loop_step does p m d fs)"
      by (auto simp: loop_step_def unsettled_def only_progress_def Let_def split: list.split)
    then show ?thesis by (simp add: phased_def)
  qed
qed

lemma unsettled_advance:
  assumes "unsettled c" "sound c"
  shows "phased (advance does c)"
  using assms
proof (induction does c rule: advance.induct)
  case (1 does d)
  then show ?case by (simp add: phased_def)
next
  case (2 does d p m fs)
  then show ?case by (simp add: unsettled_loop)
next
  case (3 does d e fs)
  then have "unsettled (advance does (d, Calls [] e # fs))" by (auto simp: unsettled_def only_progress_def)
  then show ?case by (simp add: phased_def)
next
  case (4 does d p op ops e fs)
  then have o: "sound_op (p, op)" by (simp add: sound_def sound_frame_def)
  have "unsettled (d, Calls ops e # fs)" using 4 by (auto simp: unsettled_def only_progress_def)
  then have "phased (operate p op (d, Calls ops e # fs))"
    by (rule unsettled_operate) (use o sound_op_wired [OF o] in \<open>auto simp: sound_op_def split: place.splits\<close>)
  then show ?case by simp
qed

lemma settling_advance:
  assumes "settling w a c"
  shows "settling w a (advance does c) \<and> state (fst c) = Unsettled \<or> settled_as w a (advance does c)"
proof -
  let ?cb = "lists (fst c) (Outer w)"
  obtain d fs where c: "c = (d, Loop (Outer w) a # fs)" and fs: "only_progress fs"
    using assms by (cases c) (auto simp: settling_def)
  obtain gs where i: "items ?cb = wiring w @ map Listener gs" using assms by (auto simp: settling_def Let_def)
  have w: "w \<noteq> Progress" and others: "\<And>p. p \<noteq> Outer w \<Longrightarrow> waits p (lists d p)"
    and cb: "delivers a ?cb" "locked ?cb" using assms c by (auto simp: settling_def Let_def)
  from i w have len: "1 < length (items ?cb)" by (simp add: wiring_def)
  consider "firingIndex ?cb = -1" "state d = Unsettled" | "firingIndex ?cb = 0" "state d = state_of w" using assms c by (auto simp: settling_def Let_def)
  then show ?thesis
  proof cases
    case 1
    let ?d = "put_list (Outer w) (?cb\<lparr>firingIndex := 0, called := called ?cb @ [(SetState (state_of w), a)]\<rparr>) d"
    have "advance does c = (?d\<lparr>state := state_of w\<rparr>, Loop (Outer w) a # fs)"
      using 1 c len i w by (simp add: loop_step_def call_wired_def wiring_def Let_def)
    moreover have "settling w a (?d\<lparr>state := state_of w\<rparr>, Loop (Outer w) a # fs)"
      using w others fs cb i c by (auto simp: settling_def delivers_def Let_def put_list_def)
    ultimately show ?thesis using 1 c by simp
  next
    case 2
    let ?d = "put_list (Outer w) (?cb\<lparr>firingIndex := 1, called := called ?cb @ [(Disables (Outer (other w)), a)]\<rparr>) d"
    have ow: "other w \<noteq> w" "other w \<noteq> Progress" using w by (cases w; simp add: other_def)+
    have "advance does c = operate (Outer (other w)) Disable (?d, Loop (Outer w) a # fs)"
      using 2 c len i w by (simp add: loop_step_def call_wired_def wiring_def Let_def)
    also have "\<dots> = (put_list (Outer (other w)) (disable (lists d (Outer (other w)))) ?d, Loop (Outer w) a # fs)"
      using ow by (simp add: operate_def note_op_def would_fire_def Let_def)
    finally have adv: "advance does c = (put_list (Outer (other w)) (disable (lists d (Outer (other w)))) ?d, Loop (Outer w) a # fs)" .
    have "dead (disable (lists d (Outer (other w))))"
      using others [of "Outer (other w)"] ow by (auto simp: waits_def fresh_list_def dead_def idle_def disable_def)
    moreover have "idle (lists d (Inner (other w)))" "delivers a (lists d (Inner w))"
      using others [of "Inner (other w)"] others [of "Inner w"] ow w by (auto simp: waits_def idle_def delivers_def)
    ultimately have "settled_as w a (advance does c)"
      using adv w ow 2(2) cb c fs
      by (auto simp: settled_as_def keeps_def speaks_def only_progress_def delivers_def)
    then show ?thesis by simp
  qed
qed


subsection \<open>Every run\<close>

lemma phased_request: "phased (d, []) \<Longrightarrow> phased (d, [Calls ops Returns])"
  by (auto simp: phased_def unsettled_def only_progress_def settling_def settled_as_def)

lemma sound_request: "sound (d, []) \<Longrightarrow> sound (d, [Calls (operations r) Returns])"
  by (simp add: sound_def sound_frame_def operations_sound)

lemma phased_advance: "phased c \<Longrightarrow> sound c \<Longrightarrow> phased (advance does c)"
proof -
  assume o: "phased c" and s: "sound c"
  from o consider "unsettled c" | w a where "settling w a c" | w a where "settled_as w a c" by (auto simp: phased_def)
  then show ?thesis
  proof cases
    case 1
    then show ?thesis using s by (rule unsettled_advance)
  next
    case 2
    from settling_advance [OF this] show ?thesis unfolding phased_def by blast
  next
    case 3
    from settled_advance [OF this s] show ?thesis unfolding phased_def by blast
  qed
qed

lemma Deferred_lists: "lists Deferred (Outer w) = Callbacks\<lparr>listed := Some (wiring w)\<rparr>" "lists Deferred (Inner w) = Callbacks"
proof -
  have "\<not> set_unique (kind (Outer w))" by (simp add: kind_def) code_simp
  then show "lists Deferred (Outer w) = Callbacks\<lparr>listed := Some (wiring w)\<rparr>"
    by (simp add: Deferred_def add_items_def Callbacks_def push_all_plain)
qed (simp add: Deferred_def)

lemma lists_Deferred: "sound_list p (lists Deferred p)" "waits p (lists Deferred p)" "state Deferred = Unsettled"
  by (cases p; auto simp: sound_list_def Deferred_lists Callbacks_def items_def allowed_def waits_def fresh_list_def idle_def)+
    (simp add: Deferred_def)

lemma phased_Deferred: "sound (Deferred, []) \<and> phased (Deferred, [])"
  by (simp add: lists_Deferred sound_def phased_def unsettled_def only_progress_def)

inductive_cases deferred_stepE: "deferred_step does c c'"

interpretation deferred: machine "\<lambda>c. c = (Deferred, [])" "deferred_step does" "\<lambda>c. sound c \<and> phased c" for does
proof unfold_locales
  show "sound c' \<and> phased c'" if "sound c \<and> phased c" "deferred_step does c c'" for c c'
    using that(2,1) by (auto elim!: deferred_stepE intro: sound_advance phased_advance sound_request phased_request)
qed (simp add: phased_Deferred)

text \<open>The listeners that were called, with the values; for the handlers of \<open>then\<close>, those whose timer was set.\<close>

definition heard :: "('g, 'a) deferred \<Rightarrow> place \<Rightarrow> ('g \<times> 'a) list" where
  "heard d p = concat (map (\<lambda>(f, a). case f of Listener g \<Rightarrow> [(g, a)] | _ \<Rightarrow> []) (called (lists d p)))"

lemma heard_called: "(g, a) \<in> set (heard d p) \<Longrightarrow> (Listener g, a) \<in> set (called (lists d p))"
  by (auto simp: heard_def split: wired.splits)

lemma unheard: "called (lists d p) = [] \<Longrightarrow> heard d p = []"
  by (simp add: heard_def)

lemma waits_called: "waits p cb \<Longrightarrow> p \<notin> {Outer Progress, Inner Progress} \<Longrightarrow> called cb = []"
  by (auto simp: waits_def fresh_list_def idle_def split: place.splits)

lemma outcomes: "w \<noteq> Progress \<Longrightarrow> v \<noteq> Progress \<Longrightarrow> v = w \<or> w = other v \<and> v = other w"
  by (cases v; cases w; simp add: other_def)

lemma other_which: "w \<noteq> Progress \<Longrightarrow> other w \<noteq> w \<and> other w \<noteq> Progress"
  by (cases w; simp add: other_def)

lemma image_single: "x \<in> S \<Longrightarrow> (\<And>y. y \<in> S \<Longrightarrow> snd y = b) \<Longrightarrow> snd ` S = {b}"
proof -
  assume x: "x \<in> S" and "\<And>y. y \<in> S \<Longrightarrow> snd y = b"
  then have "snd ` S = (\<lambda>_. b) ` S" by (intro image_cong refl) simp
  with x show ?thesis by auto
qed

lemma delivers_heard: "delivers a (lists d p) \<Longrightarrow> (h, b) \<in> set (heard d p) \<Longrightarrow> b = a"
  by (auto simp: delivers_def dest!: heard_called)

lemma delivered:
  assumes "phased (d, frames)" "w \<noteq> Progress" "called (lists d (Outer w)) \<noteq> [] \<or> called (lists d (Inner w)) \<noteq> []"
  shows "\<exists>b. state d = state_of w \<and> called (lists d (Outer (other w))) = [] \<and> called (lists d (Inner (other w))) = []
    \<and> delivers b (lists d (Outer w)) \<and> delivers b (lists d (Inner w))"
proof -
  note no = assms(3) and ow = other_which [OF assms(2)]
  from assms(1) consider "unsettled (d, frames)" | v b where "settling v b (d, frames)" | v b where "settled_as v b (d, frames)"
    by (auto simp: phased_def)
  then show ?thesis
  proof cases
    case 1
    then have "waits p (lists d p)" for p by (simp add: unsettled_def)
    with no waits_called assms(2) show ?thesis by fastforce
  next
    case 2
    then have p: "\<And>p. p \<noteq> Outer v \<Longrightarrow> waits p (lists d p)" by (simp add: settling_def)
    have "v = w"
    proof (rule ccontr)
      assume "v \<noteq> w"
      with no waits_called [OF p [of "Outer w"]] waits_called [OF p [of "Inner w"]] assms(2) show False by auto
    qed
    moreover have i: "called (lists d (Inner w)) = []" using waits_called [OF p [of "Inner w"]] assms(2) by simp
    moreover have "called (lists d (Outer (other w))) = []" "called (lists d (Inner (other w))) = []"
      using waits_called [OF p] ow \<open>v = w\<close> by auto
    moreover have "delivers b (lists d (Inner w))"
      using p [of "Inner w"] assms(2) by (simp add: waits_def idle_def delivers_def)
    moreover have "delivers b (lists d (Outer w))" "state d = state_of w"
      using 2 \<open>v = w\<close> no i by (auto simp: settling_def Let_def)
    ultimately show ?thesis by blast
  next
    case 3
    then have v: "v \<noteq> Progress" and k: "\<And>p. keeps v b p (lists d p)" and s: "state d = state_of v"
      by (simp_all add: settled_as_def)
    have c: "called (lists d (Outer (other v))) = []" "called (lists d (Inner (other v))) = []"
      using k [of "Outer (other v)"] k [of "Inner (other v)"] other_which [OF v] by (auto simp: keeps_def dead_def idle_def)
    with no outcomes [OF assms(2) v] have "v = w" by auto
    moreover have "delivers b (lists d (Outer v))" "delivers b (lists d (Inner v))"
      using k [of "Outer v"] k [of "Inner v"] by (simp_all add: keeps_def)
    ultimately show ?thesis using c s by blast
  qed
qed

text \<open>
  C36: A deferred is settled once, whatever its listeners do to it while they run, and whether they throw or not (they
  do not catch what the calls that they make throw): if
  a listener or handler of one outcome is called, then the deferred is in that state, none of the other outcome has been
  called, and every one was called with the same value.
\<close>

theorem deferred_settles_once:
  assumes "(deferred_step does)\<^sup>*\<^sup>* (Deferred, []) (d, frames)"
    "w \<noteq> Progress" "(g, a) \<in> set (heard d (Outer w)) \<union> set (heard d (Inner w))"
  shows "state d = state_of w \<and> heard d (Outer (other w)) = [] \<and> heard d (Inner (other w)) = []
    \<and> snd ` (set (heard d (Outer w)) \<union> set (heard d (Inner w))) = {a}"
proof -
  have "phased (d, frames)" using deferred.inv_reach [OF refl assms(1)] by simp
  moreover have "called (lists d (Outer w)) \<noteq> [] \<or> called (lists d (Inner w)) \<noteq> []"
    using assms(3) by (auto dest: heard_called)
  ultimately obtain b where s: "state d = state_of w" "called (lists d (Outer (other w))) = []" "called (lists d (Inner (other w))) = []"
    and b: "delivers b (lists d (Outer w))" "delivers b (lists d (Inner w))"
    using delivered assms(2) by blast
  have e: "snd x = b" if "x \<in> set (heard d (Outer w)) \<union> set (heard d (Inner w))" for x
    using that delivers_heard [OF b(1), of "fst x" "snd x"] delivers_heard [OF b(2), of "fst x" "snd x"] by auto
  from image_single [OF assms(3) e] e [OF assms(3)] s show ?thesis by (simp add: unheard)
qed

text \<open>
  The state of a deferred is final: once it is resolved or rejected, nothing that listeners or requests do changes it.
\<close>

theorem deferred_state_final:
  assumes "(deferred_step does)\<^sup>*\<^sup>* (Deferred, []) c" "(deferred_step does)\<^sup>*\<^sup>* c c'" "state (fst c) \<noteq> Unsettled"
  shows "state (fst c') = state (fst c)"
proof -
  have o: "sound c \<and> phased c" using deferred.inv_reach [OF refl assms(1)] by simp
  let ?P = "\<lambda>c. \<exists>w a. settling w a c \<and> state (fst c) = state_of w \<or> settled_as w a c"
  have su: "state_of w \<noteq> Unsettled" if "w \<noteq> Progress" for w using that by (cases w) (simp_all add: state_of_def)
  have "?P c"
    using o assms(3) by (auto simp: phased_def unsettled_def settling_def Let_def)
  show ?thesis
  proof (rule deferred.constant_on_runs [where P = ?P, OF o assms(2) \<open>?P c\<close>])
    fix s t
    assume s: "sound s \<and> phased s" and P: "?P s" and step: "deferred_step does s t"
    from P obtain w a where w: "settling w a s \<and> state (fst s) = state_of w \<or> settled_as w a s" by blast
    from step have "settled_as w a t"
    proof cases
      case (goes_on fs d)
      from w show ?thesis
      proof
        assume "settling w a s \<and> state (fst s) = state_of w"
        then show ?thesis using settling_advance [of w a s does] goes_on su by (auto simp: settling_def)
      next
        assume "settled_as w a s"
        then show ?thesis using settled_advance [of w a s does] goes_on s by simp
      qed
    next
      case (request d r)
      with w show ?thesis by (auto simp: settled_as_def settling_def)
    qed
    moreover have "state (fst s) = state_of w" using w by (auto simp: settled_as_def)
    ultimately show "?P t \<and> state (fst t) = state (fst s)" by (auto simp: settled_as_def)
  qed
qed

subsection \<open>Examples\<close>

lemma advances_reach: "(deferred_step does)\<^sup>*\<^sup>* c ((advance does ^^ n) c)"
proof (induction n)
  case (Suc n)
  obtain d fs where c: "(advance does ^^ n) c = (d, fs)" by fastforce
  show ?case
  proof (cases "fs = []")
    case True
    with Suc c show ?thesis by simp
  next
    case False
    from rtranclp.rtrancl_into_rtrancl [OF Suc goes_on [OF False, of does d, folded c]] show ?thesis by simp
  qed
qed simp

text \<open>A listener that tries to reject the deferred that calls it, and a deferred that is then resolved.\<close>

definition contrary :: "(nat, nat) listeners" where
  "contrary g a = ([Settle Fail (a + 1)], Returns)"

definition listened :: "(nat, nat) deferred" where
  "listened = fst ((advance contrary ^^ 2) (Deferred, [Calls (operations (Listen Done [1])) Returns]))"

definition resolved :: "(nat, nat) config" where
  "resolved = (advance contrary ^^ 20) (listened, [Calls (operations (Settle Done 7)) Returns])"

lemma listened_rests: "snd ((advance contrary ^^ 2) (Deferred, [Calls (operations (Listen Done [1 :: nat])) Returns])) = []"
  by code_simp

lemma resolved_reached: "(deferred_step contrary)\<^sup>*\<^sup>* (Deferred, []) (listened, [])"
  "(deferred_step contrary)\<^sup>*\<^sup>* (Deferred, []) resolved"
proof -
  have "(deferred_step contrary)\<^sup>*\<^sup>* (Deferred, []) (Deferred, [Calls (operations (Listen Done [1])) Returns])" by (blast intro: request)
  from rtranclp_trans [OF this advances_reach] listened_rests show l: "(deferred_step contrary)\<^sup>*\<^sup>* (Deferred, []) (listened, [])"
    unfolding listened_def by (metis prod.collapse)
  then have "(deferred_step contrary)\<^sup>*\<^sup>* (Deferred, []) (listened, [Calls (operations (Settle Done 7)) Returns])"
    by (rule rtranclp.rtrancl_into_rtrancl) (rule request)
  from rtranclp_trans [OF this advances_reach] show "(deferred_step contrary)\<^sup>*\<^sup>* (Deferred, []) resolved"
    unfolding resolved_def .
qed

lemma resolved_heard: "heard (fst resolved) (Outer Done) = [(1, 7)]" "snd resolved = []"
  by code_simp+

lemma resolved_rests: "(deferred_step contrary)\<^sup>*\<^sup>* (Deferred, []) (fst resolved, [])"
  using resolved_reached(2) resolved_heard(2) by (metis prod.collapse)


theorem deferred_settles_once_witness:
  "state (fst resolved) = state_of Done \<and> heard (fst resolved) (Outer (other Done)) = [] \<and> heard (fst resolved) (Inner (other Done)) = []
    \<and> snd ` (set (heard (fst resolved) (Outer Done)) \<union> set (heard (fst resolved) (Inner Done))) = {7}"
  by (rule deferred_settles_once [OF resolved_rests, where g = 1]) (simp_all add: resolved_heard)

theorem deferred_state_final_witness:
  "state (fst ((advance contrary ^^ 10) (fst resolved, [Calls (operations (Settle Fail 9)) Returns]))) = state (fst (fst resolved, [] :: (nat, nat) frame list))"
proof (rule deferred_state_final [OF resolved_rests])
  show "(deferred_step contrary)\<^sup>*\<^sup>* (fst resolved, []) ((advance contrary ^^ 10) (fst resolved, [Calls (operations (Settle Fail 9)) Returns]))"
    by (rule converse_rtranclp_into_rtranclp [OF request advances_reach])
  show "state (fst (fst resolved, [] :: (nat, nat) frame list)) \<noteq> Unsettled" by code_simp
qed

end
