(* ===== verification/Spec2Isabelle.thy ===== *)
theory Spec2Isabelle
  imports TriageMain SitePolling SiteForms ValidateDigits ValidatorWaiting UnobtrusiveSpec
    UnobtrusiveBoard JqSelect ValidatorRemote JqClasses JqExtend JqDeferred
begin

text \<open>
  A verification library for the JavaScript of this repository: the issue triage script
  \<open>.squad/templates/ralph-triage.js\<close>, the web UI's page script \<open>src/webui/wwwroot/js/site.js\<close>, and the
  form validation that the web UI ships under \<open>src/webui/wwwroot/lib\<close>:
  \<open>jquery-validation/dist/jquery.validate.js\<close>, its \<open>additional-methods.js\<close> and
  \<open>jquery-validation-unobtrusive/jquery.validate.unobtrusive.js\<close>.

  \<^bold>\<open>How the parts interact.\<close> The triage script runs in a workflow: it reads \<open>team.md\<close> and
  \<open>routing.md\<close>, asks GitHub for the open issues with the label \<open>squad\<close>, decides a member for each
  untriaged one and writes the decisions to a file, from which the workflow sets the labels. The page
  script runs in the browser beside the server-rendered page \<open>src/webui/Pages/Index.cshtml\<close>: it
  guards the forms, polls the state of a workflow and rewrites the stage track, the summary, the
  timeline and the live region from the answers. The validation runs beside it: the unobtrusive library reads
  the attributes \<open>data-val-...\<close> of the fields and makes a validator for each form, the validator checks
  fields on events of the page and forms on submission, by the methods of both plugin files.

  \<^bold>\<open>Runtime.\<close>
  \<^item> \<open>JsPrelude\<close>: JavaScript strings as lists of UTF-16 units, white space, case, searching, splitting,
    numbers as text, \<open>findIndex\<close>, and the lemmas the other theories share. Case conversion is exact on
    the units below 256.
  \<^item> \<open>JsRegex\<close>: the ECMAScript backtracking matcher as a list of successes, \<open>exec\<close>, \<open>test\<close> and
    \<open>replace\<close>. A quantifier runs on fuel that its own text bounds; \<open>re_match_Rep\<close> is its equation
    without fuel.
  \<^item> \<open>JsPattern\<close>: \<open>new RegExp\<close>, the parser of patterns, so that a pattern stands in a definition as in the
    source (with backquotes for backslashes); \<open>match\<close> with the flag \<open>g\<close> and \<open>split\<close>. The parser's fuel is
    three times the length of the text; \<open>p_alt_fuel\<close> shows that more changes nothing.
  \<^item> \<open>JsLanguage\<close>: the set of texts that a pattern without captures and assertions reads, and what a \<open>test\<close>
    between \<open>^\<close> and \<open>$\<close> means.
  \<^item> \<open>JsValues\<close>: the values of fields and parameters, \<open>Number\<close>, number to text, comparison. Numbers are exact
    decimals, so values that differ only beyond the precision of a double are outside the model.
  \<^item> \<open>JsObject\<close>: objects as association lists in the order of creation, \<open>$.extend\<close>, and the inherited names that
    the operator \<open>in\<close> finds.
  \<^item> \<open>JsJson\<close>: JSON values, property reads, truthiness, thrown errors as values, \<open>JSON.stringify\<close>.
  \<^item> \<open>Machines\<close>: the locales \<open>machine\<close> (initial states, steps, an invariant) and \<open>resting_machine\<close> (with
    a rank that every step lowers), which the poller, the scenario cards, the loading form, the validator and
    jQuery's deferreds interpret.

  \<^bold>\<open>Issue triage.\<close>
  \<^item> \<open>TriageText\<close>: line ends, table cells, names and paths (\<open>normalizeEol\<close>, \<open>cleanCell\<close>,
    \<open>normalizeName\<close>, ...).
  \<^item> \<open>TriageTable\<close>: \<open>parseTableSection\<close> and the readers of the roster, the routing rules and the module
    owners. A printed roster is read back exactly; what the readers return is well formed.
  \<^item> \<open>TriageMatch\<close>: \<open>findMember\<close>, \<open>findBestModuleMatch\<close>, \<open>findBestRuleMatch\<close>, \<open>findRoleKeywordMatch\<close>,
    \<open>findLeadFallback\<close> and \<open>triageIssue\<close>. The locale \<open>best_scan\<close> is the contract of the two best-match
    loops and \<open>roster_choice\<close> that of the three lookups. The properties say which candidate wins, what
    justifies a decision, in which order the steps count and when nobody is assigned.
  \<^item> \<open>TriageMain\<close>: \<open>parseArgs\<close>, \<open>parseOwnerRepoFromRemote\<close>, \<open>fetchSquadIssues\<close>, the untriaged filter and
    \<open>main\<close>. The record \<open>env\<close> is the operating system and GitHub: files, the git remote, \<open>URL\<close>,
    \<open>JSON.parse\<close> and the answers are its fields. The paging loop has no bound, so it is a
    \<open>partial_function\<close> whose value is \<open>None\<close> when it never returns; its properties show when it returns,
    with what, and when it does not.

  \<^bold>\<open>Page script.\<close>
  \<^item> \<open>SiteHtml\<close>: \<open>escHtml\<close>, \<open>formatTime\<close>, the timeline entry's template, the status texts. Escaping is
    stated against a reader of character references and a tokenizer of the markup.
  \<^item> \<open>SiteView\<close>: the rewritten part of the page as the record \<open>page\<close>, \<open>announceStatus\<close>, \<open>updateStages\<close>,
    \<open>updateSummary\<close>, \<open>updateTimeline\<close>, \<open>updateSupportCase\<close>, and the server's own rendering of the stage
    track.
  \<^item> \<open>SitePolling\<close>: \<open>startPolling\<close> as a state machine. Every answer is reduced to a verdict (the page
    it leaves, and the terminal status if it ends the polling); the schedule is turned into numbers; the
    invariant and the rank give the bounds, the end and what is shown there.
  \<^item> \<open>SiteForms\<close>: the scenario cards, the evidence list, and the loading state of a form over submit
    events, deferred tasks, safety timers and back-forward-cache restores.

  \<^bold>\<open>Validation methods.\<close>
  \<^item> \<open>ValidateFormats\<close> and \<open>ValidateChecks\<close>: the methods of both files that look at a text alone: formats by
    their patterns, and check digits (\<open>iban\<close>, \<open>creditcard\<close>, \<open>cpfBR\<close>, \<open>vinUS\<close>, ...) by their loops.
  \<^item> \<open>ValidateFields\<close>: what is read from a field (\<open>elementValue\<close>, \<open>getLength\<close>, the selectors), the methods
    that need it, files, words, dates, and \<open>$.validator.format\<close>. A date's text, a selector's answer and whether
    a field is hidden are arguments.
  \<^item> \<open>ValidateDigits\<close>: what the check digits and formats mean: the remainder of \<open>iban\<close>, the mistakes that the
    Luhn sum detects, the addresses that \<open>ipv4\<close> accepts.

  \<^bold>\<open>The validator.\<close>
  \<^item> \<open>ValidatorRules\<close>: the four sources of an element's rules, dependencies, normalisation, \<open>rules()\<close>, and the order
    in which rules are tried.
  \<^item> \<open>ValidatorState\<close>: the validator's object and the part of the page it changes as the record \<open>vstate\<close>; the
    settings and what the page answers as the record \<open>page\<close>. Elements and error labels are positions.
  \<^item> \<open>ValidatorMethods\<close>: messages, \<open>remote\<close> with its requests, and the table of all methods. \<open>ValidatorCore\<close>:
    \<open>check\<close>, \<open>form\<close>, \<open>element\<close>, \<open>showErrors\<close>, \<open>resetForm\<close>, focus. \<open>ValidatorEvents\<close>: the handlers, the
    submission, the answers of requests, \<open>destroy\<close>, and \<open>validator_step\<close>, one event of a page. An operation
    that may throw has the type \<open>run\<close>, the state it leaves beside its result.
  \<^item> \<open>ValidatorFrames\<close> and \<open>ValidatorRequests\<close>: which parts of the state each operation leaves alone; the locales
    \<open>request_keeper\<close> and \<open>answer_keeper\<close>, the contract of the operations that touch pending requests, and the
    invariant of their counter.
  \<^item> \<open>ValidatorSpec\<close> (with the examples of \<open>ValidatorSamples\<close>): what a submission that goes through has checked,
    what checking a form computes, errors included, against a specification without state (\<open>form_outcome\<close>), what
    blocks a submission, and what an error lets through. \<open>ValidatorSubmits\<close>: what never submits the form. The methods
    that a page adds are arbitrary functions of the value; where a property needs that none of them answers
    \<open>"pending"\<close> (\<open>prompt_methods\<close>), it says so, and \<open>unobtrusive_prompt\<close> shows it of the unobtrusive library's.
  \<^item> \<open>ValidatorRemote\<close>: when a remote rule asks the server, over the text of its question (\<open>JqParam\<close>).
  \<^item> \<open>ValidatorWaiting\<close>: what makes the validator forget a submission that waits for an answer: a later answer alone.

  \<^bold>\<open>Unobtrusive validation.\<close>
  \<^item> \<open>Unobtrusive\<close>: the adapters with their registration, the library's own methods, \<open>parseElement\<close> and \<open>parse\<close>
    up to the settings that a form's validator is made of, with the method \<open>extension\<close> loaded (\<open>ext\<close>) or not, as on
    the repository's pages. \<open>UnobtrusiveSpec\<close>: which rules the attributes make,
    when parsing throws and what it leaves, and the way from an attribute to the rules of \<open>ValidatorRules\<close>.
  \<^item> \<open>UnobtrusiveMessages\<close> and \<open>UnobtrusiveBoard\<close>: the message containers and summaries under \<open>onError\<close>,
    \<open>onErrors\<close>, \<open>onSuccess\<close> and \<open>onReset\<close>.

  \<^bold>\<open>What the validation uses of jQuery.\<close> (\<open>jquery/dist/jquery.js\<close>)
  \<^item> \<open>JqSelect\<close>: the attribute selectors, with which both libraries look up a field by its name: what
    \<open>escapeAttributeValue\<close> writes is read back as the name.
  \<^item> \<open>JqParam\<close>: \<open>$.param\<close> over \<open>encodeURIComponent\<close>, with which \<open>remote\<close> notes what it asked (the text that
    \<open>data_string\<close> of a \<open>page\<close> stands for). The text of a request determines its fields.
  \<^item> \<open>JqClasses\<close>: \<open>addClass\<close>, \<open>removeClass\<close>, \<open>toggleClass\<close> and \<open>hasClass\<close> on the text of the attribute, and that
    they are what the other theories take them for: operations on a list of names (\<open>look\<close> of the validator and the
    containers of the unobtrusive library hold their classes as truth values).
  \<^item> \<open>JqExtend\<close>: \<open>$.extend\<close>, shallow (as \<open>extend_obj\<close> has it) and deep, with which defaults and options become the
    settings of a validator; a deep extension never brings in a name \<open>__proto__\<close>.
  \<^item> \<open>JqCallbacks\<close>: \<open>$.Callbacks\<close>, the lists of callbacks that deliver the answer of a request. Its loop has no
    bound, since callbacks may fire their own list, so it is a \<open>partial_function\<close>; the properties show that a list
    \<open>"once memory"\<close>, whose callbacks leave it alone and may throw, implements the abstract type \<open>promise\<close> under every
    operation, and that one value is all it delivers, whatever its callbacks do.
  \<^item> \<open>JqDeferred\<close>: \<open>$.Deferred\<close>, six such lists wired to each other, as a machine (it interprets \<open>machine\<close>): its
    listeners may add listeners, settle the deferred and throw while they run, so a configuration is the lists with the
    stack of what is under way. Listeners that catch what their own calls throw are left out. It is settled once, and its state is final.

  \<^bold>\<open>Parameters.\<close> The record \<open>host\<close> holds the browser's locale formatting and date parsing; the only
  hypothesis made of it is that a formatted time has no \<open><\<close>. GitHub's paging is the hypothesis
  \<open>serves\<close>: page \<open>k\<close> holds the \<open>k\<close>-th hundred of the issues. Answers of remote validation are arbitrary events.

  \<^bold>\<open>Not modelled.\<close> Bootstrap, and jQuery beyond the parts above (of its deferreds, what the handlers of \<open>then\<close> do when their timer goes off,
  \<open>pipe\<close> and \<open>$.when\<close>): what it answers (attributes, elements
  that a selector finds, visibility) is an argument, and setting classes, attributes and texts is a change of the
  state. Of the plugin: \<open>require_from_group\<close> and \<open>skip_or_fill_minimum\<close>, which run the validator on other fields,
  \<open>strippedminlength\<close>, which parses HTML, the setting \<open>wrapper\<close>, settings that replace \<open>showErrors\<close>, \<open>highlight\<close>,
  \<open>unhighlight\<close> or \<open>errorPlacement\<close> inside the validator, messages given to \<open>rules( "add" )\<close>, elements without a
  property \<open>name\<close>, and answers to remote requests that count as true and are no texts. Of the page
  script: focus, the text of the poll's URL, console output, numbers that are no integers. The C# and Python
  services. In \<open>sort\<close>, events with invalid time stamps are ordered by insertion, where the language leaves the
  order open; the property of the timeline speaks of valid ones only.
\<close>

end
